(* ===== verification/Qsl_Prelude.thy ===== *)
theory Qsl_Prelude
  imports Main "HOL-Library.Word"
begin

text \<open>
  The shared vocabulary of the development: the lemma collections the component theories
  add to, and the generic facts on lists, maps and machine words their proofs use.

  The repository's fixed-width unsigned integers are \<open>'n word\<close> values throughout, so that
  \<open>+\<close> and \<open>-\<close> wrap as in the source; \<open>unat\<close> reads them. \<open>std::size_t\<close> values that only count
  the elements of a container are \<open>nat\<close>; where the source computes with them (saturating
  sums, offsets) the limit \<open>2 ^ 64 - 1\<close> is written out.
\<close>

section \<open>Collections\<close>

named_theorems qsl_defs \<open>unfolding equations of small helper definitions\<close>
named_theorems wf_intros \<open>introduction rules for well-formedness predicates\<close>

section \<open>Types shared by all components\<close>

type_synonym byte = "8 word"
type_synonym bytes = "byte list"

definition size_max :: nat where
  "size_max = 2 ^ 64 - 1"

section \<open>Words\<close>

lemma word_zero_less_unat: "(0 < (w :: 'a::len word)) \<longleftrightarrow> 0 < unat w"
  by (simp add: word_less_nat_alt)

lemma unat_sub_min:
  fixes a b :: "'a::len word"
  shows "unat (a - min a b) = unat a - unat b"
  by (cases "a \<le> b") (auto simp: min_def unat_sub word_le_nat_alt)

lemma unat_min:
  fixes a b :: "'a::len word"
  shows "unat (min a b) = min (unat a) (unat b)"
  by (simp add: min_def word_le_nat_alt)

lemma word_sub_zero_iff:
  fixes a b :: "'a::len word"
  shows "a - b = 0 \<longleftrightarrow> a = b"
  by (rule eq_iff_diff_eq_0 [symmetric])

section \<open>Lists\<close>

lemma sorted_wrt_filter_id: "sorted_wrt R xs \<Longrightarrow> sorted_wrt R (filter P xs)"
  by (rule sorted_wrt_filter)

lemma takeWhile_sorted_filter:
  assumes "sorted_wrt R xs" and "\<And>x y. R x y \<Longrightarrow> P y \<Longrightarrow> P x"
  shows "takeWhile P xs = filter P xs"
  using assms(1)
proof (induction xs)
  case (Cons x xs)
  show ?case
  proof (cases "P x")
    case False
    with Cons.prems assms(2) have "filter P xs = []"
      by (auto simp: filter_empty_conv)
    with False show ?thesis by simp
  qed (use Cons in simp)
qed simp

lemma restrict_dom_inter: "m |` (dom m \<inter> A) = m |` A"
  by (rule ext) (auto simp: restrict_map_def domIff)

lemma map_of_split: "k \<notin> fst ` set pre \<Longrightarrow> ((map_of post)(k \<mapsto> v) ++ map_of pre) k = Some v"
  by (simp add: map_add_def map_of_eq_None_iff [THEN iffD2])

lemma find_distinct: "distinct (map f xs) \<Longrightarrow> x \<in> set xs \<Longrightarrow> find (\<lambda>y. f y = f x) xs = Some x"
  by (induction xs) auto

lemma map_plus_upt: "map (\<lambda>k. k + n) [a..<b] = [a + n..<b + n]"
  by (induction b) auto

section \<open>Searching and updating lists\<close>

lemma find_Some_takeWhile:
  "find P xs = (if length (takeWhile (\<lambda>x. \<not> P x) xs) < length xs then Some (xs ! length (takeWhile (\<lambda>x. \<not> P x) xs)) else None)"
  by (induction xs) auto

lemma find_map: "find P (map f xs) = map_option f (find (P \<circ> f) xs)"
  by (induction xs) auto

lemma find_append: "find P (xs @ ys) = (case find P xs of None \<Rightarrow> find P ys | Some x \<Rightarrow> Some x)"
  by (induction xs) auto

lemma find_cong': "(\<And>x. x \<in> set xs \<Longrightarrow> P x = Q x) \<Longrightarrow> find P xs = find Q xs"
  by (induction xs) auto

lemma find_none: "(\<And>x. x \<in> set xs \<Longrightarrow> \<not> P x) \<Longrightarrow> find P xs = None"
  by (induction xs) auto

lemma find_SomeD: "find P xs = Some x \<Longrightarrow> x \<in> set xs \<and> P x"
  by (induction xs) (auto split: if_splits)

lemma find_from:
  assumes "a \<le> b"
  shows "find (\<lambda>k. P k \<and> m \<le> k) [a..<b] = find P [max m a..<b]"
proof (cases "m \<le> b")
  case True
  then have "[a..<b] = [a..<max m a] @ [max m a..<b]" using assms upt_add_eq_append [of a "max m a" "b - max m a"] by simp
  moreover have "find (\<lambda>k. P k \<and> m \<le> k) [a..<max m a] = None" by (rule find_none) auto
  moreover have "find (\<lambda>k. P k \<and> m \<le> k) [max m a..<b] = find P [max m a..<b]" by (rule find_cong') auto
  ultimately show ?thesis by (simp add: find_append)
next
  case False
  then have "find (\<lambda>k. P k \<and> m \<le> k) [a..<b] = None" by (intro find_none) auto
  with False show ?thesis by simp
qed

lemma find_upto:
  assumes "a \<le> b" "a \<le> m"
  shows "find (\<lambda>k. P k \<and> k \<le> m) (rev [a..<b]) = find P (rev [a..<min (Suc m) b])"
proof -
  have "[a..<b] = [a..<min (Suc m) b] @ [min (Suc m) b..<b]"
    using assms upt_add_eq_append [of a "min (Suc m) b" "b - min (Suc m) b"] by (simp add: min_def)
  moreover have "find (\<lambda>k. P k \<and> k \<le> m) (rev [min (Suc m) b..<b]) = None" by (rule find_none) (auto simp: min_le_iff_disj)
  moreover have "find (\<lambda>k. P k \<and> k \<le> m) (rev [a..<min (Suc m) b]) = find P (rev [a..<min (Suc m) b])"
    by (rule find_cong') auto
  ultimately show ?thesis by (simp add: find_append)
qed

lemma filter_find: "find P xs = Some x \<Longrightarrow> \<exists>ys. filter P xs = x # ys"
  by (induction xs) (auto split: if_splits)

lemma filter_map_distinct:
  assumes "\<And>j k. j < length xs \<Longrightarrow> k < length xs \<Longrightarrow> P (xs ! j) \<Longrightarrow> P (xs ! k) \<Longrightarrow> f (xs ! j) = f (xs ! k) \<Longrightarrow> j = k"
  shows "distinct (map f (filter P xs))"
  using assms
proof (induction xs)
  case (Cons x xs)
  have "distinct (map f (filter P xs))"
  proof (rule Cons.IH)
    fix j k assume "j < length xs" "k < length xs" "P (xs ! j)" "P (xs ! k)" "f (xs ! j) = f (xs ! k)"
    then show "j = k" using Cons.prems [of "Suc j" "Suc k"] by simp
  qed
  moreover have "f x \<notin> f ` set (filter P xs)" if "P x"
  proof
    assume "f x \<in> f ` set (filter P xs)"
    then obtain y where "y \<in> set xs" "P y" "f x = f y" by auto
    moreover from this obtain k where "k < length xs" "y = xs ! k" by (metis in_set_conv_nth)
    ultimately show False using Cons.prems [of 0 "Suc k"] that by simp
  qed
  ultimately show ?case by auto
qed simp

lemma drop_update_front:
  assumes "drop h xs = x # ys" "h < length xs"
  shows "drop h (xs[h := y]) = y # ys" "take h (xs[h := y]) = take h xs"
proof -
  have "ys = drop (Suc h) xs" using assms by (metis Cons_nth_drop_Suc list.inject)
  then show "drop h (xs[h := y]) = y # ys" using assms(2) by (simp add: Cons_nth_drop_Suc [symmetric])
  show "take h (xs[h := y]) = take h xs" by simp
qed

lemma filter_update_front:
  assumes "drop h xs = x # ys" "h < length xs" "filter P (take h xs) = []"
  shows "filter P (xs[h := y]) = filter P (y # ys)"
proof -
  have "xs[h := y] = take h xs @ y # ys" using drop_update_front [OF assms(1,2), of y] by (metis append_take_drop_id)
  then show ?thesis using assms(3) by simp
qed

lemma filter_split_nth:
  assumes "k < length xs" "P (xs ! k)" "distinct (map f (filter P xs))"
  obtains a b where "filter P xs = a @ xs ! k # b" "\<And>y. filter P (xs[k := y]) = a @ filter P [y] @ b"
    "\<And>x. x \<in> set a \<or> x \<in> set b \<Longrightarrow> f x \<noteq> f (xs ! k)"
proof -
  let ?a = "filter P (take k xs)" and ?b = "filter P (drop (Suc k) xs)"
  have xs: "xs = take k xs @ xs ! k # drop (Suc k) xs" using assms(1) by (rule id_take_nth_drop)
  have eq: "filter P xs = ?a @ xs ! k # ?b" using xs assms(2) by (metis filter.simps(2) filter_append)
  have "f (xs ! k) \<notin> f ` (set ?a \<union> set ?b)" using assms(3) unfolding eq by (simp add: image_Un)
  then have "f x \<noteq> f (xs ! k)" if "x \<in> set ?a \<or> x \<in> set ?b" for x using that by (metis UnI1 UnI2 imageI)
  moreover have "filter P (xs[k := y]) = ?a @ filter P [y] @ ?b" for y
    using assms(1) by (simp add: upd_conv_take_nth_drop)
  ultimately show thesis using that eq by blast
qed

lemma filter_remove_nth:
  assumes "k < length xs" "P (xs ! k)" "distinct (map f (filter P xs))" "\<not> P y"
  shows "filter P (xs[k := y]) = filter (\<lambda>x. f x \<noteq> f (xs ! k)) (filter P xs)"
    "length (filter P (xs[k := y])) = length (filter P xs) - 1"
proof -
  obtain a b where s: "filter P xs = a @ xs ! k # b" "\<And>y. filter P (xs[k := y]) = a @ filter P [y] @ b"
      "\<And>x. x \<in> set a \<or> x \<in> set b \<Longrightarrow> f x \<noteq> f (xs ! k)"
    by (rule filter_split_nth [OF assms(1-3)]) blast
  have "filter (\<lambda>x. f x \<noteq> f (xs ! k)) a = a" "filter (\<lambda>x. f x \<noteq> f (xs ! k)) b = b"
    using s(3) by (simp_all add: filter_id_conv)
  then show "filter P (xs[k := y]) = filter (\<lambda>x. f x \<noteq> f (xs ! k)) (filter P xs)"
    using assms(4) unfolding s(1,2) by simp
  show "length (filter P (xs[k := y])) = length (filter P xs) - 1" using assms(4) unfolding s(1,2) by simp
qed

lemma filter_set_nth:
  assumes "k < length xs" "P (xs ! k)" "distinct (map f (filter P xs))" "P y"
  shows "filter P (xs[k := y]) = map (\<lambda>x. if f x = f (xs ! k) then y else x) (filter P xs)"
proof -
  obtain a b where s: "filter P xs = a @ xs ! k # b" "\<And>y. filter P (xs[k := y]) = a @ filter P [y] @ b"
      "\<And>x. x \<in> set a \<or> x \<in> set b \<Longrightarrow> f x \<noteq> f (xs ! k)"
    by (rule filter_split_nth [OF assms(1-3)]) blast
  have "map (\<lambda>x. if f x = f (xs ! k) then y else x) a = a" "map (\<lambda>x. if f x = f (xs ! k) then y else x) b = b"
    using s(3) by (auto intro!: map_idI)
  then show ?thesis using assms(4) unfolding s(1,2) by simp
qed

end
