(* ===== verification/Core_Types.thy ===== *)
theory Core_Types
  imports Qsl_Prelude
begin

text \<open>
  The core domain of \<^verbatim>\<open>include/qsl/core\<close>: identifiers, integer-tick prices, the fixed-width
  enums with their validity tests, the structured reject reasons, the logical clock and the
  domain predicates of \<^verbatim>\<open>invariants.hpp\<close>.

  An \<^verbatim>\<open>enum class\<close> with a fixed underlying type can hold any value of that type, and the source
  does cast raw bytes to enums before it tests them. Each enum is therefore a datatype with
  the source's enumerators and one more constructor for every other value; the cast from the
  underlying integer produces that constructor only for values without an enumerator.
\<close>

section \<open>Identifiers (types.hpp)\<close>

type_synonym SymbolId = "32 word"
type_synonym Quantity = "32 word"
type_synonym QuantityTotal = "64 word"
type_synonym OrderId = "64 word"
type_synonym SeqNo = "64 word"
type_synonym Timestamp = "64 word"

text \<open>
  \<^verbatim>\<open>Price\<close> is a signed 64-bit integer. Its bits are a word; its order is the signed one, so the
  type is its own linear order.
\<close>

datatype Price = Ticks (ticks: "64 word")

instantiation Price :: linorder
begin

definition less_eq_Price :: "Price \<Rightarrow> Price \<Rightarrow> bool" where
  "less_eq_Price p q \<longleftrightarrow> sint (ticks p) \<le> sint (ticks q)"

definition less_Price :: "Price \<Rightarrow> Price \<Rightarrow> bool" where
  "less_Price p q \<longleftrightarrow> sint (ticks p) < sint (ticks q)"

instance
proof
  fix p q r :: Price
  show "(p < q) = (p \<le> q \<and> \<not> q \<le> p)"
    by (auto simp: less_eq_Price_def less_Price_def)
  show "p \<le> p"
    by (simp add: less_eq_Price_def)
  show "p \<le> q \<Longrightarrow> q \<le> r \<Longrightarrow> p \<le> r"
    by (simp add: less_eq_Price_def)
  show "p \<le> q \<Longrightarrow> q \<le> p \<Longrightarrow> p = q"
    by (cases p; cases q) (auto simp: less_eq_Price_def dest: injD [OF inj_signed])
  show "p \<le> q \<or> q \<le> p"
    by (auto simp: less_eq_Price_def)
qed

end

definition kTickScale :: Price where
  "kTickScale = Ticks 100"

section \<open>Enums (types.hpp)\<close>

datatype Side = Buy | Sell | OtherSide byte
datatype OrderType = Limit | Market | OtherOrderType byte
datatype TimeInForce = GTC | IOC | OtherTimeInForce byte

definition side_of_byte :: "byte \<Rightarrow> Side" where
  "side_of_byte b = (if b = 0 then Buy else if b = 1 then Sell else OtherSide b)"

fun byte_of_side :: "Side \<Rightarrow> byte" where
  "byte_of_side Buy = 0"
| "byte_of_side Sell = 1"
| "byte_of_side (OtherSide b) = b"

definition order_type_of_byte :: "byte \<Rightarrow> OrderType" where
  "order_type_of_byte b = (if b = 0 then Limit else if b = 1 then Market else OtherOrderType b)"

fun byte_of_order_type :: "OrderType \<Rightarrow> byte" where
  "byte_of_order_type Limit = 0"
| "byte_of_order_type Market = 1"
| "byte_of_order_type (OtherOrderType b) = b"

definition tif_of_byte :: "byte \<Rightarrow> TimeInForce" where
  "tif_of_byte b = (if b = 0 then GTC else if b = 1 then IOC else OtherTimeInForce b)"

fun byte_of_tif :: "TimeInForce \<Rightarrow> byte" where
  "byte_of_tif GTC = 0"
| "byte_of_tif IOC = 1"
| "byte_of_tif (OtherTimeInForce b) = b"

definition is_valid_side :: "Side \<Rightarrow> bool" where
  "is_valid_side s \<longleftrightarrow> s = Buy \<or> s = Sell"

definition is_valid_order_type :: "OrderType \<Rightarrow> bool" where
  "is_valid_order_type t \<longleftrightarrow> t = Limit \<or> t = Market"

definition is_valid_tif :: "TimeInForce \<Rightarrow> bool" where
  "is_valid_tif t \<longleftrightarrow> t = GTC \<or> t = IOC"

fun side_to_string :: "Side \<Rightarrow> string" where
  "side_to_string Buy = ''Buy''"
| "side_to_string Sell = ''Sell''"
| "side_to_string (OtherSide _) = ''Unknown''"

fun order_type_to_string :: "OrderType \<Rightarrow> string" where
  "order_type_to_string Limit = ''Limit''"
| "order_type_to_string Market = ''Market''"
| "order_type_to_string (OtherOrderType _) = ''Unknown''"

fun tif_to_string :: "TimeInForce \<Rightarrow> string" where
  "tif_to_string GTC = ''GTC''"
| "tif_to_string IOC = ''IOC''"
| "tif_to_string (OtherTimeInForce _) = ''Unknown''"

definition version :: string where
  "version = ''0.1.0''"

section \<open>Reject reasons and results (result.hpp)\<close>

datatype RejectReason =
    NoReason
  | UnknownSymbol
  | InvalidPrice
  | InvalidQuantity
  | InvalidSide
  | MaxQuantityExceeded
  | MaxNotionalExceeded
  | DuplicateOrderId
  | UnknownOrder
  | StorageExhausted
  | OtherReason byte

fun byte_of_reason :: "RejectReason \<Rightarrow> byte" where
  "byte_of_reason NoReason = 0"
| "byte_of_reason UnknownSymbol = 1"
| "byte_of_reason InvalidPrice = 2"
| "byte_of_reason InvalidQuantity = 3"
| "byte_of_reason InvalidSide = 4"
| "byte_of_reason MaxQuantityExceeded = 5"
| "byte_of_reason MaxNotionalExceeded = 6"
| "byte_of_reason DuplicateOrderId = 7"
| "byte_of_reason UnknownOrder = 8"
| "byte_of_reason StorageExhausted = 9"
| "byte_of_reason (OtherReason b) = b"

definition reason_of_byte :: "byte \<Rightarrow> RejectReason" where
  "reason_of_byte b =
     (if b = 0 then NoReason
      else if b = 1 then UnknownSymbol
      else if b = 2 then InvalidPrice
      else if b = 3 then InvalidQuantity
      else if b = 4 then InvalidSide
      else if b = 5 then MaxQuantityExceeded
      else if b = 6 then MaxNotionalExceeded
      else if b = 7 then DuplicateOrderId
      else if b = 8 then UnknownOrder
      else if b = 9 then StorageExhausted
      else OtherReason b)"

fun reason_to_string :: "RejectReason \<Rightarrow> string" where
  "reason_to_string NoReason = ''None''"
| "reason_to_string UnknownSymbol = ''UnknownSymbol''"
| "reason_to_string InvalidPrice = ''InvalidPrice''"
| "reason_to_string InvalidQuantity = ''InvalidQuantity''"
| "reason_to_string InvalidSide = ''InvalidSide''"
| "reason_to_string MaxQuantityExceeded = ''MaxQuantityExceeded''"
| "reason_to_string MaxNotionalExceeded = ''MaxNotionalExceeded''"
| "reason_to_string DuplicateOrderId = ''DuplicateOrderId''"
| "reason_to_string UnknownOrder = ''UnknownOrder''"
| "reason_to_string StorageExhausted = ''StorageExhausted''"
| "reason_to_string (OtherReason _) = ''Unknown''"

text \<open>The validity test compares the underlying byte, as the source does.\<close>

definition is_valid_reason :: "RejectReason \<Rightarrow> bool" where
  "is_valid_reason r \<longleftrightarrow> byte_of_reason r \<le> byte_of_reason StorageExhausted"

record Result =
  res_ok :: bool
  res_reason :: RejectReason

definition result_success :: Result where
  "result_success = \<lparr>res_ok = True, res_reason = NoReason\<rparr>"

definition result_reject :: "RejectReason \<Rightarrow> Result" where
  "result_reject r = \<lparr>res_ok = False, res_reason = r\<rparr>"

section \<open>Domain predicates (invariants.hpp)\<close>

definition is_valid_price :: "Price \<Rightarrow> bool" where
  "is_valid_price p \<longleftrightarrow> p > Ticks 0"

definition is_valid_quantity :: "Quantity \<Rightarrow> bool" where
  "is_valid_quantity q \<longleftrightarrow> q > 0"

definition validate_limit :: "Price \<Rightarrow> Quantity \<Rightarrow> Result" where
  "validate_limit price qty =
     (if \<not> is_valid_price price then result_reject InvalidPrice
      else if \<not> is_valid_quantity qty then result_reject InvalidQuantity
      else result_success)"

section \<open>The logical clock (clock.hpp)\<close>

record LogicalClock =
  time :: Timestamp

definition clock_init :: LogicalClock where
  "clock_init = \<lparr>time = 0\<rparr>"

definition now :: "LogicalClock \<Rightarrow> Timestamp" where
  "now c = time c"

definition tick :: "LogicalClock \<Rightarrow> Timestamp \<times> LogicalClock" where
  "tick c = (let t = time c + 1 in (t, c\<lparr>time := t\<rparr>))"

definition advance :: "Timestamp \<Rightarrow> LogicalClock \<Rightarrow> LogicalClock" where
  "advance amount c = c\<lparr>time := time c + amount\<rparr>"

section \<open>Facts\<close>

lemma side_byte_roundtrip [simp]: "byte_of_side (side_of_byte b) = b"
  by (simp add: side_of_byte_def)

lemma order_type_byte_roundtrip [simp]: "byte_of_order_type (order_type_of_byte b) = b"
  by (simp add: order_type_of_byte_def)

lemma tif_byte_roundtrip [simp]: "byte_of_tif (tif_of_byte b) = b"
  by (simp add: tif_of_byte_def)

lemma reason_byte_roundtrip [simp]: "byte_of_reason (reason_of_byte b) = b"
  by (simp add: reason_of_byte_def)

lemma side_of_byte_valid [simp]: "is_valid_side s \<Longrightarrow> side_of_byte (byte_of_side s) = s"
  by (auto simp: is_valid_side_def side_of_byte_def)

lemma order_type_of_byte_valid [simp]:
  "is_valid_order_type t \<Longrightarrow> order_type_of_byte (byte_of_order_type t) = t"
  by (auto simp: is_valid_order_type_def order_type_of_byte_def)

lemma tif_of_byte_valid [simp]: "is_valid_tif t \<Longrightarrow> tif_of_byte (byte_of_tif t) = t"
  by (auto simp: is_valid_tif_def tif_of_byte_def)

lemma is_valid_side_of_byte: "is_valid_side (side_of_byte b) \<longleftrightarrow> b \<le> 1"
proof -
  have "b \<le> 1 \<longleftrightarrow> b = 0 \<or> b = 1"
    by (auto simp: word_le_nat_alt word_unat_eq_iff le_Suc_eq)
  then show ?thesis by (auto simp: is_valid_side_def side_of_byte_def)
qed

lemma Price_le_iff: "Ticks a \<le> Ticks b \<longleftrightarrow> sint a \<le> sint b"
  by (simp add: less_eq_Price_def)

lemma Price_less_iff: "Ticks a < Ticks b \<longleftrightarrow> sint a < sint b"
  by (simp add: less_Price_def)

lemmas Price_order [qsl_defs] = Price_le_iff Price_less_iff

lemma is_valid_price_iff: "is_valid_price p \<longleftrightarrow> 0 < sint (ticks p)"
  by (cases p) (simp add: is_valid_price_def Price_less_iff)

text \<open>A positive signed price has the same value read as an unsigned integer.\<close>

lemma valid_price_unat: "is_valid_price p \<Longrightarrow> int (unat (ticks p)) = sint (ticks p)"
  using uint_sint [of "ticks p"] sint_lt [of "ticks p"]
  by (simp add: is_valid_price_iff uint_nat [symmetric] take_bit_int_eq_self)

end
