(* ===== verification/Order_Types.thy ===== *)
theory Order_Types
  imports Core_Types
begin

text \<open>
  The value types the engine layer exchanges: resting orders, trades and level views of
  \<^verbatim>\<open>include/qsl/engine/order.hpp\<close>, and the engine's output events of
  \<^verbatim>\<open>include/qsl/engine/events.hpp\<close> (a \<^verbatim>\<open>std::variant\<close>, here a datatype with one constructor per
  alternative, its fields in the source's order).
\<close>

section \<open>Orders, trades, level views (order.hpp)\<close>

record Order =
  o_id :: OrderId
  o_side :: Side
  o_price :: Price
  o_quantity :: Quantity

record Trade =
  t_taker_id :: OrderId
  t_maker_id :: OrderId
  t_price :: Price
  t_quantity :: Quantity

record LevelView =
  lv_price :: Price
  lv_quantity :: QuantityTotal

section \<open>Engine events (events.hpp)\<close>

datatype EngineEvent =
    OrderAccepted SeqNo SymbolId OrderId
  | OrderCanceled SeqNo SymbolId OrderId
  | OrderModified SeqNo SymbolId OrderId
  | TradeEvent SeqNo SymbolId OrderId OrderId Price Quantity

fun seq_of :: "EngineEvent \<Rightarrow> SeqNo" where
  "seq_of (OrderAccepted s _ _) = s"
| "seq_of (OrderCanceled s _ _) = s"
| "seq_of (OrderModified s _ _) = s"
| "seq_of (TradeEvent s _ _ _ _ _) = s"

fun symbol_of :: "EngineEvent \<Rightarrow> SymbolId" where
  "symbol_of (OrderAccepted _ y _) = y"
| "symbol_of (OrderCanceled _ y _) = y"
| "symbol_of (OrderModified _ y _) = y"
| "symbol_of (TradeEvent _ y _ _ _ _) = y"

text \<open>\<^verbatim>\<open>std::holds_alternative<TradeEvent>\<close>, which the session, the publisher and the shrinker use.\<close>

fun is_trade :: "EngineEvent \<Rightarrow> bool" where
  "is_trade (TradeEvent _ _ _ _ _ _) = True"
| "is_trade _ = False"

section \<open>Identity and size of orders\<close>

text \<open>What matching leaves untouched in an order: everything but its remaining quantity.\<close>

definition okey :: "Order \<Rightarrow> OrderId \<times> Side \<times> Price" where
  "okey ord = (o_id ord, o_side ord, o_price ord)"

lemma okey_sel [simp]:
  "fst (okey ord) = o_id ord" "fst (snd (okey ord)) = o_side ord" "snd (snd (okey ord)) = o_price ord"
  by (simp_all add: okey_def)

lemma okey_quantity [simp]: "okey (ord\<lparr>o_quantity := q\<rparr>) = okey ord"
  by (simp add: okey_def)

lemma okey_eq_iff: "okey a = okey b \<longleftrightarrow> o_id a = o_id b \<and> o_side a = o_side b \<and> o_price a = o_price b"
  by (simp add: okey_def)

text \<open>Unbounded sums of quantities, the yardstick for conservation.\<close>

definition order_qty :: "Order list \<Rightarrow> nat" where
  "order_qty os = (\<Sum>ord\<leftarrow>os. unat (o_quantity ord))"

definition trade_qty :: "Trade list \<Rightarrow> nat" where
  "trade_qty ts = (\<Sum>t\<leftarrow>ts. unat (t_quantity t))"

lemma order_qty_simps [simp]:
  "order_qty [] = 0" "order_qty (ord # os) = unat (o_quantity ord) + order_qty os"
  "order_qty (xs @ ys) = order_qty xs + order_qty ys"
  by (simp_all add: order_qty_def)

lemma trade_qty_simps [simp]:
  "trade_qty [] = 0" "trade_qty (t # ts) = unat (t_quantity t) + trade_qty ts"
  "trade_qty (us @ ts) = trade_qty us + trade_qty ts"
  by (simp_all add: trade_qty_def)

end
