(* ===== verification/Book_Spec.thy ===== *)
theory Book_Spec
  imports Order_Types "HOL-Library.Multiset"
begin

text \<open>
  The contract of an order book, independent of any storage: two lists of resting orders in
  priority order (best price first, first come first served inside a price), a matching rule
  that consumes the opposite list from its front, and the operations add, cancel and modify
  over them as \<^verbatim>\<open>docs/matching_rules.md\<close> states them. The storage back ends of
  \<^verbatim>\<open>src/engine/order_book.cpp\<close> are proved to implement it.
\<close>

section \<open>Priority\<close>

text \<open>The comparator of a side: \<open>std::greater\<close> for bids, \<open>std::less\<close> for asks.\<close>

definition price_before :: "bool \<Rightarrow> Price \<Rightarrow> Price \<Rightarrow> bool" where
  "price_before is_bid p q = (if is_bid then p > q else p < q)"

lemma price_before_irrefl [simp]: "\<not> price_before b p p"
  by (simp add: price_before_def)

lemma price_before_trans: "price_before b p q \<Longrightarrow> price_before b q r \<Longrightarrow> price_before b p r"
  by (auto simp: price_before_def split: if_splits)

lemma price_before_asym: "price_before b p q \<Longrightarrow> \<not> price_before b q p"
  by (auto simp: price_before_def split: if_splits)

lemma price_before_total: "p \<noteq> q \<Longrightarrow> price_before b p q \<or> price_before b q p"
  by (auto simp: price_before_def)

lemma price_before_nle_trans:
  "\<not> price_before b q p \<Longrightarrow> \<not> price_before b r q \<Longrightarrow> \<not> price_before b r p"
  by (auto simp: price_before_def split: if_splits)

lemma price_before_le_trans:
  "price_before b p q \<Longrightarrow> \<not> price_before b r q \<Longrightarrow> price_before b p r"
  by (auto simp: price_before_def split: if_splits)

text \<open>A list of orders in priority order: no later order has a strictly better price.\<close>

definition prio_sorted :: "bool \<Rightarrow> Order list \<Rightarrow> bool" where
  "prio_sorted b os = sorted_wrt (\<lambda>x y. \<not> price_before b (o_price y) (o_price x)) os"

lemma prio_sorted_simps [simp]:
  "prio_sorted b []"
  "prio_sorted b (x # xs) \<longleftrightarrow> (\<forall>y\<in>set xs. \<not> price_before b (o_price y) (o_price x)) \<and> prio_sorted b xs"
  by (simp_all add: prio_sorted_def)

lemma prio_sorted_append:
  "prio_sorted b (xs @ ys) \<longleftrightarrow> prio_sorted b xs \<and> prio_sorted b ys \<and>
     (\<forall>x\<in>set xs. \<forall>y\<in>set ys. \<not> price_before b (o_price y) (o_price x))"
  by (simp add: prio_sorted_def sorted_wrt_append)

lemma prio_sorted_okey: "prio_sorted b os \<longleftrightarrow>
    sorted_wrt (\<lambda>x y. \<not> price_before b (snd (snd y)) (snd (snd x))) (map okey os)"
  by (simp add: prio_sorted_def sorted_wrt_map)

section \<open>Matching\<close>

text \<open>
  The crossing test of \<^verbatim>\<open>OrderBook::can_match_level\<close>: a market order crosses any price, a limit
  order only prices at least as good as its own.
\<close>

definition can_match_level :: "bool \<Rightarrow> bool \<Rightarrow> Price \<Rightarrow> Price \<Rightarrow> bool" where
  "can_match_level taker_is_buy is_market limit level_price =
     (if is_market then True
      else if taker_is_buy then level_price \<le> limit else level_price \<ge> limit)"

text \<open>
  The matching rule. Orders are taken from the front while the taker has quantity left and
  the front price is acceptable; each fill trades the smaller quantity at the resting price;
  a maker with quantity left keeps its place.
\<close>

definition fill_trade :: "OrderId \<Rightarrow> Order \<Rightarrow> Quantity \<Rightarrow> Trade" where
  "fill_trade taker m q =
     \<lparr>t_taker_id = taker, t_maker_id = o_id m, t_price = o_price m, t_quantity = q\<rparr>"

lemma fill_trade_sel [simp]:
  "t_taker_id (fill_trade taker m q) = taker" "t_maker_id (fill_trade taker m q) = o_id m"
  "t_price (fill_trade taker m q) = o_price m" "t_quantity (fill_trade taker m q) = q"
  by (simp_all add: fill_trade_def)

fun spec_match :: "(Price \<Rightarrow> bool) \<Rightarrow> OrderId \<Rightarrow> Quantity \<Rightarrow> Order list
    \<Rightarrow> Trade list \<times> Quantity \<times> Order list" where
  "spec_match ok taker q [] = ([], q, [])"
| "spec_match ok taker q (m # os) =
     (if q = 0 \<or> \<not> ok (o_price m) then ([], q, m # os)
      else if o_quantity m \<le> q then
        (let (ts, r, os') = spec_match ok taker (q - o_quantity m) os
         in (fill_trade taker m (o_quantity m) # ts, r, os'))
      else ([fill_trade taker m q], 0, m\<lparr>o_quantity := o_quantity m - q\<rparr> # os))"

text \<open>Resting: behind every order with an equal or better price.\<close>

fun spec_rest :: "bool \<Rightarrow> Order \<Rightarrow> Order list \<Rightarrow> Order list" where
  "spec_rest b ord [] = [ord]"
| "spec_rest b ord (x # xs) =
     (if price_before b (o_price ord) (o_price x) then ord # x # xs else x # spec_rest b ord xs)"

section \<open>Book state and operations\<close>

record SpecBook =
  s_bids :: "Order list"
  s_asks :: "Order list"

definition spec_empty :: SpecBook where
  "spec_empty = \<lparr>s_bids = [], s_asks = []\<rparr>"

definition spec_orders :: "SpecBook \<Rightarrow> Order list" where
  "spec_orders s = s_bids s @ s_asks s"

definition spec_contains :: "OrderId \<Rightarrow> SpecBook \<Rightarrow> bool" where
  "spec_contains i s \<longleftrightarrow> i \<in> o_id ` set (spec_orders s)"

definition spec_opposite :: "Side \<Rightarrow> SpecBook \<Rightarrow> Order list" where
  "spec_opposite side s = (if side = Buy then s_asks s else s_bids s)"

definition spec_set_opposite :: "Side \<Rightarrow> Order list \<Rightarrow> SpecBook \<Rightarrow> SpecBook" where
  "spec_set_opposite side os s = (if side = Buy then s\<lparr>s_asks := os\<rparr> else s\<lparr>s_bids := os\<rparr>)"

definition spec_add_resting :: "Order \<Rightarrow> SpecBook \<Rightarrow> SpecBook" where
  "spec_add_resting ord s =
     (if o_side ord = Buy then s\<lparr>s_bids := spec_rest True ord (s_bids s)\<rparr>
      else s\<lparr>s_asks := spec_rest False ord (s_asks s)\<rparr>)"

definition spec_take :: "OrderId \<Rightarrow> Side \<Rightarrow> Price \<Rightarrow> bool \<Rightarrow> Quantity \<Rightarrow> SpecBook
    \<Rightarrow> Trade list \<times> Quantity \<times> SpecBook" where
  "spec_take i side limit is_market q s =
     (let (ts, r, os') = spec_match (can_match_level (side = Buy) is_market limit) i q
                           (spec_opposite side s)
      in (ts, r, spec_set_opposite side os' s))"

definition spec_add_limit :: "OrderId \<Rightarrow> Side \<Rightarrow> Price \<Rightarrow> Quantity \<Rightarrow> TimeInForce \<Rightarrow> SpecBook
    \<Rightarrow> SpecBook \<times> Trade list" where
  "spec_add_limit i side price q tif s =
     (if spec_contains i s then (s, [])
      else let (ts, r, s') = spec_take i side price False q s
           in (if r \<noteq> 0 \<and> tif = GTC
               then spec_add_resting \<lparr>o_id = i, o_side = side, o_price = price, o_quantity = r\<rparr> s'
               else s', ts))"

definition spec_add_market :: "OrderId \<Rightarrow> Side \<Rightarrow> Quantity \<Rightarrow> SpecBook \<Rightarrow> SpecBook \<times> Trade list" where
  "spec_add_market i side q s =
     (if spec_contains i s then (s, [])
      else let (ts, r, s') = spec_take i side (Ticks 0) True q s in (s', ts))"

definition spec_remove :: "OrderId \<Rightarrow> SpecBook \<Rightarrow> SpecBook" where
  "spec_remove i s = s\<lparr>s_bids := filter (\<lambda>ord. o_id ord \<noteq> i) (s_bids s),
                       s_asks := filter (\<lambda>ord. o_id ord \<noteq> i) (s_asks s)\<rparr>"

definition spec_cancel :: "OrderId \<Rightarrow> SpecBook \<Rightarrow> SpecBook \<times> bool" where
  "spec_cancel i s = (if spec_contains i s then (spec_remove i s, True) else (s, False))"

definition set_qty :: "OrderId \<Rightarrow> Quantity \<Rightarrow> Order list \<Rightarrow> Order list" where
  "set_qty i q os = map (\<lambda>ord. if o_id ord = i then ord\<lparr>o_quantity := q\<rparr> else ord) os"

definition spec_set_qty :: "OrderId \<Rightarrow> Quantity \<Rightarrow> SpecBook \<Rightarrow> SpecBook" where
  "spec_set_qty i q s = s\<lparr>s_bids := set_qty i q (s_bids s), s_asks := set_qty i q (s_asks s)\<rparr>"

definition spec_find :: "OrderId \<Rightarrow> SpecBook \<Rightarrow> Order option" where
  "spec_find i s = find (\<lambda>ord. o_id ord = i) (spec_orders s)"

definition spec_modify :: "OrderId \<Rightarrow> Price \<Rightarrow> Quantity \<Rightarrow> SpecBook \<Rightarrow> SpecBook \<times> Trade list" where
  "spec_modify i new_price new_q s =
     (case spec_find i s of
        None \<Rightarrow> (s, [])
      | Some ord \<Rightarrow>
          if new_q = 0 then (spec_remove i s, [])
          else if new_price = o_price ord \<and> new_q \<le> o_quantity ord then (spec_set_qty i new_q s, [])
          else spec_add_limit i (o_side ord) new_price new_q GTC (spec_remove i s))"

section \<open>Well-formed books\<close>

definition uncrossed :: "SpecBook \<Rightarrow> bool" where
  "uncrossed s \<longleftrightarrow> (\<forall>b\<in>set (s_bids s). \<forall>a\<in>set (s_asks s). o_price b < o_price a)"

definition spec_wf :: "SpecBook \<Rightarrow> bool" where
  "spec_wf s \<longleftrightarrow>
     prio_sorted True (s_bids s) \<and> prio_sorted False (s_asks s) \<and>
     distinct (map o_id (spec_orders s)) \<and>
     (\<forall>ord\<in>set (spec_orders s). o_quantity ord \<noteq> 0) \<and>
     (\<forall>ord\<in>set (s_bids s). o_side ord = Buy) \<and> (\<forall>ord\<in>set (s_asks s). o_side ord \<noteq> Buy) \<and>
     uncrossed s"

section \<open>Facts about matching\<close>

text \<open>
  Every fact about \<open>spec_match\<close> below is an induction over its three ways to continue: stop,
  fill a maker whole and go on, or fill part of a maker and finish.
\<close>

lemma spec_match_induct [consumes 1, case_names stop fill part]:
  assumes "spec_match acc taker q os = (ts, r, os')"
    and "\<And>q os. q = 0 \<or> os = [] \<or> \<not> acc (o_price (hd os)) \<Longrightarrow> P q os [] q os"
    and "\<And>q m os ts r os'. q \<noteq> 0 \<Longrightarrow> acc (o_price m) \<Longrightarrow> o_quantity m \<le> q \<Longrightarrow>
           P (q - o_quantity m) os ts r os' \<Longrightarrow>
           P q (m # os) (fill_trade taker m (o_quantity m) # ts) r os'"
    and "\<And>q m os. q \<noteq> 0 \<Longrightarrow> acc (o_price m) \<Longrightarrow> q < o_quantity m \<Longrightarrow>
           P q (m # os) [fill_trade taker m q] 0 (m\<lparr>o_quantity := o_quantity m - q\<rparr> # os)"
  shows "P q os ts r os'"
  using assms(1)
proof (induction os arbitrary: q ts r os')
  case Nil
  then show ?case using assms(2) [of q "[]"] by simp
next
  case (Cons m os)
  consider "q = 0 \<or> \<not> acc (o_price m)"
    | "q \<noteq> 0" "acc (o_price m)" "o_quantity m \<le> q"
    | "q \<noteq> 0" "acc (o_price m)" "q < o_quantity m"
    by fastforce
  then show ?case
  proof cases
    case 1
    with Cons.prems assms(2) [of q "m # os"] show ?thesis by auto
  next
    case 2
    obtain ts2 r2 os2 where rec: "spec_match acc taker (q - o_quantity m) os = (ts2, r2, os2)"
      by (cases "spec_match acc taker (q - o_quantity m) os")
    have "P (q - o_quantity m) os ts2 r2 os2"
      by (rule Cons.IH [OF rec])
    from assms(3) [OF 2 this] show ?thesis
      using Cons.prems 2 rec by simp
  next
    case 3
    with Cons.prems assms(4) [of q m os] show ?thesis
      by (auto simp: not_le [symmetric])
  qed
qed

lemma spec_match_length: "spec_match acc taker q os = (ts, r, os') \<Longrightarrow> length os' \<le> length os"
  by (induction rule: spec_match_induct) auto

lemma spec_match_okey:
  "spec_match acc taker q os = (ts, r, os') \<Longrightarrow>
     map okey os' = drop (length os - length os') (map okey os)"
proof (induction rule: spec_match_induct)
  case (fill q m os ts r os')
  then have "length os' \<le> length os"
    by (metis length_drop length_map diff_le_self)
  with fill show ?case by (simp add: Suc_diff_le)
qed auto

lemma spec_match_suffix:
  assumes "spec_match acc taker q os = (ts, r, os')"
  obtains pre where "map okey os = pre @ map okey os'"
  using spec_match_okey [OF assms] by (metis append_take_drop_id)

lemma spec_match_sorted:
  "spec_match acc taker q os = (ts, r, os') \<Longrightarrow> prio_sorted b os \<Longrightarrow> prio_sorted b os'"
  by (simp add: prio_sorted_okey spec_match_okey sorted_wrt_drop)

lemma spec_match_conserves:
  "spec_match acc taker q os = (ts, r, os') \<Longrightarrow>
     trade_qty ts + unat r = unat q \<and> order_qty os' + trade_qty ts = order_qty os"
proof (induction rule: spec_match_induct)
  case (fill q m os ts r os')
  then have "unat (q - o_quantity m) = unat q - unat (o_quantity m)" "unat (o_quantity m) \<le> unat q"
    by (simp_all add: unat_sub word_le_nat_alt)
  with fill show ?case by auto
next
  case (part q m os)
  then have "q \<le> o_quantity m" by simp
  then have "unat (o_quantity m - q) = unat (o_quantity m) - unat q" "unat q \<le> unat (o_quantity m)"
    by (simp_all add: unat_sub word_le_nat_alt)
  then show ?case by simp
qed simp

lemma spec_match_positive:
  "spec_match acc taker q os = (ts, r, os') \<Longrightarrow> \<forall>ord\<in>set os. o_quantity ord \<noteq> 0 \<Longrightarrow>
     (\<forall>ord\<in>set os'. o_quantity ord \<noteq> 0) \<and> (\<forall>t\<in>set ts. t_quantity t \<noteq> 0)"
  by (induction rule: spec_match_induct) (auto simp: word_sub_zero_iff)

lemma spec_match_trades:
  "spec_match acc taker q os = (ts, r, os') \<Longrightarrow> t \<in> set ts \<Longrightarrow>
     t_taker_id t = taker \<and> acc (t_price t) \<and>
     (\<exists>m\<in>set os. o_id m = t_maker_id t \<and> o_price m = t_price t \<and> t_quantity t \<le> o_quantity m)"
  by (induction rule: spec_match_induct) auto

text \<open>The makers are the front of the queue, in queue order, and all but the last are filled whole.\<close>

lemma spec_match_makers:
  "spec_match acc taker q os = (ts, r, os') \<Longrightarrow>
     map (\<lambda>t. (t_maker_id t, t_price t)) ts = map (\<lambda>ord. (o_id ord, o_price ord)) (take (length ts) os)"
  by (induction rule: spec_match_induct) auto

lemma spec_match_whole:
  "spec_match acc taker q os = (ts, r, os') \<Longrightarrow> k + 1 < length ts \<Longrightarrow>
     t_quantity (ts ! k) = o_quantity (os ! k)"
proof (induction arbitrary: k rule: spec_match_induct)
  case (fill q m os ts r os')
  then show ?case by (cases k) auto
qed auto

lemma spec_match_stops:
  "spec_match acc taker q os = (ts, r, os') \<Longrightarrow> r = 0 \<or> os' = [] \<or> \<not> acc (o_price (hd os'))"
  by (induction rule: spec_match_induct) auto

lemma spec_match_zero [simp]: "spec_match acc taker 0 os = ([], 0, os)"
  by (cases os) auto

lemma spec_match_count:
  "spec_match acc taker q os = (ts, r, os') \<Longrightarrow> length os \<le> length os' + length ts \<and> 
     length os' + length ts \<le> length os + 1"
  by (induction rule: spec_match_induct) auto

section \<open>Facts about resting\<close>

lemma mset_spec_rest [simp]: "mset (spec_rest b ord os) = add_mset ord (mset os)"
  by (induction os) auto

lemma set_spec_rest [simp]: "set (spec_rest b ord os) = insert ord (set os)"
  by (induction os) auto

lemma distinct_spec_rest [simp]:
  "distinct (map o_id (spec_rest b ord os)) \<longleftrightarrow> o_id ord \<notin> o_id ` set os \<and> distinct (map o_id os)"
  by (induction os) auto

lemma order_qty_spec_rest [simp]: "order_qty (spec_rest b ord os) = unat (o_quantity ord) + order_qty os"
  by (induction os) auto

lemma prio_sorted_spec_rest: "prio_sorted b os \<Longrightarrow> prio_sorted b (spec_rest b ord os)"
proof (induction os)
  case (Cons x xs)
  show ?case
  proof (cases "price_before b (o_price ord) (o_price x)")
    case True
    with Cons.prems show ?thesis
      by (auto dest: price_before_asym price_before_le_trans)
  qed (use Cons in auto)
qed simp

lemma spec_rest_back: "\<forall>x\<in>set os. \<not> price_before b (o_price ord) (o_price x) \<Longrightarrow> spec_rest b ord os = os @ [ord]"
  by (induction os) auto

section \<open>The operations keep the book well formed\<close>

lemma spec_wf_empty [simp]: "spec_wf spec_empty"
  by (simp add: spec_wf_def spec_empty_def spec_orders_def uncrossed_def)

text \<open>Prices behind an unacceptable front are unacceptable too.\<close>

lemma can_match_level_front:
  assumes "prio_sorted (\<not> buy) os" "os \<noteq> []" "\<not> can_match_level buy mkt lim (o_price (hd os))" "x \<in> set os"
  shows "\<not> can_match_level buy mkt lim (o_price x)"
  using assms by (cases os) (auto simp: can_match_level_def price_before_def split: if_splits)

lemma uncrossed_prices:
  "uncrossed s \<longleftrightarrow> (\<forall>p\<in>o_price ` set (s_bids s). \<forall>q\<in>o_price ` set (s_asks s). p < q)"
  by (simp add: uncrossed_def)

lemma spec_wf_opposite:
  "spec_wf s \<Longrightarrow> prio_sorted (side \<noteq> Buy) (spec_opposite side s) \<and>
     (\<forall>ord\<in>set (spec_opposite side s). o_quantity ord \<noteq> 0)"
  by (auto simp: spec_wf_def spec_opposite_def spec_orders_def)

lemma spec_wf_okey_subset:
  assumes "spec_wf s" "map okey (spec_opposite side s) = pre @ map okey os'"
    "\<forall>ord\<in>set os'. o_quantity ord \<noteq> 0"
  shows "spec_wf (spec_set_opposite side os' s)"
proof -
  have ids: "map o_id (spec_opposite side s) = map fst pre @ map o_id os'"
    using arg_cong [OF assms(2), of "map fst"] by (simp add: comp_def)
  have sub: "okey ` set os' \<subseteq> okey ` set (spec_opposite side s)"
    using arg_cong [OF assms(2), of set] by auto
  have "prio_sorted (side \<noteq> Buy) (spec_opposite side s)"
    using spec_wf_opposite [OF assms(1)] by simp
  then have srt: "prio_sorted (side \<noteq> Buy) os'"
    by (simp add: prio_sorted_okey assms(2) sorted_wrt_append)
  have sides: "o_side ` set os' \<subseteq> o_side ` set (spec_opposite side s)"
    using image_mono [OF image_mono [OF sub], of fst snd] by (simp add: image_image)
  have prices: "o_price ` set os' \<subseteq> o_price ` set (spec_opposite side s)"
    using image_mono [OF image_mono [OF sub], of snd snd] by (simp add: image_image)
  have idsub: "o_id ` set os' \<subseteq> o_id ` set (spec_opposite side s)"
    using image_mono [OF sub, of fst] by (simp add: image_image)
  have "distinct (map o_id os')"
    using arg_cong [OF ids, of distinct] assms(1)
    by (auto simp: spec_wf_def spec_orders_def spec_opposite_def split: if_splits)
  then have dis: "distinct (map o_id (spec_orders (spec_set_opposite side os' s)))"
    using assms(1) idsub
    by (cases "side = Buy") (auto simp: spec_wf_def spec_orders_def spec_set_opposite_def spec_opposite_def
        simp del: set_map, auto)
  have "uncrossed (spec_set_opposite side os' s)"
    using assms(1) prices by (auto simp: spec_wf_def uncrossed_prices spec_set_opposite_def spec_opposite_def
        split: if_splits)
  with dis show ?thesis
    using assms(1,3) srt sides unfolding spec_wf_def
    by (auto simp: spec_orders_def spec_set_opposite_def spec_opposite_def split: if_splits)
qed

lemma spec_take_wf:
  assumes "spec_wf s" "spec_take i side lim mkt q s = (ts, r, s')"
  shows "spec_wf s'"
proof -
  obtain os' where m: "spec_match (can_match_level (side = Buy) mkt lim) i q (spec_opposite side s) = (ts, r, os')"
    and s': "s' = spec_set_opposite side os' s"
    using assms(2) by (auto simp: spec_take_def split: prod.splits)
  obtain pre where "map okey (spec_opposite side s) = pre @ map okey os'"
    using spec_match_suffix [OF m] .
  then show ?thesis
    unfolding s' using assms(1) spec_match_positive [OF m] spec_wf_opposite [OF assms(1)]
    by (blast intro: spec_wf_okey_subset)
qed

lemma spec_take_rest:
  assumes "spec_wf s" "spec_take i side lim mkt q s = (ts, r, s')" "r \<noteq> 0" "x \<in> set (spec_opposite side s')"
  shows "\<not> can_match_level (side = Buy) mkt lim (o_price x)"
proof -
  obtain os' where m: "spec_match (can_match_level (side = Buy) mkt lim) i q (spec_opposite side s) = (ts, r, os')"
    and s': "s' = spec_set_opposite side os' s"
    using assms(2) by (auto simp: spec_take_def split: prod.splits)
  have x: "x \<in> set os'"
    using assms(4) by (auto simp: s' spec_set_opposite_def spec_opposite_def split: if_splits)
  have "prio_sorted (side \<noteq> Buy) os'"
    using spec_match_sorted [OF m] spec_wf_opposite [OF assms(1)] by simp
  then show ?thesis
    using spec_match_stops [OF m] assms(3) x can_match_level_front [of "side = Buy" os' mkt lim x]
    by (cases os') auto
qed

lemma spec_add_resting_wf:
  assumes "spec_wf s" "o_id ord \<notin> o_id ` set (spec_orders s)" "o_quantity ord \<noteq> 0"
    "\<And>x. x \<in> set (spec_opposite (o_side ord) s) \<Longrightarrow>
        \<not> can_match_level (o_side ord = Buy) False (o_price ord) (o_price x)"
  shows "spec_wf (spec_add_resting ord s)"
  using assms prio_sorted_spec_rest [of True "s_bids s" ord] prio_sorted_spec_rest [of False "s_asks s" ord]
  unfolding spec_wf_def uncrossed_def
  by (auto simp: spec_add_resting_def spec_opposite_def spec_orders_def can_match_level_def
      not_le distinct_append)


lemma spec_take_okeys:
  assumes "spec_take i side lim mkt q s = (ts, r, s')"
  shows "okey ` set (spec_orders s') \<subseteq> okey ` set (spec_orders s)"
proof -
  obtain os' where m: "spec_match (can_match_level (side = Buy) mkt lim) i q (spec_opposite side s) = (ts, r, os')"
    and s': "s' = spec_set_opposite side os' s"
    using assms by (auto simp: spec_take_def split: prod.splits)
  obtain pre where "map okey (spec_opposite side s) = pre @ map okey os'"
    using spec_match_suffix [OF m] .
  then have "okey ` set os' \<subseteq> okey ` set (spec_opposite side s)"
    by (metis Un_upper2 list.set_map set_append)
  then show ?thesis
    by (auto simp: s' spec_orders_def spec_set_opposite_def spec_opposite_def split: if_splits)
qed

lemma spec_take_ids:
  "spec_take i side lim mkt q s = (ts, r, s') \<Longrightarrow> o_id ` set (spec_orders s') \<subseteq> o_id ` set (spec_orders s)"
  using image_mono [OF spec_take_okeys, of i side lim mkt q s ts r s' fst] by (simp add: image_image)

lemma spec_add_limit_wf:
  assumes "spec_wf s"
  shows "spec_wf (fst (spec_add_limit i side price q tif s))"
proof -
  obtain ts r s' where t: "spec_take i side price False q s = (ts, r, s')"
    by (cases "spec_take i side price False q s")
  have wf: "spec_wf s'"
    by (rule spec_take_wf [OF assms t])
  have "spec_wf (spec_add_resting \<lparr>o_id = i, o_side = side, o_price = price, o_quantity = r\<rparr> s')"
    if "r \<noteq> 0" "\<not> spec_contains i s"
  proof (rule spec_add_resting_wf [OF wf])
    show "o_id \<lparr>o_id = i, o_side = side, o_price = price, o_quantity = r\<rparr> \<notin> o_id ` set (spec_orders s')"
      using that(2) spec_take_ids [OF t] by (auto simp: spec_contains_def)
  qed (use that spec_take_rest [OF assms t] in auto)
  then show ?thesis
    using assms wf t by (auto simp: spec_add_limit_def)
qed

lemma spec_add_market_wf:
  assumes "spec_wf s"
  shows "spec_wf (fst (spec_add_market i side q s))"
  using assms spec_take_wf [OF assms] by (auto simp: spec_add_market_def split: prod.splits)

lemma distinct_map_filter: "distinct (map f xs) \<Longrightarrow> distinct (map f (filter P xs))"
  by (induction xs) auto

lemma spec_remove_wf: "spec_wf s \<Longrightarrow> spec_wf (spec_remove i s)"
  by (auto simp: spec_wf_def spec_remove_def spec_orders_def uncrossed_def prio_sorted_def
      intro: sorted_wrt_filter distinct_map_filter)

lemma map_okey_set_qty [simp]: "map okey (set_qty i q os) = map okey os"
  by (simp add: set_qty_def)

lemma map_o_id_set_qty [simp]: "map o_id (set_qty i q os) = map o_id os"
  by (simp add: set_qty_def)

lemma prio_sorted_set_qty [simp]: "prio_sorted b (set_qty i q os) = prio_sorted b os"
  by (simp add: prio_sorted_okey)

lemma spec_orders_set_qty: "spec_orders (spec_set_qty i q s) = set_qty i q (spec_orders s)"
  by (simp add: spec_orders_def spec_set_qty_def set_qty_def)

lemma prices_set_qty [simp]: "o_price ` set (set_qty i q os) = o_price ` set os"
  by (induction os) (auto simp: set_qty_def)

lemma set_qty_elem:
  "y \<in> set (set_qty i q os) \<Longrightarrow> \<exists>x\<in>set os. okey x = okey y \<and> (o_quantity y = q \<or> o_quantity y = o_quantity x)"
  by (fastforce simp: set_qty_def okey_def split: if_splits)

lemma spec_set_qty_wf:
  assumes "spec_wf s" "q \<noteq> 0"
  shows "spec_wf (spec_set_qty i q s)"
proof -
  have "distinct (map o_id (spec_orders (spec_set_qty i q s)))"
    using assms(1) by (simp add: spec_orders_set_qty spec_wf_def)
  moreover have "uncrossed (spec_set_qty i q s)"
    using assms(1) by (simp add: spec_wf_def uncrossed_prices spec_set_qty_def)
  ultimately show ?thesis
    using assms unfolding spec_wf_def
    by (auto simp: spec_orders_def spec_set_qty_def okey_eq_iff dest!: set_qty_elem)
qed

lemma spec_cancel_wf: "spec_wf s \<Longrightarrow> spec_wf (fst (spec_cancel i s))"
  by (simp add: spec_cancel_def spec_remove_wf)

lemma spec_modify_wf: "spec_wf s \<Longrightarrow> spec_wf (fst (spec_modify i p q s))"
  by (auto simp: spec_modify_def spec_remove_wf spec_set_qty_wf spec_add_limit_wf split: option.splits)

lemma spec_match_append:
  "spec_match acc taker q (xs @ ys) =
     (let (ts, r, xs') = spec_match acc taker q xs
      in if xs' = [] then (let (us, s, ys') = spec_match acc taker r ys in (ts @ us, s, ys'))
         else (ts, r, xs' @ ys))"
  by (induction xs arbitrary: q) (auto simp: Let_def split: prod.splits)

lemma spec_match_level:
  "\<forall>ord\<in>set xs. acc (o_price ord) \<Longrightarrow> spec_match acc taker q xs = spec_match (\<lambda>_. True) taker q xs"
  by (induction xs arbitrary: q) auto

lemma spec_match_ids:
  "spec_match acc taker q os = (ts, r, os') \<Longrightarrow> o_id ` set os' \<subseteq> o_id ` set os"
  by (induction rule: spec_match_induct) auto

lemma spec_rest_split:
  "\<forall>x\<in>set xs. \<not> price_before b (o_price ord) (o_price x) \<Longrightarrow>
     spec_rest b ord (xs @ ys) = xs @ spec_rest b ord ys"
  by (induction xs) auto

lemma spec_rest_front:
  "\<forall>x\<in>set xs. price_before b (o_price ord) (o_price x) \<Longrightarrow> spec_rest b ord xs = ord # xs"
  by (cases xs) auto

lemma spec_wf_distinct: "spec_wf s \<Longrightarrow> distinct (map o_id (spec_orders s))"
  by (simp add: spec_wf_def)

lemma filter_other_id: "i \<notin> o_id ` set os \<Longrightarrow> filter (\<lambda>x. o_id x \<noteq> i) os = os"
  by (induction os) auto

lemma set_qty_other_id: "i \<notin> o_id ` set os \<Longrightarrow> set_qty i q os = os"
  by (induction os) (auto simp: set_qty_def)

lemma spec_remove_orders: "spec_orders (spec_remove i s) = filter (\<lambda>x. o_id x \<noteq> i) (spec_orders s)"
  by (simp add: spec_orders_def spec_remove_def)

lemma spec_contains_find: "spec_contains i s \<longleftrightarrow> spec_find i s \<noteq> None"
  by (auto simp: spec_contains_def spec_find_def find_None_iff)

section \<open>Sizes\<close>

lemma spec_take_length:
  assumes "spec_take i side lim mkt q b = (ts, r, b')"
  shows "length (spec_orders b') \<le> length (spec_orders b)"
proof -
  obtain os' where m: "spec_match (can_match_level (side = Buy) mkt lim) i q (spec_opposite side b) = (ts, r, os')"
    and b': "b' = spec_set_opposite side os' b"
    using assms by (auto simp: spec_take_def split: prod.splits)
  show ?thesis
    using spec_match_length [OF m] by (simp add: b' spec_orders_def spec_set_opposite_def spec_opposite_def split: if_splits)
qed

lemma length_spec_rest [simp]: "length (spec_rest b ord os) = Suc (length os)"
  by (induction os) auto

lemma spec_add_limit_length:
  "length (spec_orders (fst (spec_add_limit i side p q tif b))) \<le> Suc (length (spec_orders b))"
proof -
  obtain ts r b' where t: "spec_take i side p False q b = (ts, r, b')"
    by (cases "spec_take i side p False q b")
  have "length (spec_orders (spec_add_resting ord b')) = Suc (length (spec_orders b'))" for ord
    by (simp add: spec_orders_def spec_add_resting_def)
  then show ?thesis using spec_take_length [OF t] by (simp add: spec_add_limit_def t)
qed

lemma spec_add_market_length: "length (spec_orders (fst (spec_add_market i side q b))) \<le> length (spec_orders b)"
proof -
  obtain ts r b' where t: "spec_take i side (Ticks 0) True q b = (ts, r, b')"
    by (cases "spec_take i side (Ticks 0) True q b")
  then show ?thesis using spec_take_length [OF t] by (simp add: spec_add_market_def t)
qed

lemma spec_remove_length: "length (spec_orders (spec_remove i b)) \<le> length (spec_orders b)"
  by (simp add: spec_remove_orders)

lemma length_set_qty [simp]: "length (set_qty i q os) = length os"
  by (simp add: set_qty_def)

lemma spec_modify_length: "length (spec_orders (fst (spec_modify i p q b))) \<le> Suc (length (spec_orders b))"
proof (cases "spec_find i b")
  case (Some ord)
  have "length (spec_orders (fst (spec_add_limit i (o_side ord) p q GTC (spec_remove i b)))) \<le> Suc (length (spec_orders b))"
    using spec_add_limit_length [of i "o_side ord" p q GTC "spec_remove i b"] spec_remove_length [of i b] by linarith
  then show ?thesis
    using Some spec_remove_length [of i b] by (simp add: spec_modify_def spec_orders_set_qty)
qed (simp add: spec_modify_def)

lemma spec_rest_position:
  assumes "prio_sorted b os"
  shows "\<exists>xs ys. os = xs @ ys \<and> spec_rest b ord os = xs @ ord # ys \<and>
    (\<forall>x\<in>set xs. \<not> price_before b (o_price ord) (o_price x)) \<and> (\<forall>y\<in>set ys. price_before b (o_price ord) (o_price y))"
  using assms
proof (induction os)
  case (Cons x os)
  show ?case
  proof (cases "price_before b (o_price ord) (o_price x)")
    case True
    then have "\<forall>y\<in>set (x # os). price_before b (o_price ord) (o_price y)"
      using Cons.prems by (auto intro: price_before_le_trans)
    with True show ?thesis by (intro exI [of _ "[]"] exI [of _ "x # os"]) simp
  next
    case False
    obtain xs ys where "os = xs @ ys" "spec_rest b ord os = xs @ ord # ys"
        "\<forall>x\<in>set xs. \<not> price_before b (o_price ord) (o_price x)" "\<forall>y\<in>set ys. price_before b (o_price ord) (o_price y)"
      using Cons.IH Cons.prems by auto
    with False show ?thesis by (intro exI [of _ "x # xs"] exI [of _ ys]) simp
  qed
qed simp

end
