(* ===== verification/Book_Matching.thy ===== *)
theory Book_Matching
  imports Book_Spec
begin

text \<open>
  The parts of \<^verbatim>\<open>OrderBook\<close> that every storage back end shares: the argument and result structs
  of \<^verbatim>\<open>include/qsl/engine/order_book.hpp\<close> and the static helpers of
  \<^verbatim>\<open>src/engine/order_book.cpp\<close>. A reference member (\<^verbatim>\<open>Quantity &quantity\<close>,
  \<^verbatim>\<open>std::vector<Trade> &trades\<close>) is a field of the context, which the functions return updated.
\<close>

datatype Storage = Baseline | Pooled | IntrusivePooled | Contiguous

record MatchContext =
  mc_taker_id :: OrderId
  mc_taker_is_buy :: bool
  mc_limit :: Price
  mc_is_market :: bool
  mc_quantity :: Quantity
  mc_trades :: "Trade list"

record MatchQuery =
  mq_taker_is_buy :: bool
  mq_limit :: Price
  mq_is_market :: bool
  mq_quantity :: Quantity

record MatchResult =
  mr_trades :: "Trade list"
  mr_remainder :: Quantity
  mr_accepted :: bool

record LimitInput =
  li_id :: OrderId
  li_side :: Side
  li_price :: Price
  li_quantity :: Quantity
  li_tif :: TimeInForce

text \<open>
  \<^verbatim>\<open>match_incoming\<close> is a template over the store's lookup and matching closures; the store is
  the state \<open>'s\<close> they read and update.
\<close>

definition match_incoming ::
  "OrderId \<Rightarrow> Side \<Rightarrow> Price \<Rightarrow> bool \<Rightarrow> Quantity \<Rightarrow> ('s \<Rightarrow> bool) \<Rightarrow>
   (Side \<Rightarrow> MatchContext \<Rightarrow> 's \<Rightarrow> 's \<times> MatchContext) \<Rightarrow> 's \<Rightarrow> 's \<times> MatchResult" where
  "match_incoming i side limit is_market quantity contains_fn match_fn s =
     (if contains_fn s
      then (s, \<lparr>mr_trades = [], mr_remainder = quantity, mr_accepted = False\<rparr>)
      else
        let ctx = \<lparr>mc_taker_id = i, mc_taker_is_buy = (side = Buy), mc_limit = limit,
                   mc_is_market = is_market, mc_quantity = quantity, mc_trades = []\<rparr>;
            (s', ctx') = match_fn side ctx s
        in (s', \<lparr>mr_trades = mc_trades ctx', mr_remainder = mc_quantity ctx', mr_accepted = True\<rparr>))"

text \<open>Returns the updated context, the maker's updated quantity and whether it reached zero.\<close>

definition fill_maker ::
  "MatchContext \<Rightarrow> OrderId \<Rightarrow> Quantity \<Rightarrow> Price \<Rightarrow> MatchContext \<times> Quantity \<times> bool" where
  "fill_maker ctx maker_id maker_quantity level_price =
     (let traded = min (mc_quantity ctx) maker_quantity;
          maker_quantity' = maker_quantity - traded
      in (ctx\<lparr>mc_trades := mc_trades ctx @
                 [\<lparr>t_taker_id = mc_taker_id ctx, t_maker_id = maker_id, t_price = level_price,
                   t_quantity = traded\<rparr>],
              mc_quantity := mc_quantity ctx - traded\<rparr>,
          maker_quantity', maker_quantity' = 0))"

definition should_rest_limit :: "MatchResult \<Rightarrow> TimeInForce \<Rightarrow> bool" where
  "should_rest_limit result tif =
     (if \<not> mr_accepted result then False
      else if mr_remainder result = 0 then False
      else tif = GTC)"

section \<open>Facts\<close>

text \<open>The crossing test a context stands for.\<close>

definition mc_accepts :: "MatchContext \<Rightarrow> Price \<Rightarrow> bool" where
  "mc_accepts ctx = can_match_level (mc_taker_is_buy ctx) (mc_is_market ctx) (mc_limit ctx)"

text \<open>A context after some trades and with some quantity left.\<close>

definition mc_after :: "MatchContext \<Rightarrow> Trade list \<Rightarrow> Quantity \<Rightarrow> MatchContext" where
  "mc_after ctx ts q = ctx\<lparr>mc_trades := mc_trades ctx @ ts, mc_quantity := q\<rparr>"

lemma mc_after_sel [simp]:
  "mc_taker_id (mc_after ctx ts q) = mc_taker_id ctx"
  "mc_taker_is_buy (mc_after ctx ts q) = mc_taker_is_buy ctx"
  "mc_limit (mc_after ctx ts q) = mc_limit ctx"
  "mc_is_market (mc_after ctx ts q) = mc_is_market ctx"
  "mc_quantity (mc_after ctx ts q) = q"
  "mc_trades (mc_after ctx ts q) = mc_trades ctx @ ts"
  "mc_accepts (mc_after ctx ts q) = mc_accepts ctx"
  by (simp_all add: mc_after_def mc_accepts_def)

lemma mc_after_after [simp]: "mc_after (mc_after ctx ts q) us r = mc_after ctx (ts @ us) r"
  by (simp add: mc_after_def)

lemma mc_after_none [simp]: "mc_after ctx [] (mc_quantity ctx) = ctx"
  by (simp add: mc_after_def)

text \<open>One fill either exhausts the maker or exhausts the taker.\<close>

lemma fill_maker_whole:
  assumes "o_quantity m \<le> mc_quantity ctx"
  shows "fill_maker ctx (o_id m) (o_quantity m) (o_price m) =
    (mc_after ctx [fill_trade (mc_taker_id ctx) m (o_quantity m)] (mc_quantity ctx - o_quantity m), 0, True)"
  using assms by (simp add: fill_maker_def mc_after_def fill_trade_def min_def Let_def)

lemma fill_maker_part:
  assumes "mc_quantity ctx < o_quantity m"
  shows "fill_maker ctx (o_id m) (o_quantity m) (o_price m) =
    (mc_after ctx [fill_trade (mc_taker_id ctx) m (mc_quantity ctx)] 0, o_quantity m - mc_quantity ctx, False)"
  using assms by (auto simp: fill_maker_def mc_after_def fill_trade_def min_def Let_def word_sub_zero_iff)

end
