(* ===== verification/Std_Map.thy ===== *)
theory Std_Map
  imports Main
begin

text \<open>
  \<^verbatim>\<open>std::map\<close> with a comparator, as the list of its entries in key order. Iterators are keys;
  \<open>map_of\<close> is \<^verbatim>\<open>find\<close>; the head of the list is \<^verbatim>\<open>begin()\<close>. A mutation through an iterator or a
  reference is \<open>std_map_set\<close>.
\<close>

fun std_map_try_emplace :: "('k \<Rightarrow> 'k \<Rightarrow> bool) \<Rightarrow> 'k \<Rightarrow> 'v \<Rightarrow> ('k \<times> 'v) list \<Rightarrow> ('k \<times> 'v) list" where
  "std_map_try_emplace before k v [] = [(k, v)]"
| "std_map_try_emplace before k v ((k', v') # m) =
     (if before k k' then (k, v) # (k', v') # m
      else if before k' k then (k', v') # std_map_try_emplace before k v m
      else (k', v') # m)"

definition std_map_set :: "'k \<Rightarrow> 'v \<Rightarrow> ('k \<times> 'v) list \<Rightarrow> ('k \<times> 'v) list" where
  "std_map_set k v m = map (\<lambda>(k', v'). if k' = k then (k', v) else (k', v')) m"

definition std_map_erase :: "'k \<Rightarrow> ('k \<times> 'v) list \<Rightarrow> ('k \<times> 'v) list" where
  "std_map_erase k m = filter (\<lambda>(k', v'). k' \<noteq> k) m"

text \<open>The representation invariant: keys strictly increasing in the comparator.\<close>

definition std_map_sorted :: "('k \<Rightarrow> 'k \<Rightarrow> bool) \<Rightarrow> ('k \<times> 'v) list \<Rightarrow> bool" where
  "std_map_sorted before m = sorted_wrt before (map fst m)"

lemma std_map_sorted_simps [simp]:
  "std_map_sorted before []"
  "std_map_sorted before ((k, v) # m) \<longleftrightarrow> (\<forall>x\<in>set m. before k (fst x)) \<and> std_map_sorted before m"
  by (simp_all add: std_map_sorted_def)

lemma std_map_set_simps [simp]:
  "std_map_set k v [] = []"
  "std_map_set k v ((k', v') # m) = (k', if k' = k then v else v') # std_map_set k v m"
  by (simp_all add: std_map_set_def)

lemma std_map_erase_simps [simp]:
  "std_map_erase k [] = []"
  "std_map_erase k ((k', v') # m) = (if k' = k then std_map_erase k m else (k', v') # std_map_erase k m)"
  by (simp_all add: std_map_erase_def)

lemma fst_std_map_set [simp]: "map fst (std_map_set k v m) = map fst m"
  by (induction m) auto

lemma std_map_sorted_set [simp]: "std_map_sorted before (std_map_set k v m) = std_map_sorted before m"
  by (simp add: std_map_sorted_def)

lemma std_map_sorted_erase: "std_map_sorted before m \<Longrightarrow> std_map_sorted before (std_map_erase k m)"
  by (simp add: std_map_sorted_def std_map_erase_def sorted_wrt_map sorted_wrt_filter)

lemma std_map_set_absent: "k \<notin> fst ` set m \<Longrightarrow> std_map_set k v m = m"
  by (induction m) auto

lemma std_map_set_append [simp]: "std_map_set k v (xs @ ys) = std_map_set k v xs @ std_map_set k v ys"
  by (simp add: std_map_set_def)

lemma std_map_erase_append [simp]: "std_map_erase k (xs @ ys) = std_map_erase k xs @ std_map_erase k ys"
  by (simp add: std_map_erase_def)

lemma std_map_erase_absent: "k \<notin> fst ` set m \<Longrightarrow> std_map_erase k m = m"
  by (induction m) auto

lemma map_of_std_map_set:
  "map_of (std_map_set k v m) x = (if x = k \<and> k \<in> fst ` set m then Some v else map_of m x)"
  by (induction m) (force split: if_splits)+

lemma mem_std_map_set: "x \<in> set (std_map_set k v m) \<Longrightarrow> x = (k, v) \<or> x \<in> set m"
  by (induction m) (auto split: if_splits)

lemma set_std_map_try_emplace:
  "set (std_map_try_emplace before k v m) \<subseteq> insert (k, v) (set m)"
  by (induction m) (auto split: if_splits)

text \<open>
  The contract of a comparator (a strict total order) and what the container promises under
  it. The two sides of the book are its instances.
\<close>

locale std_map_order =
  fixes before :: "'k \<Rightarrow> 'k \<Rightarrow> bool"
  assumes irrefl: "\<not> before k k"
    and trans: "before i j \<Longrightarrow> before j k \<Longrightarrow> before i k"
    and total: "i \<noteq> j \<Longrightarrow> before i j \<or> before j i"
begin

lemma asym: "before i j \<Longrightarrow> \<not> before j i"
  using irrefl trans by blast

lemma sorted_distinct: "std_map_sorted before m \<Longrightarrow> distinct (map fst m)"
proof (induction m)
  case (Cons x m)
  then show ?case using irrefl by (cases x) force
qed simp

lemma set_try_emplace:
  "fst ` set (std_map_try_emplace before k v m) = insert k (fst ` set m)"
proof (induction m)
  case (Cons x m)
  then show ?case using total [of k "fst x"] by (cases x) auto
qed simp

lemma sorted_try_emplace:
  "std_map_sorted before m \<Longrightarrow> std_map_sorted before (std_map_try_emplace before k v m)"
proof (induction m)
  case (Cons x m)
  obtain k' v' where x: "x = (k', v')" by (cases x)
  have lt: "\<forall>y\<in>set m. before k' (fst y)" and srt: "std_map_sorted before m"
    using Cons.prems by (simp_all add: x)
  consider "before k k'" | "\<not> before k k'" "before k' k" | "\<not> before k k'" "\<not> before k' k"
    by blast
  then show ?case
  proof cases
    case 1
    then have "\<forall>y\<in>set m. before k (fst y)"
      using lt trans by blast
    with 1 lt srt show ?thesis by (simp add: x)
  next
    case 2
    have "\<forall>y\<in>fst ` set (std_map_try_emplace before k v m). before k' y"
      unfolding set_try_emplace using 2 lt by simp
    with 2 Cons.IH [OF srt] show ?thesis by (simp add: x)
  next
    case 3
    with lt srt show ?thesis by (simp add: x)
  qed
qed simp

lemma sorted_head_none:
  assumes "std_map_sorted before ((k', v') # m)" "before k k' \<or> k = k'"
  shows "map_of m k = None"
proof (rule ccontr)
  assume "map_of m k \<noteq> None"
  then have "k \<in> fst ` set m" by (simp add: map_of_eq_None_iff)
  then have "before k' k" using assms(1) by auto
  then show False using assms(2) irrefl trans by blast
qed

lemma find_try_emplace:
  assumes "std_map_sorted before m"
  shows "map_of (std_map_try_emplace before k v m) =
    (case map_of m k of None \<Rightarrow> (map_of m)(k \<mapsto> v) | Some _ \<Rightarrow> map_of m)"
  using assms
proof (induction m)
  case (Cons x m)
  obtain k' v' where x: "x = (k', v')" by (cases x)
  consider "before k k'" "k \<noteq> k'" | "before k' k" "k \<noteq> k'" "\<not> before k k'" | "k = k'"
    using total [of k k'] irrefl asym by blast
  then show ?case
  proof cases
    case 1
    then have "map_of m k = None"
      using sorted_head_none [of k' v' m k] Cons.prems by (simp add: x)
    with 1 show ?thesis by (simp add: x)
  next
    case 2
    with Cons show ?thesis by (auto simp: x fun_eq_iff split: option.splits)
  qed (simp add: x irrefl)
qed simp

lemma find_erase: "std_map_sorted before m \<Longrightarrow> map_of (std_map_erase k m) = (map_of m)(k := None)"
  by (rule ext) (induction m, auto)

lemma try_emplace_present:
  "std_map_sorted before m \<Longrightarrow> map_of m k = Some v' \<Longrightarrow> std_map_try_emplace before k v m = m"
proof (induction m)
  case (Cons x m)
  obtain k' w where x: "x = (k', w)" by (cases x)
  show ?case
  proof (cases "k = k'")
    case False
    with Cons.prems have *: "map_of m k = Some v'" by (auto simp: x)
    then have "before k' k" using Cons.prems map_of_SomeD [OF *] by (auto simp: x)
    with * Cons asym [of k' k] show ?thesis by (simp add: x)
  qed (simp add: x irrefl)
qed simp

text \<open>A map is determined by what its lookups return.\<close>

lemma sorted_ext:
  assumes "std_map_sorted before m" "std_map_sorted before m'" "map_of m = map_of m'"
  shows "m = m'"
  using assms
proof (induction m arbitrary: m')
  case Nil
  then show ?case by (cases m') (auto simp: fun_eq_iff split: if_splits)
next
  case (Cons x m)
  obtain k v where x: "x = (k, v)" by (cases x)
  have "m' \<noteq> []" using Cons.prems(3) by (auto simp: x fun_eq_iff split: if_splits)
  then obtain k' v' n where m': "m' = (k', v') # n" by (cases m') auto
  have k: "k' = k"
  proof (rule ccontr)
    assume ne: "k' \<noteq> k"
    have "map_of m k' \<noteq> None" "map_of n k \<noteq> None"
      using fun_cong [OF Cons.prems(3), of k'] fun_cong [OF Cons.prems(3) [symmetric], of k] ne by (simp_all add: x m')
    then have "before k k'" "before k' k" using Cons.prems(1,2) by (auto simp: x m' dest!: map_of_SomeD)
    then show False using asym by blast
  qed
  have "map_of m = map_of n"
  proof
    fix i
    show "map_of m i = map_of n i"
    proof (cases "i = k")
      case True
      then show ?thesis using sorted_head_none [of k v m k] sorted_head_none [of k v' n k] Cons.prems(1,2) by (simp add: x m' k)
    next
      case False
      then show ?thesis using fun_cong [OF Cons.prems(3), of i] by (simp add: x m' k)
    qed
  qed
  then show ?case
    using Cons.IH [of n] Cons.prems(1,2) fun_cong [OF Cons.prems(3), of k] by (simp add: x m' k)
qed

end

end
