(* ===== verification/Baseline_Book.thy ===== *)
theory Baseline_Book
  imports Book_Matching Std_Map
begin

text \<open>
  The default storage of \<^verbatim>\<open>OrderBook\<close> (modes \<open>Baseline\<close> and \<open>Pooled\<close>, which differ only in where
  their nodes are allocated): two ordered maps from price to a FIFO list of orders and an
  index from order id to a locator.

  A locator's \<^verbatim>\<open>Level::iterator\<close> names one list node. Ids of resting orders never change and the
  invariant below shows that no id rests twice, so the iterator is modelled by the id of the
  order it points to; \<^verbatim>\<open>level.erase(it)\<close> removes the order with that id. Reading \<^verbatim>\<open>front()\<close> of an
  empty list or dereferencing \<^verbatim>\<open>end()\<close> has no defined result; the functions leave the state
  unchanged there, and \<open>bl_locate\<close> shows that the code never gets there.
\<close>

section \<open>State\<close>

type_synonym Level = "Order list"
type_synonym LevelMap = "(Price \<times> Level) list"

record Locator =
  loc_side :: Side
  loc_price :: Price
  loc_it :: OrderId

type_synonym Index = "OrderId \<rightharpoonup> Locator"

record BaselineBook =
  bids :: LevelMap
  asks :: LevelMap
  index :: Index

definition bl_empty :: BaselineBook where
  "bl_empty = \<lparr>bids = [], asks = [], index = Map.empty\<rparr>"

section \<open>Matching\<close>

definition fill_front_order :: "Level \<Rightarrow> Price \<Rightarrow> Index \<Rightarrow> MatchContext \<Rightarrow> Level \<times> Index \<times> MatchContext" where
  "fill_front_order level level_price idx ctx =
     (case level of
        [] \<Rightarrow> (level, idx, ctx)
      | maker # others \<Rightarrow>
          let (ctx', q', filled) = fill_maker ctx (o_id maker) (o_quantity maker) level_price
          in if filled then (others, idx(o_id maker := None), ctx')
             else (maker\<lparr>o_quantity := q'\<rparr> # others, idx, ctx'))"

lemma fill_front_order_progress:
  assumes "0 < mc_quantity ctx" "level \<noteq> []" "fill_front_order level p idx ctx = (level', idx', ctx')"
  shows "length level' + unat (mc_quantity ctx') < length level + unat (mc_quantity ctx)"
    and "level' \<noteq> [] \<Longrightarrow> length level' = length level \<Longrightarrow> mc_quantity ctx' = 0"
  using assms
  by (auto simp: fill_front_order_def fill_maker_def Let_def min_def unat_sub word_le_nat_alt
      word_less_nat_alt word_sub_zero_iff split: list.splits if_splits)

function fill_level :: "Level \<Rightarrow> Price \<Rightarrow> Index \<Rightarrow> MatchContext \<Rightarrow> Level \<times> Index \<times> MatchContext" where
  "fill_level level level_price idx ctx =
     (if mc_quantity ctx > 0 \<and> level \<noteq> [] then
        let (level', idx', ctx') = fill_front_order level level_price idx ctx
        in fill_level level' level_price idx' ctx'
      else (level, idx, ctx))"
  by pat_completeness auto
termination
  by (relation "measure (\<lambda>(level, _, _, ctx). length level + unat (mc_quantity ctx))")
    (auto dest: fill_front_order_progress(1) [OF _ _ sym])

declare fill_level.simps [simp del]

lemma fill_level_exit:
  "fill_level level p idx ctx = (level', idx', ctx') \<Longrightarrow> level' = [] \<or> mc_quantity ctx' = 0"
proof (induction level p idx ctx rule: fill_level.induct)
  case (1 level p idx ctx)
  then show ?case
    by (cases "mc_quantity ctx > 0 \<and> level \<noteq> []")
      (auto simp: fill_level.simps [of level p idx ctx] word_neq_0_conv split: prod.splits)
qed

text \<open>
  \<^verbatim>\<open>match_ordered_levels\<close> instantiated with the baseline's closures. The iterator is always
  \<^verbatim>\<open>begin()\<close>, so the level it denotes is the head of the list.
\<close>

definition erase_begin_if_empty :: "LevelMap \<Rightarrow> LevelMap" where
  "erase_begin_if_empty levels =
     (case levels of (p, []) # others \<Rightarrow> others | _ \<Rightarrow> levels)"

function match_ordered_levels :: "LevelMap \<Rightarrow> Index \<Rightarrow> MatchContext \<Rightarrow> LevelMap \<times> Index \<times> MatchContext" where
  "match_ordered_levels [] idx ctx = ([], idx, ctx)"
| "match_ordered_levels ((level_price, level) # others) idx ctx =
     (if mc_quantity ctx > 0 then
        if \<not> can_match_level (mc_taker_is_buy ctx) (mc_is_market ctx) (mc_limit ctx) level_price
        then ((level_price, level) # others, idx, ctx)
        else
          let (level', idx', ctx') = fill_level level level_price idx ctx
          in match_ordered_levels (erase_begin_if_empty ((level_price, level') # others)) idx' ctx'
      else ((level_price, level) # others, idx, ctx))"
  by pat_completeness auto
termination
  by (relation "measures [\<lambda>(levels, _, _). length levels, \<lambda>(_, _, ctx). unat (mc_quantity ctx)]")
    (auto simp: erase_begin_if_empty_def word_zero_less_unat split: list.splits
      dest!: fill_level_exit [OF sym])

definition match_against :: "LevelMap \<Rightarrow> Index \<Rightarrow> MatchContext \<Rightarrow> LevelMap \<times> Index \<times> MatchContext" where
  "match_against opposite idx ctx = match_ordered_levels opposite idx ctx"

definition match_baseline :: "Side \<Rightarrow> MatchContext \<Rightarrow> BaselineBook \<Rightarrow> BaselineBook \<times> MatchContext" where
  "match_baseline side ctx b =
     (if side = Buy then
        let (levels, idx, ctx') = match_against (asks b) (index b) ctx
        in (b\<lparr>asks := levels, index := idx\<rparr>, ctx')
      else
        let (levels, idx, ctx') = match_against (bids b) (index b) ctx
        in (b\<lparr>bids := levels, index := idx\<rparr>, ctx'))"

text \<open>The read-only twin of matching that counts fills.\<close>

fun count_level_matches :: "Level \<Rightarrow> Quantity \<Rightarrow> nat \<times> Quantity" where
  "count_level_matches [] q = (0, q)"
| "count_level_matches (maker # level) q =
     (if q > 0 then
        let traded = min q (o_quantity maker);
            (n, q') = count_level_matches level (q - traded)
        in (n + 1, q')
      else (0, q))"

fun count_matches :: "LevelMap \<Rightarrow> MatchQuery \<Rightarrow> nat" where
  "count_matches [] query = 0"
| "count_matches ((level_price, level) # others) query =
     (if mq_quantity query > 0 then
        if \<not> can_match_level (mq_taker_is_buy query) (mq_is_market query) (mq_limit query) level_price
        then 0
        else let (n, q') = count_level_matches level (mq_quantity query)
             in n + count_matches others (query\<lparr>mq_quantity := q'\<rparr>)
      else 0)"

section \<open>Resting\<close>

text \<open>\<^verbatim>\<open>level_for\<close> inserts an empty level if the price has none and returns a reference to it.\<close>

definition level_for :: "Side \<Rightarrow> Price \<Rightarrow> BaselineBook \<Rightarrow> BaselineBook" where
  "level_for side price b =
     (if side = Buy then b\<lparr>bids := std_map_try_emplace (price_before True) price [] (bids b)\<rparr>
      else b\<lparr>asks := std_map_try_emplace (price_before False) price [] (asks b)\<rparr>)"

definition push_back :: "Price \<Rightarrow> Order \<Rightarrow> LevelMap \<Rightarrow> LevelMap" where
  "push_back price ord levels = std_map_set price (the (map_of levels price) @ [ord]) levels"

definition bl_rest :: "OrderId \<Rightarrow> Side \<Rightarrow> Price \<Rightarrow> Quantity \<Rightarrow> BaselineBook \<Rightarrow> BaselineBook" where
  "bl_rest i side price quantity b =
     (let b' = level_for side price b;
          ord = \<lparr>o_id = i, o_side = side, o_price = price, o_quantity = quantity\<rparr>;
          loc = \<lparr>loc_side = side, loc_price = price, loc_it = i\<rparr>
      in (if side = Buy then b'\<lparr>bids := push_back price ord (bids b'), index := (index b')(i \<mapsto> loc)\<rparr>
          else b'\<lparr>asks := push_back price ord (asks b'), index := (index b')(i \<mapsto> loc)\<rparr>))"

section \<open>Public operations\<close>

definition bl_contains :: "OrderId \<Rightarrow> BaselineBook \<Rightarrow> bool" where
  "bl_contains i b \<longleftrightarrow> index b i \<noteq> None"

definition bl_add_limit :: "OrderId \<Rightarrow> Side \<Rightarrow> Price \<Rightarrow> Quantity \<Rightarrow> TimeInForce \<Rightarrow> BaselineBook
    \<Rightarrow> BaselineBook \<times> Trade list" where
  "bl_add_limit i side price quantity tif b =
     (let (b', result) = match_incoming i side price False quantity (bl_contains i) match_baseline b
      in (if should_rest_limit result tif then bl_rest i side price (mr_remainder result) b' else b',
          mr_trades result))"

definition bl_add_market :: "OrderId \<Rightarrow> Side \<Rightarrow> Quantity \<Rightarrow> BaselineBook \<Rightarrow> BaselineBook \<times> Trade list" where
  "bl_add_market i side quantity b =
     (let (b', result) = match_incoming i side (Ticks 0) True quantity (bl_contains i) match_baseline b
      in (b', mr_trades result))"

definition erase_level_if_empty :: "Price \<Rightarrow> LevelMap \<Rightarrow> LevelMap" where
  "erase_level_if_empty price levels =
     (if map_of levels price = Some [] then std_map_erase price levels else levels)"

definition erase_from_side :: "Locator \<Rightarrow> LevelMap \<Rightarrow> LevelMap" where
  "erase_from_side loc levels =
     (case map_of levels (loc_price loc) of
        None \<Rightarrow> levels
      | Some level \<Rightarrow>
          erase_level_if_empty (loc_price loc)
            (std_map_set (loc_price loc) (filter (\<lambda>ord. o_id ord \<noteq> loc_it loc) level) levels))"

definition erase_resting_order :: "Locator \<Rightarrow> BaselineBook \<Rightarrow> BaselineBook" where
  "erase_resting_order loc b =
     (if loc_side loc = Buy then b\<lparr>bids := erase_from_side loc (bids b)\<rparr>
      else b\<lparr>asks := erase_from_side loc (asks b)\<rparr>)"

definition bl_cancel :: "OrderId \<Rightarrow> BaselineBook \<Rightarrow> BaselineBook \<times> bool" where
  "bl_cancel i b =
     (case index b i of
        None \<Rightarrow> (b, False)
      | Some loc \<Rightarrow> (erase_resting_order loc (b\<lparr>index := (index b)(i := None)\<rparr>), True))"

text \<open>Reading and writing \<^verbatim>\<open>loc.it->quantity\<close>.\<close>

definition find_level :: "Side \<Rightarrow> Price \<Rightarrow> BaselineBook \<Rightarrow> Level option" where
  "find_level side price b = (if side = Buy then map_of (bids b) price else map_of (asks b) price)"

definition loc_order :: "Locator \<Rightarrow> BaselineBook \<Rightarrow> Order option" where
  "loc_order loc b =
     (case find_level (loc_side loc) (loc_price loc) b of
        None \<Rightarrow> None
      | Some level \<Rightarrow> find (\<lambda>ord. o_id ord = loc_it loc) level)"

definition set_loc_quantity :: "Locator \<Rightarrow> Quantity \<Rightarrow> BaselineBook \<Rightarrow> BaselineBook" where
  "set_loc_quantity loc q b =
     (case find_level (loc_side loc) (loc_price loc) b of
        None \<Rightarrow> b
      | Some level \<Rightarrow>
          let level' = set_qty (loc_it loc) q level
          in (if loc_side loc = Buy then b\<lparr>bids := std_map_set (loc_price loc) level' (bids b)\<rparr>
              else b\<lparr>asks := std_map_set (loc_price loc) level' (asks b)\<rparr>))"

definition bl_modify :: "OrderId \<Rightarrow> Price \<Rightarrow> Quantity \<Rightarrow> BaselineBook \<Rightarrow> BaselineBook \<times> Trade list" where
  "bl_modify i new_price new_quantity b =
     (case index b i of
        None \<Rightarrow> (b, [])
      | Some loc \<Rightarrow>
          if new_quantity = 0 then (fst (bl_cancel i b), [])
          else
            (case loc_order loc b of
               None \<Rightarrow> (b, [])
             | Some ord \<Rightarrow>
                 if new_price = loc_price loc \<and> new_quantity \<le> o_quantity ord
                 then (set_loc_quantity loc new_quantity b, [])
                 else bl_add_limit i (loc_side loc) new_price new_quantity GTC (fst (bl_cancel i b))))"

section \<open>Queries\<close>

definition best_price :: "LevelMap \<Rightarrow> Price option" where
  "best_price levels = (case levels of [] \<Rightarrow> None | (p, _) # _ \<Rightarrow> Some p)"

definition bl_best_bid :: "BaselineBook \<Rightarrow> Price option" where
  "bl_best_bid b = best_price (bids b)"

definition bl_best_ask :: "BaselineBook \<Rightarrow> Price option" where
  "bl_best_ask b = best_price (asks b)"

definition level_quantity :: "Level \<Rightarrow> QuantityTotal" where
  "level_quantity level = foldl (\<lambda>total ord. total + ucast (o_quantity ord)) 0 level"

definition bl_quantity_at :: "Side \<Rightarrow> Price \<Rightarrow> BaselineBook \<Rightarrow> QuantityTotal" where
  "bl_quantity_at side price b =
     (case find_level side price b of None \<Rightarrow> 0 | Some level \<Rightarrow> level_quantity level)"

definition bl_order_count :: "BaselineBook \<Rightarrow> nat" where
  "bl_order_count b = card (dom (index b))"

definition bl_fill_count :: "Side \<Rightarrow> Price \<Rightarrow> bool \<Rightarrow> Quantity \<Rightarrow> BaselineBook \<Rightarrow> nat" where
  "bl_fill_count taker_side limit is_market quantity b =
     (if taker_side = Buy then
        count_matches (asks b) \<lparr>mq_taker_is_buy = True, mq_limit = limit, mq_is_market = is_market,
                                mq_quantity = quantity\<rparr>
      else if taker_side = Sell then
        count_matches (bids b) \<lparr>mq_taker_is_buy = False, mq_limit = limit, mq_is_market = is_market,
                                mq_quantity = quantity\<rparr>
      else 0)"

definition collect_levels :: "LevelMap \<Rightarrow> LevelView list" where
  "collect_levels book = map (\<lambda>(p, level). \<lparr>lv_price = p, lv_quantity = level_quantity level\<rparr>) book"

definition append_orders :: "LevelMap \<Rightarrow> Order list \<Rightarrow> Order list" where
  "append_orders book out = out @ concat (map snd book)"

definition bl_resting_orders :: "BaselineBook \<Rightarrow> Order list" where
  "bl_resting_orders b = append_orders (asks b) (append_orders (bids b) [])"

text \<open>\<^verbatim>\<open>can_store_limit\<close> and \<^verbatim>\<open>can_apply_modify\<close> of the baseline never refuse.\<close>

definition bl_can_store_limit :: "Side \<Rightarrow> Price \<Rightarrow> Quantity \<Rightarrow> TimeInForce \<Rightarrow> BaselineBook \<Rightarrow> bool" where
  "bl_can_store_limit side price quantity tif b = True"

definition bl_can_apply_modify :: "OrderId \<Rightarrow> Price \<Rightarrow> Quantity \<Rightarrow> BaselineBook \<Rightarrow> bool" where
  "bl_can_apply_modify i new_price new_quantity b = True"

definition bl_bid_levels :: "BaselineBook \<Rightarrow> LevelView list" where
  "bl_bid_levels b = collect_levels (bids b)"

definition bl_ask_levels :: "BaselineBook \<Rightarrow> LevelView list" where
  "bl_ask_levels b = collect_levels (asks b)"

end
