(* ===== verification/Book_Store.thy ===== *)
theory Book_Store
  imports Book_Matching
begin

text \<open>
  The contract between the order book and its clients (the matching engine and everything
  above it). A storage provides the operations of \<^verbatim>\<open>OrderBook\<close>, an abstraction to the two
  priority-ordered lists of \<^verbatim>\<open>Book_Spec\<close> and a representation invariant, and promises that every
  operation it accepts implements the specification. What clients rely on over any sequence
  of operations is proved here once, from those promises alone.
\<close>

section \<open>Specified queries\<close>

definition spec_best :: "Order list \<Rightarrow> Price option" where
  "spec_best os = (case os of [] \<Rightarrow> None | ord # _ \<Rightarrow> Some (o_price ord))"

definition qty_total :: "Order list \<Rightarrow> QuantityTotal" where
  "qty_total os = foldl (\<lambda>total ord. total + ucast (o_quantity ord)) 0 os"

definition spec_side :: "Side \<Rightarrow> SpecBook \<Rightarrow> Order list" where
  "spec_side side s = (if side = Buy then s_bids s else s_asks s)"

definition spec_quantity_at :: "Side \<Rightarrow> Price \<Rightarrow> SpecBook \<Rightarrow> QuantityTotal" where
  "spec_quantity_at side p s = qty_total (filter (\<lambda>ord. o_price ord = p) (spec_side side s))"

text \<open>Adjacent orders of one price form a level.\<close>

fun group_levels :: "Order list \<Rightarrow> (Price \<times> Order list) list" where
  "group_levels [] = []"
| "group_levels (ord # os) =
     (case group_levels os of
        (p, level) # others \<Rightarrow>
          if p = o_price ord then (p, ord # level) # others else (o_price ord, [ord]) # (p, level) # others
      | [] \<Rightarrow> [(o_price ord, [ord])])"

definition spec_levels :: "Order list \<Rightarrow> LevelView list" where
  "spec_levels os = map (\<lambda>(p, level). \<lparr>lv_price = p, lv_quantity = qty_total level\<rparr>) (group_levels os)"

definition spec_fill_count :: "Side \<Rightarrow> Price \<Rightarrow> bool \<Rightarrow> Quantity \<Rightarrow> SpecBook \<Rightarrow> nat" where
  "spec_fill_count side limit is_market q s =
     (if is_valid_side side
      then length (fst (spec_match (can_match_level (side = Buy) is_market limit) 0 q (spec_opposite side s)))
      else 0)"

lemma can_match_level_market: "can_match_level buy True p = (\<lambda>_. True)"
  by (simp add: can_match_level_def fun_eq_iff)

text \<open>The trades do not depend on who the taker is, beyond carrying its id.\<close>

lemma spec_match_taker:
  "length (fst (spec_match acc taker q os)) = length (fst (spec_match acc taker' q os)) \<and>
   snd (spec_match acc taker q os) = snd (spec_match acc taker' q os)"
proof (induction os arbitrary: q)
  case (Cons m os)
  show ?case using Cons [of "q - o_quantity m"] by (auto split: prod.splits)
qed simp

lemma qty_total_acc:
  "foldl (\<lambda>total ord. total + ucast (o_quantity ord)) a os = a + qty_total os"
proof (induction os arbitrary: a)
  case (Cons x os)
  show ?case using Cons [of "a + ucast (o_quantity x)"] Cons [of "ucast (o_quantity x)"]
    by (simp add: qty_total_def add.assoc)
qed (simp add: qty_total_def)

lemma qty_total_simps [simp]:
  "qty_total [] = 0" "qty_total (x # xs) = ucast (o_quantity x) + qty_total xs"
  using qty_total_acc [of "ucast (o_quantity x)" xs] by (simp_all add: qty_total_def)

lemma qty_total_append [simp]: "qty_total (xs @ ys) = qty_total xs + qty_total ys"
  by (induction xs) (simp_all add: add.assoc)

text \<open>The 64-bit sum is exact while it fits, which fewer than 2^32 orders guarantee.\<close>

lemma unat_ucast_quantity: "unat (ucast (q :: Quantity) :: QuantityTotal) = unat q"
  by (simp add: unsigned_ucast_eq take_bit_nat_eq_self unsigned_less [of q, THEN less_trans])

lemma qty_total_exact:
  assumes "order_qty os < 2 ^ 64"
  shows "unat (qty_total os) = order_qty os"
  using assms
proof (induction os)
  case (Cons x os)
  then have "unat (ucast (o_quantity x) :: QuantityTotal) + unat (qty_total os) < 2 ^ 64"
    by (simp add: unat_ucast_quantity)
  then have "unat (ucast (o_quantity x) + qty_total os) = unat (o_quantity x) + unat (qty_total os)"
    by (subst unat_add_lem [THEN iffD1]) (simp_all add: unat_ucast_quantity)
  with Cons show ?case by simp
qed simp

lemma order_qty_bound: "order_qty os \<le> length os * (2 ^ 32 - 1)"
proof (induction os)
  case (Cons x os)
  have "unat (o_quantity x) < 2 ^ 32" using unsigned_less [of "o_quantity x", where ?'a = nat] by simp
  with Cons show ?case by simp
qed simp

section \<open>The contract\<close>

text \<open>
  \<open>room\<close> is the machine-size side condition of a store (positions that fit their integers), and
  \<open>can_store\<close>/\<open>can_apply\<close> are the queries a client must ask before it adds or modifies.
\<close>

locale book_store =
  fixes abs_book :: "'s \<Rightarrow> SpecBook"
    and wf_book :: "'s \<Rightarrow> bool"
    and room :: "'s \<Rightarrow> bool"
    and contains :: "OrderId \<Rightarrow> 's \<Rightarrow> bool"
    and can_store :: "Side \<Rightarrow> Price \<Rightarrow> Quantity \<Rightarrow> TimeInForce \<Rightarrow> 's \<Rightarrow> bool"
    and can_apply :: "OrderId \<Rightarrow> Price \<Rightarrow> Quantity \<Rightarrow> 's \<Rightarrow> bool"
    and add_limit :: "OrderId \<Rightarrow> Side \<Rightarrow> Price \<Rightarrow> Quantity \<Rightarrow> TimeInForce \<Rightarrow> 's \<Rightarrow> 's \<times> Trade list"
    and add_market :: "OrderId \<Rightarrow> Side \<Rightarrow> Quantity \<Rightarrow> 's \<Rightarrow> 's \<times> Trade list"
    and cancel :: "OrderId \<Rightarrow> 's \<Rightarrow> 's \<times> bool"
    and modify :: "OrderId \<Rightarrow> Price \<Rightarrow> Quantity \<Rightarrow> 's \<Rightarrow> 's \<times> Trade list"
    and fill_count :: "Side \<Rightarrow> Price \<Rightarrow> bool \<Rightarrow> Quantity \<Rightarrow> 's \<Rightarrow> nat"
    and resting_orders :: "'s \<Rightarrow> Order list"
    and best_bid :: "'s \<Rightarrow> Price option"
    and best_ask :: "'s \<Rightarrow> Price option"
    and quantity_at :: "Side \<Rightarrow> Price \<Rightarrow> 's \<Rightarrow> QuantityTotal"
    and order_count :: "'s \<Rightarrow> nat"
    and bid_levels :: "'s \<Rightarrow> LevelView list"
    and ask_levels :: "'s \<Rightarrow> LevelView list"
  assumes wf_spec: "wf_book s \<Longrightarrow> spec_wf (abs_book s)"
    and contains_spec: "wf_book s \<Longrightarrow> contains i s = spec_contains i (abs_book s)"
    and can_store_ioc: "wf_book s \<Longrightarrow> can_store side p q IOC s"
    and can_apply_zero: "wf_book s \<Longrightarrow> can_apply i p 0 s"
    and add_limit_spec:
      "wf_book s \<Longrightarrow> room s \<Longrightarrow> is_valid_side side \<Longrightarrow> can_store side p q tif s \<Longrightarrow>
         wf_book (fst (add_limit i side p q tif s)) \<and>
         (abs_book (fst (add_limit i side p q tif s)), snd (add_limit i side p q tif s)) =
           spec_add_limit i side p q tif (abs_book s)"
    and add_market_spec:
      "wf_book s \<Longrightarrow> wf_book (fst (add_market i side q s)) \<and>
         (abs_book (fst (add_market i side q s)), snd (add_market i side q s)) =
           spec_add_market i side q (abs_book s)"
    and cancel_spec:
      "wf_book s \<Longrightarrow> wf_book (fst (cancel i s)) \<and>
         (abs_book (fst (cancel i s)), snd (cancel i s)) = spec_cancel i (abs_book s)"
    and modify_spec:
      "wf_book s \<Longrightarrow> room s \<Longrightarrow> can_apply i p q s \<Longrightarrow>
         wf_book (fst (modify i p q s)) \<and>
         (abs_book (fst (modify i p q s)), snd (modify i p q s)) = spec_modify i p q (abs_book s)"
    and fill_count_spec: "wf_book s \<Longrightarrow> fill_count side p mkt q s = spec_fill_count side p mkt q (abs_book s)"
    and resting_orders_spec: "wf_book s \<Longrightarrow> resting_orders s = spec_orders (abs_book s)"
    and best_bid_spec: "wf_book s \<Longrightarrow> best_bid s = spec_best (s_bids (abs_book s))"
    and best_ask_spec: "wf_book s \<Longrightarrow> best_ask s = spec_best (s_asks (abs_book s))"
    and quantity_at_spec: "wf_book s \<Longrightarrow> quantity_at side p s = spec_quantity_at side p (abs_book s)"
    and order_count_spec: "wf_book s \<Longrightarrow> order_count s = length (spec_orders (abs_book s))"
    and bid_levels_spec: "wf_book s \<Longrightarrow> bid_levels s = spec_levels (s_bids (abs_book s))"
    and ask_levels_spec: "wf_book s \<Longrightarrow> ask_levels s = spec_levels (s_asks (abs_book s))"
begin

text \<open>The best bid is below the best ask.\<close>

lemma best_prices_uncrossed:
  assumes "wf_book s" "best_bid s = Some p" "best_ask s = Some q"
  shows "p < q"
  using assms wf_spec [OF assms(1)]
  by (auto simp: best_bid_spec best_ask_spec spec_best_def spec_wf_def uncrossed_def split: list.splits)

text \<open>A limit order conserves quantity: what it does not trade rests or, for IOC, is dropped.\<close>

lemma add_limit_conserves:
  assumes "wf_book s" "room s" "is_valid_side side" "can_store side p q tif s" "\<not> contains i s"
    and "add_limit i side p q tif s = (s', ts)"
  shows "trade_qty ts \<le> unat q"
    and "order_qty (resting_orders s') + 2 * trade_qty ts =
           order_qty (resting_orders s) + (if tif = GTC then unat q else trade_qty ts)"
proof -
  obtain us r b where t: "spec_take i side p False q (abs_book s) = (us, r, b)"
    by (cases "spec_take i side p False q (abs_book s)")
  let ?ord = "\<lparr>o_id = i, o_side = side, o_price = p, o_quantity = r\<rparr>"
  have wf': "wf_book s'" and abs': "abs_book s' = (if r \<noteq> 0 \<and> tif = GTC then spec_add_resting ?ord b else b)"
      and ts: "ts = us"
    using add_limit_spec [OF assms(1-4), of i] assms(5,6) t
    by (simp_all add: contains_spec [OF assms(1)] spec_add_limit_def)
  obtain os' where m: "spec_match (can_match_level (side = Buy) False p) i q (spec_opposite side (abs_book s)) = (us, r, os')"
    and b: "b = spec_set_opposite side os' (abs_book s)"
    using t by (auto simp: spec_take_def split: prod.splits)
  note c = spec_match_conserves [OF m]
  show "trade_qty ts \<le> unat q" using c by (simp add: ts)
  have "order_qty (spec_orders b) + trade_qty us = order_qty (spec_orders (abs_book s))"
    using c by (auto simp: b spec_orders_def spec_set_opposite_def spec_opposite_def split: if_splits)
  moreover have "order_qty (spec_orders (abs_book s')) =
      order_qty (spec_orders b) + (if tif = GTC then unat r else 0)"
    by (simp add: abs' spec_orders_def spec_add_resting_def)
  ultimately show "order_qty (resting_orders s') + 2 * trade_qty ts =
           order_qty (resting_orders s) + (if tif = GTC then unat q else trade_qty ts)"
    using c by (auto simp: resting_orders_spec [OF wf'] resting_orders_spec [OF assms(1)] ts)
qed

text \<open>The preview a client computes before an order equals the number of trades the order makes.\<close>

lemma fill_count_limit:
  assumes "wf_book s" "room s" "is_valid_side side" "can_store side p q tif s" "\<not> contains i s"
  shows "fill_count side p False q s = length (snd (add_limit i side p q tif s))"
  using add_limit_spec [OF assms(1-4), of i] assms(3,5)
    spec_match_taker [of "can_match_level (side = Buy) False p" 0 q "spec_opposite side (abs_book s)" i]
  by (auto simp: contains_spec [OF assms(1)] fill_count_spec [OF assms(1)] spec_fill_count_def
      spec_add_limit_def spec_take_def prod_eq_iff split: prod.splits)

lemma fill_count_market:
  assumes "wf_book s" "is_valid_side side" "\<not> contains i s"
  shows "fill_count side p True q s = length (snd (add_market i side q s))"
  using add_market_spec [OF assms(1), of i side q] assms(2,3)
    spec_match_taker [of "\<lambda>_. True" 0 q "spec_opposite side (abs_book s)" i]
  by (auto simp: contains_spec [OF assms(1)] fill_count_spec [OF assms(1)] spec_fill_count_def can_match_level_market
      spec_add_market_def spec_take_def prod_eq_iff split: prod.splits)

text \<open>The queue a taker meets, read off the resting orders.\<close>

lemma opposite_resting:
  assumes "wf_book s"
  shows "filter (\<lambda>ord. (o_side ord = Buy) \<noteq> (side = Buy)) (resting_orders s) = spec_opposite side (abs_book s)"
proof -
  have "\<forall>ord\<in>set (s_bids (abs_book s)). o_side ord = Buy" "\<forall>ord\<in>set (s_asks (abs_book s)). o_side ord \<noteq> Buy"
    using wf_spec [OF assms] by (simp_all add: spec_wf_def)
  then show ?thesis
    by (simp add: resting_orders_spec [OF assms] spec_orders_def spec_opposite_def filter_empty_conv)
qed

lemma own_resting:
  assumes "wf_book s"
  shows "filter (\<lambda>ord. (o_side ord = Buy) = (side = Buy)) (resting_orders s) = spec_side side (abs_book s)"
proof -
  have "\<forall>ord\<in>set (s_bids (abs_book s)). o_side ord = Buy" "\<forall>ord\<in>set (s_asks (abs_book s)). o_side ord \<noteq> Buy"
    using wf_spec [OF assms] by (simp_all add: spec_wf_def)
  then show ?thesis
    by (simp add: resting_orders_spec [OF assms] spec_orders_def spec_side_def filter_empty_conv)
qed

lemma add_limit_cases:
  assumes "wf_book s" "room s" "is_valid_side side" "can_store side p q tif s" "\<not> contains i s"
    and "add_limit i side p q tif s = (s', ts)"
  obtains r b where "spec_take i side p False q (abs_book s) = (ts, r, b)" "wf_book s'"
    "abs_book s' = (if r \<noteq> 0 \<and> tif = GTC
       then spec_add_resting \<lparr>o_id = i, o_side = side, o_price = p, o_quantity = r\<rparr> b else b)"
proof -
  obtain us r b where t: "spec_take i side p False q (abs_book s) = (us, r, b)"
    by (cases "spec_take i side p False q (abs_book s)")
  with that [of r b] show thesis
    using add_limit_spec [OF assms(1-4), of i] assms(5,6)
    by (simp add: contains_spec [OF assms(1)] spec_add_limit_def)
qed

text \<open>Price-time priority: the makers are the front of the opposite queue, in its order.\<close>

lemma add_limit_priority:
  assumes "wf_book s" "room s" "is_valid_side side" "can_store side p q tif s" "\<not> contains i s"
    and "add_limit i side p q tif s = (s', ts)"
    and "queue = filter (\<lambda>ord. (o_side ord = Buy) \<noteq> (side = Buy)) (resting_orders s)"
  shows "map (\<lambda>t. (t_maker_id t, t_price t)) ts = map (\<lambda>ord. (o_id ord, o_price ord)) (take (length ts) queue)"
    and "k + 1 < length ts \<Longrightarrow> t_quantity (ts ! k) = o_quantity (queue ! k)"
    and "t \<in> set ts \<Longrightarrow> t_taker_id t = i \<and> can_match_level (side = Buy) False p (t_price t)"
    and "prio_sorted (side \<noteq> Buy) queue"
proof -
  obtain r b where t: "spec_take i side p False q (abs_book s) = (ts, r, b)"
    by (rule add_limit_cases [OF assms(1-6)])
  have queue: "queue = spec_opposite side (abs_book s)"
    unfolding assms(7) by (rule opposite_resting [OF assms(1)])
  obtain os' where m: "spec_match (can_match_level (side = Buy) False p) i q queue = (ts, r, os')"
    using t by (auto simp: spec_take_def queue split: prod.splits)
  show "map (\<lambda>t. (t_maker_id t, t_price t)) ts = map (\<lambda>ord. (o_id ord, o_price ord)) (take (length ts) queue)"
    by (rule spec_match_makers [OF m])
  show "k + 1 < length ts \<Longrightarrow> t_quantity (ts ! k) = o_quantity (queue ! k)"
    by (rule spec_match_whole [OF m])
  show "t \<in> set ts \<Longrightarrow> t_taker_id t = i \<and> can_match_level (side = Buy) False p (t_price t)"
    using spec_match_trades [OF m] by blast
  show "prio_sorted (side \<noteq> Buy) queue"
    using spec_wf_opposite [OF wf_spec [OF assms(1)], of side] by (simp add: queue)
qed

text \<open>A remainder rests behind every order of its side that has an equal or better price.\<close>

lemma add_limit_rests_behind:
  assumes "wf_book s" "room s" "is_valid_side side" "can_store side p q GTC s" "\<not> contains i s"
    and "add_limit i side p q GTC s = (s', ts)" "trade_qty ts < unat q"
  shows "\<exists>xs ys ord. filter (\<lambda>ord. (o_side ord = Buy) = (side = Buy)) (resting_orders s) = xs @ ys \<and>
    filter (\<lambda>ord. (o_side ord = Buy) = (side = Buy)) (resting_orders s') = xs @ ord # ys \<and>
    o_id ord = i \<and> o_side ord = side \<and> o_price ord = p \<and> unat (o_quantity ord) = unat q - trade_qty ts \<and>
    (\<forall>x\<in>set xs. \<not> price_before (side = Buy) p (o_price x)) \<and> (\<forall>y\<in>set ys. price_before (side = Buy) p (o_price y))"
proof -
  obtain r b where t: "spec_take i side p False q (abs_book s) = (ts, r, b)" and wf': "wf_book s'"
      and abs': "abs_book s' = (if r \<noteq> 0 \<and> GTC = GTC
         then spec_add_resting \<lparr>o_id = i, o_side = side, o_price = p, o_quantity = r\<rparr> b else b)"
    by (rule add_limit_cases [OF assms(1-6)])
  obtain os' where m: "spec_match (can_match_level (side = Buy) False p) i q (spec_opposite side (abs_book s)) = (ts, r, os')"
      and b: "b = spec_set_opposite side os' (abs_book s)"
    using t by (auto simp: spec_take_def split: prod.splits)
  have r: "unat r = unat q - trade_qty ts" "r \<noteq> 0"
    using spec_match_conserves [OF m] assms(7) by auto
  let ?ord = "\<lparr>o_id = i, o_side = side, o_price = p, o_quantity = r\<rparr>"
  have own: "spec_side side (abs_book s') = spec_rest (side = Buy) ?ord (spec_side side (abs_book s))"
    using abs' r(2) by (auto simp: b spec_side_def spec_add_resting_def spec_set_opposite_def)
  have "prio_sorted (side = Buy) (spec_side side (abs_book s))"
    using wf_spec [OF assms(1)] by (auto simp: spec_wf_def spec_side_def)
  from spec_rest_position [OF this, of ?ord] obtain xs ys where
      "spec_side side (abs_book s) = xs @ ys" "spec_side side (abs_book s') = xs @ ?ord # ys"
      "\<forall>x\<in>set xs. \<not> price_before (side = Buy) p (o_price x)" "\<forall>y\<in>set ys. price_before (side = Buy) p (o_price y)"
    using own by auto
  then show ?thesis
    unfolding own_resting [OF assms(1)] own_resting [OF wf']
    using r by (intro exI [of _ xs] exI [of _ ys] exI [of _ ?ord]) simp
qed

lemma cancel_exact:
  assumes "wf_book s" "cancel i s = (s', canceled)"
  shows "canceled = contains i s" and "resting_orders s' = filter (\<lambda>ord. o_id ord \<noteq> i) (resting_orders s)"
    and "wf_book s'"
proof -
  have *: "wf_book s'" "(abs_book s', canceled) = spec_cancel i (abs_book s)"
    using cancel_spec [OF assms(1), of i] assms(2) by simp_all
  then show "canceled = contains i s"
    by (simp add: contains_spec [OF assms(1)] spec_cancel_def split: if_splits)
  show "resting_orders s' = filter (\<lambda>ord. o_id ord \<noteq> i) (resting_orders s)"
    using *(2) unfolding resting_orders_spec [OF *(1)] resting_orders_spec [OF assms(1)]
    by (auto simp: spec_cancel_def spec_remove_orders spec_contains_def filter_other_id split: if_splits)
  show "wf_book s'" by (rule *(1))
qed

text \<open>The two ways of a modify that is not a cancel: in place, or as cancel and re-add.\<close>

lemma modify_in_place:
  assumes "wf_book s" "room s" "can_apply i p q s" "modify i p q s = (s', ts)"
    and "ord \<in> set (resting_orders s)" "o_id ord = i" "q \<noteq> 0" "p = o_price ord" "q \<le> o_quantity ord"
  shows "ts = []" and "resting_orders s' = set_qty i q (resting_orders s)"
proof -
  have d: "distinct (map o_id (spec_orders (abs_book s)))" using wf_spec [OF assms(1)] by (rule spec_wf_distinct)
  have f: "spec_find i (abs_book s) = Some ord"
    using find_distinct [OF d, of ord] assms(5,6) by (simp add: spec_find_def resting_orders_spec [OF assms(1)])
  have *: "wf_book s'" "(abs_book s', ts) = spec_modify i p q (abs_book s)"
    using modify_spec [OF assms(1-3)] assms(4) by simp_all
  then have "abs_book s' = spec_set_qty i q (abs_book s)" "ts = []"
    using assms(6-9) f by (simp_all add: spec_modify_def)
  then show "ts = []" "resting_orders s' = set_qty i q (resting_orders s)"
    by (simp_all add: resting_orders_spec [OF *(1)] resting_orders_spec [OF assms(1)] spec_orders_set_qty)
qed

lemma modify_requeues:
  assumes "wf_book s" "room s" "can_apply i p q s" "modify i p q s = (s', ts)"
    and "ord \<in> set (resting_orders s)" "o_id ord = i" "q \<noteq> 0" "p \<noteq> o_price ord \<or> o_quantity ord < q"
    and "cancel i s = (s1, canceled)" "room s1" "is_valid_side (o_side ord)" "can_store (o_side ord) p q GTC s1"
    and "add_limit i (o_side ord) p q GTC s1 = (s2, us)"
  shows "ts = us" and "resting_orders s' = resting_orders s2"
proof -
  have d: "distinct (map o_id (spec_orders (abs_book s)))" using wf_spec [OF assms(1)] by (rule spec_wf_distinct)
  have f: "spec_find i (abs_book s) = Some ord"
    using find_distinct [OF d, of ord] assms(5,6) by (simp add: spec_find_def resting_orders_spec [OF assms(1)])
  have m: "wf_book s'" "(abs_book s', ts) = spec_modify i p q (abs_book s)"
    using modify_spec [OF assms(1-3)] assms(4) by simp_all
  have c: "wf_book s1" "abs_book s1 = spec_remove i (abs_book s)"
    using cancel_spec [OF assms(1), of i] assms(9) f by (simp_all add: spec_cancel_def spec_contains_find)
  have a: "wf_book s2" "(abs_book s2, us) = spec_add_limit i (o_side ord) p q GTC (abs_book s1)"
    using add_limit_spec [OF c(1) assms(10-12), of i] assms(13) by simp_all
  have "spec_modify i p q (abs_book s) = spec_add_limit i (o_side ord) p q GTC (spec_remove i (abs_book s))"
    using f assms(6-8) by (auto simp: spec_modify_def not_le)
  then show "ts = us" "resting_orders s' = resting_orders s2"
    using m a c(2) by (auto simp: resting_orders_spec dest: sym)
qed

lemma quantity_at_exact:
  assumes "wf_book s" "order_count s < 2 ^ 32"
  shows "unat (quantity_at side p s) =
    order_qty (filter (\<lambda>ord. (o_side ord = Buy) = (side = Buy) \<and> o_price ord = p) (resting_orders s))"
proof -
  let ?os = "filter (\<lambda>ord. o_price ord = p) (spec_side side (abs_book s))"
  have eq: "filter (\<lambda>ord. (o_side ord = Buy) = (side = Buy) \<and> o_price ord = p) (resting_orders s) = ?os"
    unfolding own_resting [OF assms(1), symmetric] by (simp add: conj_commute)
  have "length (spec_side side (abs_book s)) \<le> length (spec_orders (abs_book s))"
    by (simp add: spec_side_def spec_orders_def)
  then have "length ?os < 2 ^ 32"
    using assms(2) length_filter_le [of "\<lambda>ord. o_price ord = p" "spec_side side (abs_book s)"]
    unfolding order_count_spec [OF assms(1)] by linarith
  then have "length ?os * (2 ^ 32 - 1) \<le> 2 ^ 32 * (2 ^ 32 - 1)" by (intro mult_le_mono1) simp
  then have "order_qty ?os < 2 ^ 64" using order_qty_bound [of ?os] by simp
  then show ?thesis
    unfolding eq quantity_at_spec [OF assms(1)] spec_quantity_at_def by (rule qty_total_exact)
qed

end

end
