(* ===== verification/Baseline_Refine.thy ===== *)
theory Baseline_Refine
  imports Baseline_Book Book_Store
begin

text \<open>
  The baseline storage implements the contract of \<^verbatim>\<open>Book_Spec\<close>: an abstraction that flattens the
  two level maps, the representation invariant (sorted maps of non-empty levels, an index
  that locates exactly the resting orders) and one refinement lemma per operation.
\<close>

section \<open>Representation invariant and abstraction\<close>

definition flatten :: "LevelMap \<Rightarrow> Order list" where
  "flatten levels = concat (map snd levels)"

lemma flatten_simps [simp]:
  "flatten [] = []" "flatten ((p, level) # levels) = level @ flatten levels"
  by (simp_all add: flatten_def)

definition bl_abs :: "BaselineBook \<Rightarrow> SpecBook" where
  "bl_abs b = \<lparr>s_bids = flatten (bids b), s_asks = flatten (asks b)\<rparr>"

definition level_ok :: "bool \<Rightarrow> Price \<Rightarrow> Level \<Rightarrow> bool" where
  "level_ok is_bid p level \<longleftrightarrow> (\<forall>ord\<in>set level. o_price ord = p \<and> (o_side ord = Buy) = is_bid)"

definition levels_wf :: "bool \<Rightarrow> LevelMap \<Rightarrow> bool" where
  "levels_wf is_bid levels \<longleftrightarrow>
     std_map_sorted (price_before is_bid) levels \<and>
     (\<forall>(p, level)\<in>set levels. level \<noteq> [] \<and> level_ok is_bid p level)"

definition locate :: "Order \<Rightarrow> Locator" where
  "locate ord = \<lparr>loc_side = o_side ord, loc_price = o_price ord, loc_it = o_id ord\<rparr>"

definition index_of :: "Order list \<Rightarrow> Index" where
  "index_of os = map_of (map (\<lambda>ord. (o_id ord, locate ord)) os)"

definition bl_wf :: "BaselineBook \<Rightarrow> bool" where
  "bl_wf b \<longleftrightarrow> levels_wf True (bids b) \<and> levels_wf False (asks b) \<and> spec_wf (bl_abs b) \<and>
     index b = index_of (spec_orders (bl_abs b))"

interpretation side_map: std_map_order "price_before is_bid" for is_bid
  by unfold_locales (use price_before_total in \<open>auto intro: price_before_trans\<close>)

lemma levels_wf_simps [simp]:
  "levels_wf is_bid []"
  "levels_wf is_bid ((p, level) # levels) \<longleftrightarrow>
     level \<noteq> [] \<and> level_ok is_bid p level \<and> (\<forall>x\<in>set levels. price_before is_bid p (fst x)) \<and>
     levels_wf is_bid levels"
  by (auto simp: levels_wf_def)

subsection \<open>The index\<close>

lemma locate_okey: "okey x = okey y \<Longrightarrow> locate x = locate y"
  by (simp add: locate_def okey_def)

lemma dom_index_of [simp]: "dom (index_of os) = o_id ` set os"
  by (simp add: index_of_def dom_map_of_conv_image_fst image_image)

lemma index_of_None [simp]: "index_of os i = None \<longleftrightarrow> i \<notin> o_id ` set os"
  by (auto simp: index_of_def map_of_eq_None_iff image_image)

lemma index_of_mem: "distinct (map o_id os) \<Longrightarrow> x \<in> set os \<Longrightarrow> index_of os (o_id x) = Some (locate x)"
  by (auto simp: index_of_def comp_def intro!: map_of_is_SomeI)

lemma index_of_SomeD: "index_of os i = Some loc \<Longrightarrow> \<exists>x\<in>set os. o_id x = i \<and> loc = locate x"
  by (auto simp: index_of_def dest!: map_of_SomeD)

text \<open>The index depends only on which orders rest, and removing orders restricts it.\<close>

lemma index_of_restrict:
  assumes "distinct (map o_id xs)" "distinct (map o_id ys)" "okey ` set ys \<subseteq> okey ` set xs"
  shows "index_of ys = index_of xs |` (o_id ` set ys)"
proof
  fix i
  show "index_of ys i = (index_of xs |` (o_id ` set ys)) i"
  proof (cases "i \<in> o_id ` set ys")
    case True
    then obtain y where y: "y \<in> set ys" "i = o_id y" by auto
    then obtain x where x: "x \<in> set xs" "okey x = okey y" using assms(3) by fastforce
    then have "o_id x = i" using y by (simp add: okey_def)
    then show ?thesis
      using index_of_mem [OF assms(1) x(1)] index_of_mem [OF assms(2) y(1)] locate_okey [OF x(2)] y True
      by simp
  qed simp
qed

lemma index_of_cong:
  assumes "distinct (map o_id xs)" "distinct (map o_id ys)" "okey ` set ys = okey ` set xs"
  shows "index_of ys = index_of xs"
proof -
  have "o_id ` set ys = o_id ` set xs"
    using arg_cong [OF assms(3), of "image fst"] by (simp add: image_image)
  then have "index_of xs |` (o_id ` set ys) = index_of xs"
    by (intro ext) (auto simp: restrict_map_def eq_commute [of None])
  then show ?thesis
    using index_of_restrict [OF assms(1,2)] assms(3) by simp
qed

lemma index_of_insert:
  assumes "distinct (map o_id ys)" "set ys = insert x (set xs)" "o_id x \<notin> o_id ` set xs" "distinct (map o_id xs)"
  shows "index_of ys = (index_of xs)(o_id x \<mapsto> locate x)"
proof -
  have "index_of ys = index_of (x # xs)"
    by (rule index_of_cong) (use assms in auto)
  then show ?thesis by (simp add: index_of_def)
qed

subsection \<open>Matching implements the matching rule\<close>

lemma fill_level_done: "mc_quantity ctx = 0 \<Longrightarrow> fill_level level p idx ctx = (level, idx, ctx)"
  by (simp add: fill_level.simps)

lemma fill_level_spec:
  assumes "spec_match (\<lambda>_. True) (mc_taker_id ctx) (mc_quantity ctx) level = (ts, r, level')"
    "\<forall>ord\<in>set level. o_price ord = p" "distinct (map o_id level)"
  shows "fill_level level p idx ctx =
    (level', idx |` (- (o_id ` set level - o_id ` set level')), mc_after ctx ts r)"
  using assms
proof (induction level arbitrary: idx ctx ts r level')
  case Nil
  then show ?case by (simp add: fill_level.simps restrict_map_def)
next
  case (Cons m level)
  let ?q = "mc_quantity ctx"
  consider "?q = 0" | "?q \<noteq> 0" "o_quantity m \<le> ?q" | "?q \<noteq> 0" "\<not> o_quantity m \<le> ?q"
    by fastforce
  then show ?case
  proof cases
    case 1
    with Cons.prems show ?thesis by (auto simp: fill_level.simps restrict_map_def)
  next
    case 2
    obtain us s os where rec: "spec_match (\<lambda>_. True) (mc_taker_id ctx) (?q - o_quantity m) level = (us, s, os)"
      by (cases "spec_match (\<lambda>_. True) (mc_taker_id ctx) (?q - o_quantity m) level")
    let ?ctx = "mc_after ctx [fill_trade (mc_taker_id ctx) m (o_quantity m)] (?q - o_quantity m)"
    have eq: "ts = fill_trade (mc_taker_id ctx) m (o_quantity m) # us" "r = s" "level' = os"
      using Cons.prems(1) 2 rec by simp_all
    have "fill_level (m # level) p idx ctx = fill_level level p (idx(o_id m := None)) ?ctx"
      using 2 Cons.prems(2) fill_maker_whole [of m ctx]
      by (simp add: fill_level.simps [of "m # level"] fill_front_order_def word_neq_0_conv)
    also have "\<dots> = (os, idx(o_id m := None) |` (- (o_id ` set level - o_id ` set os)), mc_after ?ctx us s)"
      by (rule Cons.IH) (use rec Cons.prems in simp_all)
    also have "idx(o_id m := None) |` (- (o_id ` set level - o_id ` set os)) =
        idx |` (- (o_id ` set (m # level) - o_id ` set os))"
      using spec_match_ids [OF rec] Cons.prems(3) by (auto simp: restrict_map_def fun_eq_iff)
    finally show ?thesis by (simp add: eq)
  next
    case 3
    then have eq: "ts = [fill_trade (mc_taker_id ctx) m ?q]" "r = 0"
        "level' = m\<lparr>o_quantity := o_quantity m - ?q\<rparr> # level"
      using Cons.prems(1) by simp_all
    have "fill_level (m # level) p idx ctx =
        fill_level (m\<lparr>o_quantity := o_quantity m - ?q\<rparr> # level) p idx
          (mc_after ctx [fill_trade (mc_taker_id ctx) m ?q] 0)"
      using 3 Cons.prems(2) fill_maker_part [of ctx m]
      by (simp add: fill_level.simps [of "m # level"] fill_front_order_def word_neq_0_conv not_le)
    then show ?thesis
      by (simp add: eq fill_level_done restrict_map_def)
  qed
qed

lemma match_ordered_levels_spec:
  assumes "levels_wf is_bid levels" "distinct (map o_id (flatten levels))"
    "spec_match (mc_accepts ctx) (mc_taker_id ctx) (mc_quantity ctx) (flatten levels) = (ts, r, os')"
  shows "\<exists>levels'. match_ordered_levels levels idx ctx =
      (levels', idx |` (- (o_id ` set (flatten levels) - o_id ` set os')), mc_after ctx ts r) \<and>
    levels_wf is_bid levels' \<and> flatten levels' = os' \<and> fst ` set levels' \<subseteq> fst ` set levels"
  using assms
proof (induction levels arbitrary: idx ctx ts r os')
  case Nil
  then show ?case by (simp add: restrict_map_def)
next
  case (Cons x levels)
  obtain p level where x: "x = (p, level)" by (cases x)
  have ok: "level \<noteq> []" "\<forall>ord\<in>set level. o_price ord = p" "levels_wf is_bid levels"
    using Cons.prems(1) by (auto simp: x level_ok_def)
  obtain m ms where m: "level = m # ms" "o_price m = p" using ok by (cases level) auto
  show ?case
  proof (cases "mc_quantity ctx = 0 \<or> \<not> mc_accepts ctx p")
    case True
    with Cons.prems m show ?thesis by (auto simp: x mc_accepts_def restrict_map_def)
  next
    case False
    let ?q = "mc_quantity ctx" and ?t = "mc_taker_id ctx" and ?acc = "mc_accepts ctx"
    obtain us s level' where lm: "spec_match (\<lambda>_. True) ?t ?q level = (us, s, level')"
      by (cases "spec_match (\<lambda>_. True) ?t ?q level")
    have acc: "spec_match ?acc ?t ?q level = (us, s, level')"
      using spec_match_level [of level ?acc ?t ?q] ok(2) False lm by simp
    let ?idx = "idx |` (- (o_id ` set level - o_id ` set level'))" and ?ctx = "mc_after ctx us s"
    have "fill_level level p idx ctx = (level', ?idx, ?ctx)"
      using fill_level_spec [OF lm] ok(2) Cons.prems(2) by (simp add: x)
    then have step: "match_ordered_levels (x # levels) idx ctx =
        match_ordered_levels (erase_begin_if_empty ((p, level') # levels)) ?idx ?ctx"
      using False by (simp add: x mc_accepts_def word_neq_0_conv)
    show ?thesis
    proof (cases "level' = []")
      case True
      obtain vs r2 os2 where rec: "spec_match ?acc ?t s (flatten levels) = (vs, r2, os2)"
        by (cases "spec_match ?acc ?t s (flatten levels)")
      have eq: "ts = us @ vs" "r = r2" "os' = os2"
        using Cons.prems(3) True by (simp_all add: x spec_match_append acc rec)
      have "spec_match (mc_accepts ?ctx) (mc_taker_id ?ctx) (mc_quantity ?ctx) (flatten levels) = (vs, r2, os2)"
        using rec by simp
      from Cons.IH [OF ok(3) _ this, of ?idx] obtain levels' where
        l: "match_ordered_levels levels ?idx ?ctx =
           (levels', ?idx |` (- (o_id ` set (flatten levels) - o_id ` set os2)), mc_after ?ctx vs r2)"
          "levels_wf is_bid levels'" "flatten levels' = os2" "fst ` set levels' \<subseteq> fst ` set levels"
        using Cons.prems(2) by (auto simp: x)
      have "?idx |` (- (o_id ` set (flatten levels) - o_id ` set os2)) =
          idx |` (- (o_id ` set (flatten (x # levels)) - o_id ` set os2))"
        using spec_match_ids [OF rec] Cons.prems(2) True
        by (auto simp: x restrict_map_def fun_eq_iff)
      with l show ?thesis
        unfolding step using True eq by (auto simp: x erase_begin_if_empty_def)
    next
      case nonempty: False
      have eq: "ts = us" "r = s" "os' = level' @ flatten levels"
        using Cons.prems(3) nonempty by (simp_all add: x spec_match_append acc)
      have "s = 0"
        using spec_match_stops [OF lm] nonempty by simp
      obtain pre where pre: "map okey level = pre @ map okey level'"
        using spec_match_suffix [OF lm] .
      have "okey ` set level' \<subseteq> okey ` set level"
        using arg_cong [OF pre, of set] by auto
      moreover have "level_ok is_bid p level" using Cons.prems(1) by (simp add: x)
      ultimately have "level_ok is_bid p level'"
        by (fastforce simp: level_ok_def okey_eq_iff)
      moreover have "idx |` (- (o_id ` set (flatten (x # levels)) - o_id ` set os')) = ?idx"
        using Cons.prems(2) by (auto simp: x eq restrict_map_def fun_eq_iff)
      moreover have "erase_begin_if_empty ((p, level') # levels) = (p, level') # levels"
        using nonempty by (simp add: erase_begin_if_empty_def split: list.splits)
      ultimately show ?thesis
        unfolding step using nonempty Cons.prems(1) \<open>s = 0\<close> eq
        by (simp add: x)
    qed
  qed
qed

lemma count_level_matches_zero [simp]: "count_level_matches level 0 = (0, 0)"
  by (cases level) auto

lemma count_level_matches_spec:
  "spec_match (\<lambda>_. True) t q level = (ts, r, level') \<Longrightarrow>
     \<exists>q'. count_level_matches level q = (length ts, q') \<and> q' = r"
proof (induction rule: spec_match_induct)
  case (stop q os)
  then show ?case by (cases os) auto
qed (auto simp: min_def word_neq_0_conv split: prod.splits)

lemma count_matches_spec:
  assumes "levels_wf is_bid levels"
    "spec_match (can_match_level (mq_taker_is_buy query) (mq_is_market query) (mq_limit query)) t
       (mq_quantity query) (flatten levels) = (ts, r, os')"
  shows "count_matches levels query = length ts"
  using assms
proof (induction levels arbitrary: query ts r os')
  case (Cons x levels)
  obtain p level where x: "x = (p, level)" by (cases x)
  have ok: "level \<noteq> []" "\<forall>ord\<in>set level. o_price ord = p" "levels_wf is_bid levels"
    using Cons.prems(1) by (auto simp: x level_ok_def)
  obtain m ms where m: "level = m # ms" "o_price m = p" using ok by (cases level) auto
  let ?acc = "can_match_level (mq_taker_is_buy query) (mq_is_market query) (mq_limit query)"
  show ?case
  proof (cases "mq_quantity query = 0 \<or> \<not> ?acc p")
    case True
    with Cons.prems m show ?thesis by (auto simp: x)
  next
    case False
    obtain us s level' where lm: "spec_match (\<lambda>_. True) t (mq_quantity query) level = (us, s, level')"
      by (cases "spec_match (\<lambda>_. True) t (mq_quantity query) level")
    have acc: "spec_match ?acc t (mq_quantity query) level = (us, s, level')"
      using spec_match_level [of level ?acc t] ok(2) False lm by simp
    have c: "count_level_matches level (mq_quantity query) = (length us, s)"
      using count_level_matches_spec [OF lm] by simp
    obtain vs r2 os2 where rec: "spec_match ?acc t s (flatten levels) = (vs, r2, os2)"
      by (cases "spec_match ?acc t s (flatten levels)")
    have "count_matches levels (query\<lparr>mq_quantity := s\<rparr>) = length vs"
      using Cons.IH [OF ok(3), of "query\<lparr>mq_quantity := s\<rparr>"] rec by simp
    moreover have "length ts = length us + length vs"
      using Cons.prems(2) spec_match_stops [OF acc] False rec spec_match_stops [OF lm]
      by (auto simp: x spec_match_append acc split: if_splits)
    ultimately show ?thesis using False c by (simp add: x word_neq_0_conv)
  qed
qed simp

subsection \<open>Resting, cancelling and modifying\<close>

lemma flatten_prices: "levels_wf is_bid levels \<Longrightarrow> ord \<in> set (flatten levels) \<Longrightarrow> o_price ord \<in> fst ` set levels"
  by (induction levels) (auto simp: level_ok_def)

lemma flatten_side: "levels_wf is_bid levels \<Longrightarrow> ord \<in> set (flatten levels) \<Longrightarrow> (o_side ord = Buy) = is_bid"
  by (induction levels) (auto simp: level_ok_def)

definition rest_levels :: "bool \<Rightarrow> Order \<Rightarrow> LevelMap \<Rightarrow> LevelMap" where
  "rest_levels is_bid ord levels =
     push_back (o_price ord) ord (std_map_try_emplace (price_before is_bid) (o_price ord) [] levels)"

lemma rest_levels_simps:
  "rest_levels is_bid ord [] = [(o_price ord, [ord])]"
  "price_before is_bid (o_price ord) p \<Longrightarrow>
     rest_levels is_bid ord ((p, level) # levels) =
       (o_price ord, [ord]) # std_map_set (o_price ord) [ord] ((p, level) # levels)"
  "price_before is_bid p (o_price ord) \<Longrightarrow>
     rest_levels is_bid ord ((p, level) # levels) = (p, level) # rest_levels is_bid ord levels"
  "p = o_price ord \<Longrightarrow> rest_levels is_bid ord ((p, level) # levels) =
       (p, level @ [ord]) # std_map_set p (level @ [ord]) levels"
  using price_before_asym [of is_bid p "o_price ord"]
  by (auto simp: rest_levels_def push_back_def)

lemma rest_levels_spec:
  assumes "levels_wf is_bid levels" "(o_side ord = Buy) = is_bid"
  shows "flatten (rest_levels is_bid ord levels) = spec_rest is_bid ord (flatten levels) \<and>
    levels_wf is_bid (rest_levels is_bid ord levels) \<and>
    fst ` set (rest_levels is_bid ord levels) = insert (o_price ord) (fst ` set levels)"
  using assms
proof (induction levels)
  case Nil
  then show ?case by (simp add: rest_levels_simps level_ok_def)
next
  case (Cons x levels)
  obtain p level where x: "x = (p, level)" by (cases x)
  have ok: "level \<noteq> []" "level_ok is_bid p level" "\<forall>y\<in>set levels. price_before is_bid p (fst y)"
      "levels_wf is_bid levels"
    using Cons.prems by (auto simp: x)
  have behind: "\<forall>y\<in>set (flatten levels). price_before is_bid p (o_price y)"
    using flatten_prices [OF ok(4)] ok(3) by fastforce
  consider "price_before is_bid (o_price ord) p" | "price_before is_bid p (o_price ord)" | "p = o_price ord"
    using price_before_total by blast
  then show ?case
  proof cases
    case 1
    have before: "\<forall>y\<in>set (x # levels). price_before is_bid (o_price ord) (fst y)"
      using 1 ok(3) by (auto simp: x intro: price_before_trans [OF 1])
    then have "o_price ord \<notin> fst ` set (x # levels)" by force
    then have "rest_levels is_bid ord (x # levels) = (o_price ord, [ord]) # x # levels"
      using 1 by (auto simp: x rest_levels_simps std_map_set_absent)
    moreover have "spec_rest is_bid ord (flatten (x # levels)) = ord # flatten (x # levels)"
      using before flatten_prices [OF Cons.prems(1)] by (intro spec_rest_front) fastforce
    ultimately show ?thesis using before Cons.prems by (simp add: level_ok_def)
  next
    case 2
    have "\<forall>y\<in>set level. \<not> price_before is_bid (o_price ord) (o_price y)"
      using ok(2) price_before_asym [OF 2] by (simp add: level_ok_def)
    moreover have "\<forall>y\<in>set (rest_levels is_bid ord levels). price_before is_bid p (fst y)"
    proof
      fix y assume "y \<in> set (rest_levels is_bid ord levels)"
      then have "fst y \<in> insert (o_price ord) (fst ` set levels)"
        using Cons.IH [OF ok(4) Cons.prems(2)] by force
      then show "price_before is_bid p (fst y)" using 2 ok(3) by auto
    qed
    ultimately show ?thesis
      using 2 Cons ok by (simp add: x rest_levels_simps spec_rest_split insert_commute)
  next
    case 3
    have "\<forall>y\<in>set level. \<not> price_before is_bid (o_price ord) (o_price y)"
      using ok(2) 3 by (simp add: level_ok_def)
    moreover have "p \<notin> fst ` set levels" using ok(3) by force
    ultimately show ?thesis
      using 3 ok behind Cons.prems(2)
      by (auto simp: x rest_levels_simps spec_rest_split spec_rest_front std_map_set_absent level_ok_def)
  qed
qed

lemma bl_rest_levels:
  "ord = \<lparr>o_id = i, o_side = side, o_price = price, o_quantity = q\<rparr> \<Longrightarrow>
     bl_rest i side price q b =
       (if side = Buy then b\<lparr>bids := rest_levels True ord (bids b), index := (index b)(i \<mapsto> locate ord)\<rparr>
        else b\<lparr>asks := rest_levels False ord (asks b), index := (index b)(i \<mapsto> locate ord)\<rparr>)"
  by (simp add: bl_rest_def level_for_def rest_levels_def locate_def)

lemma bl_wf_distinct: "bl_wf b \<Longrightarrow> distinct (map o_id (spec_orders (bl_abs b)))"
  by (simp add: bl_wf_def spec_wf_distinct)

lemma bl_wf_sides:
  assumes "bl_wf b"
  shows "levels_wf True (bids b)" "levels_wf False (asks b)"
    "distinct (map o_id (flatten (bids b)))" "distinct (map o_id (flatten (asks b)))"
  using assms bl_wf_distinct [OF assms] by (simp_all add: bl_wf_def spec_orders_def bl_abs_def)

lemma bl_contains_spec: "bl_wf b \<Longrightarrow> bl_contains i b = spec_contains i (bl_abs b)"
  by (simp add: bl_contains_def bl_wf_def spec_contains_def)

text \<open>An index that has lost exactly the orders that left the book is the index of what remains.\<close>

lemma bl_wf_removeI:
  assumes "bl_wf b" "levels_wf True (bids b')" "levels_wf False (asks b')" "spec_wf (bl_abs b')"
    "okey ` set (spec_orders (bl_abs b')) \<subseteq> okey ` set (spec_orders (bl_abs b))"
    "index b' = index b |` (o_id ` set (spec_orders (bl_abs b')))"
  shows "bl_wf b'"
  using assms index_of_restrict [OF bl_wf_distinct [OF assms(1)] spec_wf_distinct [OF assms(4)] assms(5)]
  by (simp add: bl_wf_def)

lemma match_baseline_spec:
  assumes "bl_wf b" "mc_taker_is_buy ctx = (side = Buy)"
    "spec_take (mc_taker_id ctx) side (mc_limit ctx) (mc_is_market ctx) (mc_quantity ctx) (bl_abs b) = (ts, r, s')"
  shows "\<exists>b'. match_baseline side ctx b = (b', mc_after ctx ts r) \<and> bl_wf b' \<and> bl_abs b' = s'"
proof -
  note wf = bl_wf_sides [OF assms(1)]
  note dist = bl_wf_distinct [OF assms(1)]
  define levels where "levels = (if side = Buy then asks b else bids b)"
  let ?os = "flatten levels"
  have lwf: "levels_wf (side \<noteq> Buy) levels" "distinct (map o_id ?os)" using wf by (auto simp: levels_def)
  have opp: "spec_opposite side (bl_abs b) = ?os"
    by (simp add: spec_opposite_def bl_abs_def levels_def)
  have acc: "can_match_level (side = Buy) (mc_is_market ctx) (mc_limit ctx) = mc_accepts ctx"
    using assms(2) by (simp add: mc_accepts_def)
  obtain os' where m: "spec_match (mc_accepts ctx) (mc_taker_id ctx) (mc_quantity ctx) ?os = (ts, r, os')"
    and s': "s' = spec_set_opposite side os' (bl_abs b)"
    using assms(3) unfolding spec_take_def opp acc by (auto split: prod.splits)
  let ?F = "- (o_id ` set ?os - o_id ` set os')"
  obtain levels' where l: "match_ordered_levels levels (index b) ctx = (levels', index b |` ?F, mc_after ctx ts r)"
      "levels_wf (side \<noteq> Buy) levels'" "flatten levels' = os'"
    using match_ordered_levels_spec [OF lwf m] by blast
  define b' where "b' = (if side = Buy then b\<lparr>asks := levels', index := index b |` ?F\<rparr>
                         else b\<lparr>bids := levels', index := index b |` ?F\<rparr>)"
  have ib: "index b' = index b |` ?F" by (simp add: b'_def)
  have abs: "bl_abs b' = s'"
    using l(3) by (simp add: b'_def s' bl_abs_def spec_set_opposite_def)
  have swf: "spec_wf (bl_abs b')"
    using spec_take_wf [OF _ assms(3)] assms(1) by (simp add: abs bl_wf_def)
  have sub: "okey ` set (spec_orders (bl_abs b')) \<subseteq> okey ` set (spec_orders (bl_abs b))"
    using spec_take_okeys [OF assms(3)] by (simp add: abs)
  have "o_id ` set os' \<subseteq> o_id ` set ?os" by (rule spec_match_ids [OF m])
  moreover have "spec_orders (bl_abs b') = (if side = Buy then flatten (bids b) @ os' else os' @ flatten (asks b))"
    by (simp add: abs s' spec_orders_def spec_set_opposite_def bl_abs_def [of b])
  moreover have "o_id ` set (spec_orders (bl_abs b)) = o_id ` set (flatten (bids b)) \<union> o_id ` set (flatten (asks b))"
    by (simp add: spec_orders_def bl_abs_def image_Un)
  moreover have "o_id ` set (flatten (bids b)) \<inter> o_id ` set (flatten (asks b)) = {}"
    using dist by (simp add: spec_orders_def bl_abs_def)
  ultimately have "o_id ` set (spec_orders (bl_abs b')) = o_id ` set (spec_orders (bl_abs b)) \<inter> ?F"
    by (cases "side = Buy") (simp_all add: levels_def image_Un, blast+)
  moreover have "dom (index b) = o_id ` set (spec_orders (bl_abs b))"
    using assms(1) by (simp add: bl_wf_def)
  ultimately have "index b |` ?F = index b |` (o_id ` set (spec_orders (bl_abs b')))"
    using restrict_dom_inter [of "index b" ?F] by simp
  with ib have "index b' = index b |` (o_id ` set (spec_orders (bl_abs b')))"
    by (rule trans)
  moreover have "levels_wf True (bids b')" "levels_wf False (asks b')"
    using wf l(2) by (cases "side = Buy"; simp add: b'_def)+
  ultimately have "bl_wf b'"
    using bl_wf_removeI [OF assms(1) _ _ swf sub] by blast
  moreover have "match_baseline side ctx b = (b', mc_after ctx ts r)"
    using l(1) by (cases "side = Buy") (simp_all add: match_baseline_def match_against_def b'_def levels_def)
  ultimately show ?thesis using abs by blast
qed

lemma bl_rest_spec:
  assumes "bl_wf b" "ord = \<lparr>o_id = i, o_side = side, o_price = price, o_quantity = q\<rparr>"
    "\<not> spec_contains i (bl_abs b)" "spec_wf (spec_add_resting ord (bl_abs b))"
  shows "bl_wf (bl_rest i side price q b) \<and> bl_abs (bl_rest i side price q b) = spec_add_resting ord (bl_abs b)"
proof -
  note wf = bl_wf_sides [OF assms(1)]
  have r: "flatten (rest_levels True ord (bids b)) = spec_rest True ord (flatten (bids b))"
      "levels_wf True (rest_levels True ord (bids b))" if "side = Buy"
    using rest_levels_spec [OF wf(1), of ord] that assms(2) by simp_all
  have s: "flatten (rest_levels False ord (asks b)) = spec_rest False ord (flatten (asks b))"
      "levels_wf False (rest_levels False ord (asks b))" if "side \<noteq> Buy"
    using rest_levels_spec [OF wf(2), of ord] that assms(2) by simp_all
  have abs: "bl_abs (bl_rest i side price q b) = spec_add_resting ord (bl_abs b)"
    using r s assms(2) by (simp add: bl_rest_levels [OF assms(2)] bl_abs_def spec_add_resting_def)
  have "index_of (spec_orders (spec_add_resting ord (bl_abs b))) =
      (index_of (spec_orders (bl_abs b)))(o_id ord \<mapsto> locate ord)"
    by (rule index_of_insert)
      (use assms spec_wf_distinct [OF assms(4)] bl_wf_distinct [OF assms(1)]
       in \<open>auto simp: spec_orders_def spec_add_resting_def spec_contains_def\<close>)
  moreover have "index (bl_rest i side price q b) = (index b)(o_id ord \<mapsto> locate ord)"
    using assms(2) by (simp add: bl_rest_levels [OF assms(2)])
  ultimately show ?thesis
    using assms(1,4) r s wf abs by (auto simp: bl_wf_def bl_rest_levels [OF assms(2)])
qed

theorem bl_add_limit_spec:
  assumes "bl_wf b"
  shows "bl_wf (fst (bl_add_limit i side price q tif b)) \<and>
    (bl_abs (fst (bl_add_limit i side price q tif b)), snd (bl_add_limit i side price q tif b)) =
      spec_add_limit i side price q tif (bl_abs b)"
proof (cases "spec_contains i (bl_abs b)")
  case True
  then show ?thesis
    using assms bl_contains_spec [OF assms]
    by (simp add: bl_add_limit_def match_incoming_def spec_add_limit_def should_rest_limit_def)
next
  case False
  obtain ts r s' where t: "spec_take i side price False q (bl_abs b) = (ts, r, s')"
    by (cases "spec_take i side price False q (bl_abs b)")
  let ?ctx = "\<lparr>mc_taker_id = i, mc_taker_is_buy = (side = Buy), mc_limit = price, mc_is_market = False,
      mc_quantity = q, mc_trades = []\<rparr>"
  obtain b' where m: "match_baseline side ?ctx b = (b', mc_after ?ctx ts r)" "bl_wf b'" "bl_abs b' = s'"
    using match_baseline_spec [OF assms, of ?ctx side] t by auto
  let ?ord = "\<lparr>o_id = i, o_side = side, o_price = price, o_quantity = r\<rparr>"
  have add: "bl_add_limit i side price q tif b =
      (if r \<noteq> 0 \<and> tif = GTC then bl_rest i side price r b' else b', ts)"
    using m(1) False bl_contains_spec [OF assms]
    by (simp add: bl_add_limit_def match_incoming_def should_rest_limit_def)
  have spec: "spec_add_limit i side price q tif (bl_abs b) =
      (if r \<noteq> 0 \<and> tif = GTC then spec_add_resting ?ord s' else s', ts)"
    using False t by (simp add: spec_add_limit_def)
  show ?thesis
  proof (cases "r \<noteq> 0 \<and> tif = GTC")
    case True
    have "spec_wf (spec_add_resting ?ord (bl_abs b'))"
      using spec_add_limit_wf [of "bl_abs b" i side price q tif] assms spec True m(3) by (simp add: bl_wf_def)
    moreover have "\<not> spec_contains i (bl_abs b')"
      using False spec_take_ids [OF t] m(3) by (auto simp: spec_contains_def)
    ultimately have "bl_wf (bl_rest i side price r b') \<and>
        bl_abs (bl_rest i side price r b') = spec_add_resting ?ord (bl_abs b')"
      using bl_rest_spec [OF m(2) refl] by blast
    then show ?thesis unfolding add spec using True m(3) by simp
  qed (use m add spec in auto)
qed

theorem bl_add_market_spec:
  assumes "bl_wf b"
  shows "bl_wf (fst (bl_add_market i side q b)) \<and>
    (bl_abs (fst (bl_add_market i side q b)), snd (bl_add_market i side q b)) =
      spec_add_market i side q (bl_abs b)"
proof -
  obtain ts r s' where t: "spec_take i side (Ticks 0) True q (bl_abs b) = (ts, r, s')"
    by (cases "spec_take i side (Ticks 0) True q (bl_abs b)")
  let ?ctx = "\<lparr>mc_taker_id = i, mc_taker_is_buy = (side = Buy), mc_limit = Ticks 0, mc_is_market = True,
      mc_quantity = q, mc_trades = []\<rparr>"
  obtain b' where m: "match_baseline side ?ctx b = (b', mc_after ?ctx ts r)" "bl_wf b'" "bl_abs b' = s'"
    using match_baseline_spec [OF assms, of ?ctx side] t by auto
  then show ?thesis
    using t assms bl_contains_spec [OF assms]
    by (auto simp: bl_add_market_def match_incoming_def spec_add_market_def)
qed

lemma flatten_append [simp]: "flatten (xs @ ys) = flatten xs @ flatten ys"
  by (simp add: flatten_def)

lemma levels_wf_append:
  "levels_wf is_bid (xs @ ys) \<longleftrightarrow> levels_wf is_bid xs \<and> levels_wf is_bid ys \<and>
     (\<forall>x\<in>set xs. \<forall>y\<in>set ys. price_before is_bid (fst x) (fst y))"
  by (auto simp: levels_wf_def std_map_sorted_def sorted_wrt_append)

text \<open>The level an order rests on, with the rest of the side around it.\<close>

lemma levels_split:
  assumes "levels_wf is_bid levels" "ord \<in> set (flatten levels)"
  obtains pre level post where "levels = pre @ (o_price ord, level) # post" "ord \<in> set level"
    "o_price ord \<notin> fst ` set pre" "o_price ord \<notin> fst ` set post"
proof -
  obtain p level where l: "(p, level) \<in> set levels" "ord \<in> set level"
    using assms(2) by (auto simp: flatten_def)
  then have p: "p = o_price ord" using assms(1) by (auto simp: levels_wf_def level_ok_def)
  obtain pre post where s: "levels = pre @ (p, level) # post" using split_list [OF l(1)] by blast
  have "p \<notin> fst ` set pre" "p \<notin> fst ` set post"
    using assms(1) by (auto simp: s levels_wf_append)
  with that [of pre level post] l(2) s p show thesis by simp
qed

lemma locate_sel [simp]:
  "loc_side (locate ord) = o_side ord" "loc_price (locate ord) = o_price ord" "loc_it (locate ord) = o_id ord"
  by (simp_all add: locate_def)

text \<open>
  A locator found in the index leads to its order: the level exists and contains the order,
  so no operation reads through a dangling iterator.
\<close>

lemma bl_locate:
  assumes "bl_wf b" "index b i = Some loc"
  obtains ord where "loc_order loc b = Some ord" "loc = locate ord" "o_id ord = i"
    "ord \<in> set (spec_orders (bl_abs b))"
proof -
  obtain ord where o: "ord \<in> set (spec_orders (bl_abs b))" "o_id ord = i" "loc = locate ord"
    using index_of_SomeD [of "spec_orders (bl_abs b)" i loc] assms by (metis bl_wf_def)
  note wf = bl_wf_sides [OF assms(1)]
  define levels where "levels = (if o_side ord = Buy then bids b else asks b)"
  have "ord \<in> set (flatten (bids b)) \<or> ord \<in> set (flatten (asks b))"
    using o(1) by (simp add: spec_orders_def bl_abs_def)
  then have mem: "ord \<in> set (flatten levels)"
    using flatten_side [OF wf(1), of ord] flatten_side [OF wf(2), of ord]
    by (cases "o_side ord = Buy") (auto simp: levels_def)
  have lwf: "levels_wf (o_side ord = Buy) levels" "distinct (map o_id (flatten levels))"
    using wf by (auto simp: levels_def)
  obtain pre level post where s: "levels = pre @ (o_price ord, level) # post" "ord \<in> set level"
      "o_price ord \<notin> fst ` set pre"
    by (rule levels_split [OF lwf(1) mem])
  have "find_level (loc_side loc) (loc_price loc) b = map_of levels (o_price ord)"
    by (simp add: o(3) find_level_def levels_def)
  also have "\<dots> = Some level" by (simp add: s(1) map_of_split [OF s(3)])
  finally have fl: "find_level (loc_side loc) (loc_price loc) b = Some level" .
  have "distinct (map o_id level)" using lwf(2) by (simp add: s(1))
  then have "find (\<lambda>x. o_id x = o_id ord) level = Some ord"
    using s(2) by (rule find_distinct)
  then have "loc_order loc b = Some ord"
    using fl by (simp add: loc_order_def o(3))
  from that [OF this o(3,2,1)] show thesis .
qed

lemma erase_from_side_spec:
  assumes "levels_wf is_bid levels" "ord \<in> set (flatten levels)" "distinct (map o_id (flatten levels))"
  shows "flatten (erase_from_side (locate ord) levels) = filter (\<lambda>x. o_id x \<noteq> o_id ord) (flatten levels) \<and>
    levels_wf is_bid (erase_from_side (locate ord) levels)"
proof -
  obtain pre level post where s: "levels = pre @ (o_price ord, level) # post" "ord \<in> set level"
      "o_price ord \<notin> fst ` set pre" "o_price ord \<notin> fst ` set post"
    by (rule levels_split [OF assms(1,2)])
  let ?l = "filter (\<lambda>x. o_id x \<noteq> o_id ord) level"
  have "erase_from_side (locate ord) levels = pre @ (if ?l = [] then [] else [(o_price ord, ?l)]) @ post"
    using s(3,4)
    by (simp add: erase_from_side_def erase_level_if_empty_def s(1) map_of_split
        std_map_set_absent std_map_erase_absent)
  moreover have "filter (\<lambda>x. o_id x \<noteq> o_id ord) (flatten pre) = flatten pre"
      "filter (\<lambda>x. o_id x \<noteq> o_id ord) (flatten post) = flatten post"
    using assms(3) s(2) by (force simp: s(1) filter_id_conv)+
  moreover have "levels_wf is_bid (pre @ post)" "level_ok is_bid (o_price ord) level"
      "levels_wf is_bid levels"
    using assms(1) by (auto simp: s(1) levels_wf_append)
  ultimately show ?thesis
    by (cases "?l = []") (auto simp: s(1) levels_wf_append level_ok_def)
qed

lemma set_level_spec:
  assumes "levels_wf is_bid levels" "ord \<in> set (flatten levels)" "distinct (map o_id (flatten levels))"
    "map_of levels (o_price ord) = Some level"
  shows "flatten (std_map_set (o_price ord) (set_qty (o_id ord) q level) levels) = set_qty (o_id ord) q (flatten levels) \<and>
    levels_wf is_bid (std_map_set (o_price ord) (set_qty (o_id ord) q level) levels)"
proof -
  obtain pre level' post where s: "levels = pre @ (o_price ord, level') # post" "ord \<in> set level'"
      "o_price ord \<notin> fst ` set pre" "o_price ord \<notin> fst ` set post"
    by (rule levels_split [OF assms(1,2)])
  have [simp]: "level' = level" using assms(4) by (simp add: s(1) map_of_split [OF s(3)])
  have "set_qty (o_id ord) q (flatten pre) = flatten pre" "set_qty (o_id ord) q (flatten post) = flatten post"
    using assms(3) s(2) unfolding set_qty_def by (intro map_idI; force simp: s(1))+
  then show ?thesis
    using s(3,4) assms(1)
    by (auto simp: s(1) std_map_set_absent levels_wf_append set_qty_def level_ok_def)
qed

lemma bl_mem_side:
  assumes "bl_wf b" "ord \<in> set (spec_orders (bl_abs b))"
  shows "o_side ord = Buy \<Longrightarrow> ord \<in> set (flatten (bids b)) \<and> o_id ord \<notin> o_id ` set (flatten (asks b))"
    and "o_side ord \<noteq> Buy \<Longrightarrow> ord \<in> set (flatten (asks b)) \<and> o_id ord \<notin> o_id ` set (flatten (bids b))"
proof -
  note wf = bl_wf_sides [OF assms(1)]
  have disj: "o_id ` set (flatten (bids b)) \<inter> o_id ` set (flatten (asks b)) = {}"
    using bl_wf_distinct [OF assms(1)] by (simp add: spec_orders_def bl_abs_def)
  have mem: "ord \<in> set (flatten (bids b)) \<or> ord \<in> set (flatten (asks b))"
    using assms(2) by (simp add: spec_orders_def bl_abs_def)
  show "ord \<in> set (flatten (bids b)) \<and> o_id ord \<notin> o_id ` set (flatten (asks b))" if "o_side ord = Buy"
    using mem that flatten_side [OF wf(2), of ord] disj by blast
  show "ord \<in> set (flatten (asks b)) \<and> o_id ord \<notin> o_id ` set (flatten (bids b))" if "o_side ord \<noteq> Buy"
    using mem that flatten_side [OF wf(1), of ord] disj by blast
qed

lemma erase_resting_order_spec:
  assumes "bl_wf b" "ord \<in> set (spec_orders (bl_abs b))"
  shows "bl_abs (erase_resting_order (locate ord) b) = spec_remove (o_id ord) (bl_abs b) \<and>
    levels_wf True (bids (erase_resting_order (locate ord) b)) \<and>
    levels_wf False (asks (erase_resting_order (locate ord) b))"
proof (cases "o_side ord = Buy")
  case True
  note mem = bl_mem_side(1) [OF assms True] and wf = bl_wf_sides [OF assms(1)]
  show ?thesis
    using True mem wf erase_from_side_spec [OF wf(1) _ wf(3), of ord]
    by (simp add: erase_resting_order_def bl_abs_def spec_remove_def filter_other_id)
next
  case False
  note mem = bl_mem_side(2) [OF assms False] and wf = bl_wf_sides [OF assms(1)]
  show ?thesis
    using False mem wf erase_from_side_spec [OF wf(2) _ wf(4), of ord]
    by (simp add: erase_resting_order_def bl_abs_def spec_remove_def filter_other_id)
qed

lemma bl_index_find:
  assumes "bl_wf b"
  shows "index b i = map_option locate (spec_find i (bl_abs b))"
proof (cases "index b i")
  case None
  then have "i \<notin> o_id ` set (spec_orders (bl_abs b))"
    using assms by (simp add: bl_wf_def)
  then have "spec_find i (bl_abs b) = None"
    by (auto simp: spec_find_def find_None_iff)
  with None show ?thesis by simp
next
  case (Some loc)
  obtain ord where o: "loc = locate ord" "o_id ord = i" "ord \<in> set (spec_orders (bl_abs b))"
    by (rule bl_locate [OF assms Some])
  then have "spec_find i (bl_abs b) = Some ord"
    using find_distinct [OF bl_wf_distinct [OF assms] o(3)] by (simp add: spec_find_def)
  with Some o show ?thesis by simp
qed

lemma bl_find:
  assumes "bl_wf b" "spec_find i (bl_abs b) = Some ord"
  shows "index b i = Some (locate ord)" "loc_order (locate ord) b = Some ord"
    "ord \<in> set (spec_orders (bl_abs b))" "o_id ord = i"
proof -
  show idx: "index b i = Some (locate ord)" using bl_index_find [OF assms(1), of i] assms(2) by simp
  show mem: "ord \<in> set (spec_orders (bl_abs b))" "o_id ord = i"
    using assms(2) by (auto simp: spec_find_def find_Some_iff)
  obtain x where x: "loc_order (locate ord) b = Some x" "o_id x = i" "x \<in> set (spec_orders (bl_abs b))"
    by (rule bl_locate [OF assms(1) idx])
  have "x = ord"
    using bl_wf_distinct [OF assms(1)] x(2,3) mem by (auto simp: distinct_map inj_on_def)
  with x show "loc_order (locate ord) b = Some ord" by simp
qed

lemma bl_cancel_spec:
  assumes "bl_wf b"
  shows "bl_wf (fst (bl_cancel i b)) \<and>
    (bl_abs (fst (bl_cancel i b)), snd (bl_cancel i b)) = spec_cancel i (bl_abs b)"
proof (cases "spec_find i (bl_abs b)")
  case None
  then show ?thesis
    using assms bl_index_find [OF assms, of i] by (simp add: bl_cancel_def spec_cancel_def spec_contains_find)
next
  case (Some ord)
  note f = bl_find [OF assms Some]
  let ?b = "erase_resting_order (locate ord) b"
  have cancel: "bl_cancel i b = (?b\<lparr>index := (index b)(i := None)\<rparr>, True)"
    using f by (simp add: bl_cancel_def erase_resting_order_def)
  have abs: "bl_abs (?b\<lparr>index := (index b)(i := None)\<rparr>) = spec_remove i (bl_abs b)"
    using erase_resting_order_spec [OF assms f(3)] f(4) by (simp add: bl_abs_def)
  have idx: "(index b)(i := None) = index b |` (o_id ` set (spec_orders (spec_remove i (bl_abs b))))"
    using assms by (auto simp: spec_remove_orders bl_wf_def restrict_map_def fun_eq_iff)
  have swf: "spec_wf (spec_remove i (bl_abs b))" using assms by (simp add: bl_wf_def spec_remove_wf)
  have "bl_wf (?b\<lparr>index := (index b)(i := None)\<rparr>)"
    by (rule bl_wf_removeI [OF assms])
      (use erase_resting_order_spec [OF assms f(3)] abs idx swf in \<open>auto simp: spec_remove_orders\<close>)
  then show ?thesis
    unfolding cancel using abs Some by (simp add: spec_cancel_def spec_contains_find)
qed

lemma set_loc_quantity_spec:
  assumes "bl_wf b" "ord \<in> set (spec_orders (bl_abs b))" "q \<noteq> 0"
  shows "bl_wf (set_loc_quantity (locate ord) q b) \<and>
    bl_abs (set_loc_quantity (locate ord) q b) = spec_set_qty (o_id ord) q (bl_abs b)"
proof -
  note wf = bl_wf_sides [OF assms(1)]
  let ?b = "set_loc_quantity (locate ord) q b"
  have main: "bl_abs ?b = spec_set_qty (o_id ord) q (bl_abs b) \<and> levels_wf True (bids ?b) \<and>
      levels_wf False (asks ?b) \<and> index ?b = index b"
  proof (cases "o_side ord = Buy")
    case True
    note mem = bl_mem_side(1) [OF assms(1,2) True]
    obtain level where l: "map_of (bids b) (o_price ord) = Some level"
      using levels_split [OF wf(1), of ord] mem map_of_split by (metis map_of_append map_of.simps(2) fst_conv snd_conv)
    show ?thesis
      using set_level_spec [OF wf(1) _ wf(3) l, of q] mem True wf l
      by (simp add: set_loc_quantity_def find_level_def bl_abs_def spec_set_qty_def set_qty_other_id)
  next
    case False
    note mem = bl_mem_side(2) [OF assms(1,2) False]
    obtain level where l: "map_of (asks b) (o_price ord) = Some level"
      using levels_split [OF wf(2), of ord] mem map_of_split by (metis map_of_append map_of.simps(2) fst_conv snd_conv)
    show ?thesis
      using set_level_spec [OF wf(2) _ wf(4) l, of q] mem False wf l
      by (simp add: set_loc_quantity_def find_level_def bl_abs_def spec_set_qty_def set_qty_other_id)
  qed
  have swf: "spec_wf (bl_abs ?b)" using main assms(1,3) by (simp add: bl_wf_def spec_set_qty_wf)
  have "map okey (spec_orders (bl_abs ?b)) = map okey (spec_orders (bl_abs b))"
    using main by (simp add: spec_orders_set_qty)
  then have "okey ` set (spec_orders (bl_abs ?b)) = okey ` set (spec_orders (bl_abs b))"
    by (metis image_set)
  then have "index_of (spec_orders (bl_abs ?b)) = index_of (spec_orders (bl_abs b))"
    by (rule index_of_cong [OF bl_wf_distinct [OF assms(1)] spec_wf_distinct [OF swf]])
  with main swf assms(1) show ?thesis by (simp add: bl_wf_def)
qed

theorem bl_modify_spec:
  assumes "bl_wf b"
  shows "bl_wf (fst (bl_modify i p q b)) \<and>
    (bl_abs (fst (bl_modify i p q b)), snd (bl_modify i p q b)) = spec_modify i p q (bl_abs b)"
proof (cases "spec_find i (bl_abs b)")
  case None
  then show ?thesis
    using assms bl_index_find [OF assms, of i] by (simp add: bl_modify_def spec_modify_def)
next
  case (Some ord)
  note f = bl_find [OF assms Some]
  have c: "bl_wf (fst (bl_cancel i b))" "bl_abs (fst (bl_cancel i b)) = spec_remove i (bl_abs b)"
    using bl_cancel_spec [OF assms, of i] Some by (simp_all add: spec_cancel_def spec_contains_find)
  show ?thesis
    using f c set_loc_quantity_spec [OF assms f(3), of q]
      bl_add_limit_spec [OF c(1), of i "o_side ord" p q GTC] Some
    by (simp add: bl_modify_def spec_modify_def)
qed

section \<open>Queries\<close>

text \<open>The level maps are determined by the flattened sides.\<close>

lemma group_levels_level:
  assumes "level \<noteq> []" "\<forall>ord\<in>set level. o_price ord = p" "\<forall>(p', l)\<in>set (group_levels os). p' \<noteq> p"
  shows "group_levels (level @ os) = (p, level) # group_levels os"
  using assms
proof (induction level)
  case (Cons x level)
  show ?case
  proof (cases level)
    case Nil
    with Cons.prems show ?thesis by (auto split: list.splits prod.splits)
  next
    case (Cons y l)
    with Cons.IH Cons.prems show ?thesis by simp
  qed
qed simp

lemma group_levels_flatten: "levels_wf is_bid levels \<Longrightarrow> group_levels (flatten levels) = levels"
proof (induction levels)
  case (Cons x levels)
  obtain p level where x: "x = (p, level)" by (cases x)
  have "group_levels (flatten levels) = levels" using Cons by (simp add: x)
  moreover have "\<forall>(p', l)\<in>set levels. p' \<noteq> p" using Cons.prems by (auto simp: x)
  ultimately show ?case
    using Cons.prems group_levels_level [of level p "flatten levels"] by (simp add: x level_ok_def)
qed simp

lemma bl_abs_inject:
  assumes "bl_wf a" "bl_wf b" "bl_abs a = bl_abs b"
  shows "a = b"
proof -
  have "flatten (bids a) = flatten (bids b)" "flatten (asks a) = flatten (asks b)"
    using assms(3) by (simp_all add: bl_abs_def)
  then have "bids a = bids b" "asks a = asks b"
    using bl_wf_sides [OF assms(1)] bl_wf_sides [OF assms(2)] group_levels_flatten by metis+
  with assms show ?thesis by (simp add: bl_wf_def)
qed

lemma level_quantity_total: "level_quantity level = qty_total level"
  by (simp add: level_quantity_def qty_total_def)

lemma best_price_flatten: "levels_wf is_bid levels \<Longrightarrow> best_price levels = spec_best (flatten levels)"
  by (cases levels) (auto simp: best_price_def spec_best_def level_ok_def append_eq_Cons_conv split: list.splits prod.splits)

lemma collect_levels_flatten: "levels_wf is_bid levels \<Longrightarrow> collect_levels levels = spec_levels (flatten levels)"
  by (simp add: collect_levels_def spec_levels_def group_levels_flatten level_quantity_total)

lemma map_of_flatten:
  assumes "levels_wf is_bid levels"
  shows "(case map_of levels p of None \<Rightarrow> [] | Some level \<Rightarrow> level) = filter (\<lambda>ord. o_price ord = p) (flatten levels)"
  using assms
proof (induction levels)
  case (Cons x levels)
  obtain p' level where x: "x = (p', level)" by (cases x)
  have ok: "\<forall>ord\<in>set level. o_price ord = p'" "levels_wf is_bid levels" "p' \<notin> fst ` set levels"
    using Cons.prems by (auto simp: x level_ok_def)
  show ?case
  proof (cases "p = p'")
    case True
    then have "filter (\<lambda>ord. o_price ord = p) (flatten levels) = []"
      using flatten_prices [OF ok(2)] ok(3) by (auto simp: filter_empty_conv)
    then show ?thesis using True ok(1) by (simp add: x)
  next
    case False
    then have "filter (\<lambda>ord. o_price ord = p) level = []" using ok(1) by (auto simp: filter_empty_conv)
    with False Cons.IH [OF ok(2)] show ?thesis by (simp add: x)
  qed
qed simp

lemma bl_quantity_at_spec:
  assumes "bl_wf b"
  shows "bl_quantity_at side p b = spec_quantity_at side p (bl_abs b)"
proof -
  note wf = bl_wf_sides [OF assms]
  have "bl_quantity_at side p b =
      qty_total (case map_of (if side = Buy then bids b else asks b) p of None \<Rightarrow> [] | Some level \<Rightarrow> level)"
    by (simp add: bl_quantity_at_def find_level_def level_quantity_total split: option.split)
  then show ?thesis
    using map_of_flatten [OF wf(1), of p] map_of_flatten [OF wf(2), of p]
    by (simp add: spec_quantity_at_def spec_side_def bl_abs_def)
qed

lemma bl_order_count_spec: "bl_wf b \<Longrightarrow> bl_order_count b = length (spec_orders (bl_abs b))"
  using bl_wf_distinct [of b]
  by (simp add: bl_order_count_def bl_wf_def) (metis distinct_card length_map list.set_map)

lemma bl_fill_count_spec:
  assumes "bl_wf b"
  shows "bl_fill_count side p mkt q b = spec_fill_count side p mkt q (bl_abs b)"
proof -
  note wf = bl_wf_sides [OF assms]
  let ?qy = "\<lambda>buy. \<lparr>mq_taker_is_buy = buy, mq_limit = p, mq_is_market = mkt, mq_quantity = q\<rparr>"
  have "count_matches (asks b) (?qy True) = length (fst (spec_match (can_match_level True mkt p) 0 q (flatten (asks b))))"
    using count_matches_spec [OF wf(2), of "?qy True" 0]
    by (cases "spec_match (can_match_level True mkt p) 0 q (flatten (asks b))") simp
  moreover have "count_matches (bids b) (?qy False) = length (fst (spec_match (can_match_level False mkt p) 0 q (flatten (bids b))))"
    using count_matches_spec [OF wf(1), of "?qy False" 0]
    by (cases "spec_match (can_match_level False mkt p) 0 q (flatten (bids b))") simp
  ultimately show ?thesis
    by (cases side) (simp_all add: bl_fill_count_def spec_fill_count_def spec_opposite_def bl_abs_def is_valid_side_def)
qed

lemma bl_resting_orders_spec: "bl_resting_orders b = spec_orders (bl_abs b)"
  by (simp add: bl_resting_orders_def append_orders_def spec_orders_def bl_abs_def flatten_def)

lemma bl_wf_empty [simp]: "bl_wf bl_empty"
  by (simp add: bl_wf_def bl_empty_def bl_abs_def index_of_def spec_orders_def spec_wf_def uncrossed_def)

interpretation bl: book_store bl_abs bl_wf "\<lambda>_. True" bl_contains bl_can_store_limit bl_can_apply_modify
    bl_add_limit bl_add_market bl_cancel bl_modify bl_fill_count bl_resting_orders bl_best_bid bl_best_ask
    bl_quantity_at bl_order_count bl_bid_levels bl_ask_levels
proof unfold_locales
  fix s assume wf: "bl_wf s"
  note sides = bl_wf_sides [OF wf]
  show "spec_wf (bl_abs s)" using wf by (simp add: bl_wf_def)
  show "bl_best_bid s = spec_best (s_bids (bl_abs s))" "bl_best_ask s = spec_best (s_asks (bl_abs s))"
    using best_price_flatten [OF sides(1)] best_price_flatten [OF sides(2)]
    by (simp_all add: bl_best_bid_def bl_best_ask_def bl_abs_def)
  show "bl_bid_levels s = spec_levels (s_bids (bl_abs s))" "bl_ask_levels s = spec_levels (s_asks (bl_abs s))"
    using collect_levels_flatten [OF sides(1)] collect_levels_flatten [OF sides(2)]
    by (simp_all add: bl_bid_levels_def bl_ask_levels_def bl_abs_def)
qed (simp_all add: bl_contains_spec bl_can_store_limit_def bl_can_apply_modify_def bl_resting_orders_spec bl_quantity_at_spec
    bl_order_count_spec bl_fill_count_spec bl_add_limit_spec bl_add_market_spec bl_cancel_spec bl_modify_spec)

end
