(* ===== verification/Contiguous_Book.thy ===== *)
theory Contiguous_Book
  imports Book_Matching
begin

text \<open>
  The storage mode \<open>Contiguous\<close> (\<^verbatim>\<open>src/engine/contiguous_store.hpp\<close>): price levels in an array
  indexed by tick, occupancy bitmaps for the best price, and each level a vector with a head
  cursor in which a cancel leaves a tombstone of quantity zero.

  The fixed-size arrays of a side are functions of the index. Positions and counts of a level
  are natural numbers, converted where the source narrows them to 32 bits; the cursor never
  passes the end of its vector. Indexing a vector out of range has no defined result, neither
  in the source nor here; \<^verbatim>\<open>Contiguous_Refine\<close> shows that every access is in range.
\<close>

unbundle bit_operations_syntax

section \<open>State\<close>

definition kContiguousMinPrice :: Price where "kContiguousMinPrice = Ticks 1"
definition kContiguousMaxPrice :: Price where "kContiguousMaxPrice = Ticks 1024"

definition kBandWidth :: nat where
  "kBandWidth = unat (ticks kContiguousMaxPrice - ticks kContiguousMinPrice + 1)"

definition kBitmapWords :: nat where "kBitmapWords = (kBandWidth + 63) div 64"
definition kCompactMinSize :: nat where "kCompactMinSize = 16"

record FlatOrder =
  fo_id :: OrderId
  fo_quantity :: Quantity

record FlatLevel =
  fl_orders :: "FlatOrder list"
  fl_head :: nat
  fl_alive :: nat

record FlatLocator =
  cl_side :: Side
  cl_price :: Price
  cl_pos :: nat

type_synonym Bitmap = "nat \<Rightarrow> 64 word"
type_synonym FlatIndex = "OrderId \<rightharpoonup> FlatLocator"

record BookSide =
  bs_levels :: "nat \<Rightarrow> FlatLevel"
  bs_bits :: Bitmap

record ContiguousStore =
  ct_bids :: BookSide
  ct_asks :: BookSide
  ct_index :: FlatIndex

definition side_empty :: BookSide where
  "side_empty = \<lparr>bs_levels = (\<lambda>_. \<lparr>fl_orders = [], fl_head = 0, fl_alive = 0\<rparr>), bs_bits = (\<lambda>_. 0)\<rparr>"

definition ct_empty :: ContiguousStore where
  "ct_empty = \<lparr>ct_bids = side_empty, ct_asks = side_empty, ct_index = Map.empty\<rparr>"

text \<open>The conversion to \<^verbatim>\<open>std::uint32_t\<close>.\<close>

definition to_u32 :: "nat \<Rightarrow> nat" where "to_u32 n = n mod 2 ^ 32"

definition in_band :: "Price \<Rightarrow> bool" where
  "in_band price \<longleftrightarrow> price \<ge> kContiguousMinPrice \<and> price \<le> kContiguousMaxPrice"

definition slot_of :: "Price \<Rightarrow> nat" where
  "slot_of price = unat (ticks price - ticks kContiguousMinPrice)"

definition price_of :: "nat \<Rightarrow> Price" where
  "price_of slot = Ticks (ticks kContiguousMinPrice + of_nat slot)"

definition side_ref :: "Side \<Rightarrow> ContiguousStore \<Rightarrow> BookSide" where
  "side_ref side s = (if side = Buy then ct_bids s else ct_asks s)"

definition set_side_ref :: "Side \<Rightarrow> BookSide \<Rightarrow> ContiguousStore \<Rightarrow> ContiguousStore" where
  "set_side_ref side bs s = (if side = Buy then s\<lparr>ct_bids := bs\<rparr> else s\<lparr>ct_asks := bs\<rparr>)"

section \<open>Bitmaps\<close>

definition set_slot_bit :: "nat \<Rightarrow> Bitmap \<Rightarrow> Bitmap" where
  "set_slot_bit slot bits = bits(slot div 64 := bits (slot div 64) OR push_bit (slot mod 64) 1)"

definition clear_slot_bit :: "nat \<Rightarrow> Bitmap \<Rightarrow> Bitmap" where
  "clear_slot_bit slot bits = bits(slot div 64 := bits (slot div 64) AND NOT (push_bit (slot mod 64) 1))"

text \<open>\<^verbatim>\<open>std::countr_zero\<close> and \<^verbatim>\<open>std::countl_zero\<close>.\<close>

definition countr_zero :: "64 word \<Rightarrow> nat" where
  "countr_zero v = length (takeWhile (\<lambda>i. \<not> bit v i) [0..<64])"

definition countl_zero :: "64 word \<Rightarrow> nat" where
  "countl_zero v = length (takeWhile (\<lambda>i. \<not> bit v i) (rev [0..<64]))"

function next_up_word :: "Bitmap \<Rightarrow> nat \<Rightarrow> nat \<Rightarrow> nat option" where
  "next_up_word bits from_slot word =
     (if word < kBitmapWords then
        let value = bits word;
            value = (if word = from_slot div 64 then value AND push_bit (from_slot mod 64) (- 1) else value)
        in if value \<noteq> 0 then Some (word * 64 + countr_zero value) else next_up_word bits from_slot (word + 1)
      else None)"
  by pat_completeness auto
termination
  by (relation "measure (\<lambda>(_, _, word). kBitmapWords - word)") auto

declare next_up_word.simps [simp del]

definition next_up :: "Bitmap \<Rightarrow> nat \<Rightarrow> nat option" where
  "next_up bits from_slot = next_up_word bits from_slot (from_slot div 64)"

fun next_down_word :: "Bitmap \<Rightarrow> nat \<Rightarrow> nat \<Rightarrow> nat option" where
  "next_down_word bits from_slot 0 = None"
| "next_down_word bits from_slot (Suc word) =
     (let value = bits word;
          value = (if word = from_slot div 64 \<and> from_slot mod 64 \<noteq> 63
                   then value AND (push_bit (from_slot mod 64 + 1) 1 - 1) else value)
      in if value \<noteq> 0 then Some (word * 64 + (63 - countl_zero value)) else next_down_word bits from_slot word)"

definition next_down :: "Bitmap \<Rightarrow> nat \<Rightarrow> nat option" where
  "next_down bits from_slot = next_down_word bits from_slot (from_slot div 64 + 1)"

definition best_slot :: "BookSide \<Rightarrow> bool \<Rightarrow> nat option" where
  "best_slot side is_bid = (if is_bid then next_down (bs_bits side) (kBandWidth - 1) else next_up (bs_bits side) 0)"

definition next_worse :: "Bitmap \<Rightarrow> bool \<Rightarrow> nat \<Rightarrow> nat option" where
  "next_worse bits is_bid slot =
     (if is_bid then (if slot = 0 then None else next_down bits (slot - 1))
      else (if slot + 1 \<ge> kBandWidth then None else next_up bits (slot + 1)))"

subsection \<open>Facts\<close>

definition slot_bit :: "Bitmap \<Rightarrow> nat \<Rightarrow> bool" where
  "slot_bit bits slot = bit (bits (slot div 64)) (slot mod 64)"

lemma kBandWidth [simp]: "kBandWidth = 1024"
  by (simp add: kBandWidth_def kContiguousMinPrice_def kContiguousMaxPrice_def)

lemma kBitmapWords [simp]: "kBitmapWords = 16"
  by (simp add: kBitmapWords_def)

lemma slot_bit_set [simp]: "slot_bit (set_slot_bit slot bits) k = (k = slot \<or> slot_bit bits k)"
proof -
  have "k = slot \<longleftrightarrow> k div 64 = slot div 64 \<and> k mod 64 = slot mod 64" by (metis div_mult_mod_eq)
  then show ?thesis by (auto simp: slot_bit_def set_slot_bit_def bit_simps)
qed

lemma slot_bit_clear [simp]: "slot_bit (clear_slot_bit slot bits) k = (k \<noteq> slot \<and> slot_bit bits k)"
proof -
  have "k = slot \<longleftrightarrow> k div 64 = slot div 64 \<and> k mod 64 = slot mod 64" by (metis div_mult_mod_eq)
  then show ?thesis by (auto simp: slot_bit_def clear_slot_bit_def bit_simps)
qed

lemma word_zero_bits: "(v :: 64 word) = 0 \<longleftrightarrow> find (bit v) [0..<64] = None"
  by (auto simp: find_None_iff bit_eq_iff dest: bit_imp_le_length)

lemma word_zero_bits_rev: "(v :: 64 word) = 0 \<longleftrightarrow> find (bit v) (rev [0..<64]) = None"
  by (auto simp: find_None_iff bit_eq_iff dest: bit_imp_le_length)

lemma countr_zero_find: "v \<noteq> 0 \<Longrightarrow> find (bit v) [0..<64] = Some (countr_zero v)"
  using word_zero_bits [of v]
  by (auto simp: find_Some_takeWhile [of "bit v"] countr_zero_def split: if_splits)

lemma countl_zero_find: "v \<noteq> 0 \<Longrightarrow> find (bit v) (rev [0..<64]) = Some (63 - countl_zero v)"
  using word_zero_bits_rev [of v]
  by (auto simp: find_Some_takeWhile [of "bit v"] countl_zero_def rev_nth split: if_splits)

lemma upt_block: "[64 * w..<64 * (w + 1)] = map (\<lambda>i. 64 * w + i) [0..<64]"
  using map_add_upt [of "64 * w" 64] by (simp add: add.commute)

lemma upt_block_Suc: "[64 * w..<64 * Suc w] = map (\<lambda>i. 64 * w + i) [0..<64]"
  using upt_block [of w] by simp

lemma slot_bit_block: "i < 64 \<Longrightarrow> slot_bit bits (64 * w + i) = bit (bits w) i"
  by (simp add: slot_bit_def)

lemma slot_split: "n = 64 * (n div 64) + n mod 64" "n mod 64 < (64 :: nat)"
  by simp_all

lemma next_up_word_spec:
  assumes "from_slot div 64 \<le> word"
  shows "next_up_word bits from_slot word = find (slot_bit bits) [max from_slot (64 * word)..<1024]"
  using assms
proof (induction bits from_slot word rule: next_up_word.induct)
  case (1 bits from_slot word)
  show ?case
  proof (cases "word < 16")
    case False
    then show ?thesis by (simp add: next_up_word.simps [of bits from_slot word])
  next
    case True
    define v where "v = (if word = from_slot div 64 then bits word AND push_bit (from_slot mod 64) (- 1) else bits word)"
    have less: "from_slot < 64 * (word + 1)" using 1(2) div_less_iff_less_mult [of 64 from_slot "word + 1"] by (simp add: mult.commute)
    have split: "[max from_slot (64 * word)..<1024] =
        [max from_slot (64 * word)..<64 * (word + 1)] @ [64 * (word + 1)..<1024]"
      using True less upt_add_eq_append [of "max from_slot (64 * word)" "64 * (word + 1)" "1024 - 64 * (word + 1)"] by simp
    have bit: "bit v i \<longleftrightarrow> slot_bit bits (64 * word + i) \<and> from_slot \<le> 64 * word + i" if "i < 64" for i
    proof (cases "word = from_slot div 64")
      case eq: True
      have "from_slot \<le> 64 * word + i \<longleftrightarrow> from_slot mod 64 \<le> i"
        using eq slot_split(1) [of from_slot] by linarith
      then show ?thesis using that eq by (auto simp: v_def slot_bit_block bit_simps)
    next
      case False
      then have "from_slot \<le> 64 * word + i" using 1(2) slot_split [of from_slot] by linarith
      then show ?thesis using that False by (simp add: v_def slot_bit_block)
    qed
    have "map_option (\<lambda>i. 64 * word + i) (find (bit v) [0..<64]) =
        find (\<lambda>k. slot_bit bits k \<and> from_slot \<le> k) [64 * word..<64 * (word + 1)]"
      unfolding upt_block find_map using bit by (auto intro!: arg_cong [where f = "map_option _"] find_cong')
    also have "\<dots> = find (slot_bit bits) [max from_slot (64 * word)..<64 * (word + 1)]" by (rule find_from) simp
    finally have block: "find (slot_bit bits) [max from_slot (64 * word)..<64 * (word + 1)] =
        map_option (\<lambda>i. 64 * word + i) (find (bit v) [0..<64])" by simp
    show ?thesis
    proof (cases "v = 0")
      case zero: True
      have "next_up_word bits from_slot word = next_up_word bits from_slot (word + 1)"
        using True zero by (simp add: next_up_word.simps [of bits from_slot word] v_def [symmetric])
      also have "\<dots> = find (slot_bit bits) [max from_slot (64 * (word + 1))..<1024]"
        using 1(1) True zero 1(2) by (simp add: v_def [symmetric])
      finally have step: "next_up_word bits from_slot word = find (slot_bit bits) [max from_slot (64 * (word + 1))..<1024]" .
      have none: "find (bit v) [0..<64] = None" by (rule word_zero_bits [THEN iffD1, OF zero])
      have mx: "max from_slot (64 * (word + 1)) = 64 * (word + 1)" using less by simp
      show ?thesis unfolding step split find_append block none mx by (simp only: option.map option.case)
    next
      case False
      have step: "next_up_word bits from_slot word = Some (64 * word + countr_zero v)"
        using True False by (simp add: next_up_word.simps [of bits from_slot word] v_def [symmetric])
      show ?thesis
        unfolding step split find_append block countr_zero_find [OF False] by (simp only: option.map option.case)
    qed
  qed
qed

lemma next_up_spec: "next_up bits from_slot = find (slot_bit bits) [from_slot..<1024]"
  by (simp add: next_up_def next_up_word_spec max_absorb1 mult.commute)

lemma next_down_word_spec:
  assumes "n \<le> from_slot div 64 + 1"
  shows "next_down_word bits from_slot n = find (slot_bit bits) (rev [0..<min (Suc from_slot) (64 * n)])"
  using assms
proof (induction n)
  case (Suc w)
  define v where "v = (if w = from_slot div 64 \<and> from_slot mod 64 \<noteq> 63
      then bits w AND (push_bit (from_slot mod 64 + 1) 1 - 1) else bits w)"
  let ?m = "min (Suc from_slot) (64 * Suc w)"
  have le: "64 * w \<le> from_slot" using Suc.prems slot_split(1) [of from_slot] by linarith
  then have split: "[0..<?m] = [0..<64 * w] @ [64 * w..<?m]"
    using upt_add_eq_append [of 0 "64 * w" "?m - 64 * w"] by simp
  have bit: "bit v i \<longleftrightarrow> slot_bit bits (64 * w + i) \<and> 64 * w + i \<le> from_slot" if "i < 64" for i
  proof (cases "w = from_slot div 64 \<and> from_slot mod 64 \<noteq> 63")
    case True
    have m: "push_bit (from_slot mod 64 + 1) 1 - 1 = (mask (from_slot mod 64 + 1) :: 64 word)"
      by (simp add: mask_eq_exp_minus_1 push_bit_eq_mult)
    have "64 * w + i \<le> from_slot \<longleftrightarrow> i \<le> from_slot mod 64" using True slot_split(1) [of from_slot] by linarith
    then show ?thesis using that True unfolding v_def m by (auto simp: slot_bit_block bit_simps)
  next
    case False
    then have "w < from_slot div 64 \<or> w = from_slot div 64 \<and> from_slot mod 64 = 63" using Suc.prems by linarith
    then have "64 * w + i \<le> from_slot" using that slot_split(1) [of from_slot] by (elim disjE conjE) linarith+
    moreover have "v = bits w" unfolding v_def by (rule if_not_P [OF False])
    ultimately show ?thesis using that by (simp add: slot_bit_block)
  qed
  have "map_option (\<lambda>i. 64 * w + i) (find (bit v) (rev [0..<64])) =
      find (\<lambda>k. slot_bit bits k \<and> k \<le> from_slot) (rev [64 * w..<64 * Suc w])"
    unfolding upt_block_Suc rev_map find_map using bit by (auto intro!: arg_cong [where f = "map_option _"] find_cong')
  also have "\<dots> = find (slot_bit bits) (rev [64 * w..<?m])" using le by (intro find_upto) simp_all
  finally have block: "find (slot_bit bits) (rev [64 * w..<?m]) =
      map_option (\<lambda>i. 64 * w + i) (find (bit v) (rev [0..<64]))" by simp
  have small: "min (Suc from_slot) (64 * w) = 64 * w" using le by simp
  show ?case
  proof (cases "v = 0")
    case True
    have none: "find (bit v) (rev [0..<64]) = None" by (rule word_zero_bits_rev [THEN iffD1, OF True])
    have step: "next_down_word bits from_slot (Suc w) = find (slot_bit bits) (rev [0..<64 * w])"
      using True Suc small by (simp add: v_def [symmetric])
    show ?thesis unfolding step split rev_append find_append block none by (simp only: option.map option.case)
  next
    case False
    have step: "next_down_word bits from_slot (Suc w) = Some (64 * w + (63 - countl_zero v))"
      using False by (simp add: v_def [symmetric])
    show ?thesis
      unfolding step split rev_append find_append block countl_zero_find [OF False]
      by (simp only: option.map option.case)
  qed
qed simp

lemma next_down_spec: "next_down bits from_slot = find (slot_bit bits) (rev [0..<Suc from_slot])"
proof -
  have "Suc from_slot \<le> 64 * (from_slot div 64 + 1)" using div_less_iff_less_mult [of 64 from_slot "from_slot div 64 + 1"] by (simp add: mult.commute)
  then show ?thesis unfolding next_down_def next_down_word_spec [OF order_refl] by (simp only: min_absorb1)
qed

section \<open>Walking the occupied levels\<close>

definition slots :: "bool \<Rightarrow> nat list" where
  "slots is_bid = (if is_bid then rev [0..<1024] else [0..<1024])"

lemma best_slot_spec: "best_slot side is_bid = find (slot_bit (bs_bits side)) (slots is_bid)"
proof -
  have "next_down (bs_bits side) 1023 = find (slot_bit (bs_bits side)) (rev [0..<1024])"
    unfolding next_down_spec by simp
  then show ?thesis by (simp only: best_slot_def slots_def next_up_spec kBandWidth) simp
qed

lemma next_worse_spec:
  "next_worse bits True slot = find (slot_bit bits) (rev [0..<slot])"
  "next_worse bits False slot = find (slot_bit bits) [Suc slot..<1024]"
proof -
  show "next_worse bits True slot = find (slot_bit bits) (rev [0..<slot])"
    by (cases slot) (simp_all add: next_worse_def next_down_spec del: upt_Suc)
  show "next_worse bits False slot = find (slot_bit bits) [Suc slot..<1024]"
    by (simp add: next_worse_def next_up_spec)
qed

text \<open>
  \<^verbatim>\<open>for_each_occupied\<close>: the closure is a function of the slot, its level and the variables it
  captures by reference; it returns them updated, and whether to go on.
\<close>

function for_each_from :: "BookSide \<Rightarrow> bool \<Rightarrow> (nat \<Rightarrow> FlatLevel \<Rightarrow> 'a \<Rightarrow> 'a \<times> bool) \<Rightarrow> nat option \<Rightarrow> 'a \<Rightarrow> 'a" where
  "for_each_from side is_bid fn None acc = acc"
| "for_each_from side is_bid fn (Some slot) acc =
     (let (acc', go) = fn slot (bs_levels side slot) acc
      in if \<not> go then acc' else for_each_from side is_bid fn (next_worse (bs_bits side) is_bid slot) acc')"
  by pat_completeness auto
termination
proof (relation "measure (\<lambda>(_, is_bid, _, slot, _). case slot of None \<Rightarrow> 0 | Some k \<Rightarrow> Suc (if is_bid then k else 1024 - k))",
    goal_cases)
  case (2 side is_bid fn slot acc x acc' go)
  show ?case
  proof (cases "next_worse (bs_bits side) is_bid slot")
    case (Some k)
    then have "if is_bid then k < slot else slot < k \<and> k < 1024"
      by (cases is_bid) (auto simp: next_worse_spec dest!: find_SomeD)
    with Some show ?thesis by (auto split: if_splits)
  qed simp
qed simp

definition for_each_occupied :: "BookSide \<Rightarrow> bool \<Rightarrow> (nat \<Rightarrow> FlatLevel \<Rightarrow> 'a \<Rightarrow> 'a \<times> bool) \<Rightarrow> 'a \<Rightarrow> 'a" where
  "for_each_occupied side is_bid fn acc = for_each_from side is_bid fn (best_slot side is_bid) acc"

fun fold_until :: "('x \<Rightarrow> 'a \<Rightarrow> 'a \<times> bool) \<Rightarrow> 'x list \<Rightarrow> 'a \<Rightarrow> 'a" where
  "fold_until f [] acc = acc"
| "fold_until f (x # xs) acc = (let (acc', go) = f x acc in if \<not> go then acc' else fold_until f xs acc')"

lemma for_each_up:
  "for_each_from side False fn (find (slot_bit (bs_bits side)) [k..<1024]) acc =
     fold_until (\<lambda>slot. fn slot (bs_levels side slot)) (filter (slot_bit (bs_bits side)) [k..<1024]) acc"
proof (induction "1024 - k" arbitrary: k acc)
  case 0
  then show ?case by simp
next
  case (Suc n)
  then have up: "[k..<1024] = k # [Suc k..<1024]" and n: "n = 1024 - Suc k" by (simp_all add: upt_conv_Cons)
  show ?case using Suc.hyps(1) [OF n] by (simp add: up next_worse_spec Let_def case_prod_unfold)
qed

lemma for_each_down:
  "for_each_from side True fn (find (slot_bit (bs_bits side)) (rev [0..<k])) acc =
     fold_until (\<lambda>slot. fn slot (bs_levels side slot)) (filter (slot_bit (bs_bits side)) (rev [0..<k])) acc"
proof (induction k arbitrary: acc)
  case (Suc k)
  then show ?case by (simp add: next_worse_spec Let_def case_prod_unfold)
qed simp

lemma for_each_occupied_fold:
  "for_each_occupied side is_bid fn acc =
     fold_until (\<lambda>slot. fn slot (bs_levels side slot)) (filter (slot_bit (bs_bits side)) (slots is_bid)) acc"
  using for_each_up [of side fn 0 acc] for_each_down [of side fn 1024 acc]
  by (cases is_bid) (simp_all only: for_each_occupied_def best_slot_spec slots_def if_True if_False)

section \<open>Levels\<close>

function advance_head :: "FlatLevel \<Rightarrow> FlatLevel" where
  "advance_head level =
     (if fl_head level < length (fl_orders level) \<and> fo_quantity (fl_orders level ! fl_head level) = 0
      then advance_head (level\<lparr>fl_head := fl_head level + 1\<rparr>) else level)"
  by pat_completeness auto
termination
  by (relation "measure (\<lambda>level. length (fl_orders level) - fl_head level)") auto

declare advance_head.simps [simp del]

definition clear_level :: "nat \<Rightarrow> BookSide \<Rightarrow> BookSide" where
  "clear_level slot side =
     side\<lparr>bs_levels := (bs_levels side)(slot := \<lparr>fl_orders = [], fl_head = 0, fl_alive = 0\<rparr>),
          bs_bits := clear_slot_bit slot (bs_bits side)\<rparr>"

text \<open>The loop of \<^verbatim>\<open>compact_level\<close> over the orders from \<^verbatim>\<open>head\<close> on.\<close>

fun compact_from :: "FlatOrder list \<Rightarrow> FlatOrder list \<Rightarrow> FlatIndex \<Rightarrow> FlatOrder list \<times> FlatIndex" where
  "compact_from [] live idx = (live, idx)"
| "compact_from (ord # orders) live idx =
     (if fo_quantity ord > 0 then
        let idx = (case idx (fo_id ord) of
                     None \<Rightarrow> idx
                   | Some found \<Rightarrow> idx(fo_id ord \<mapsto> found\<lparr>cl_pos := to_u32 (length live)\<rparr>))
        in compact_from orders (live @ [ord]) idx
      else compact_from orders live idx)"

definition compact_level :: "FlatLevel \<Rightarrow> FlatIndex \<Rightarrow> FlatLevel \<times> FlatIndex" where
  "compact_level level idx =
     (let (live, idx) = compact_from (drop (fl_head level) (fl_orders level)) [] idx
      in (level\<lparr>fl_orders := live, fl_head := 0\<rparr>, idx))"

definition maybe_compact :: "FlatLevel \<Rightarrow> FlatIndex \<Rightarrow> FlatLevel \<times> FlatIndex" where
  "maybe_compact level idx =
     (let dead = length (fl_orders level) - fl_alive level
      in if length (fl_orders level) \<ge> kCompactMinSize \<and> dead > fl_alive level
         then compact_level level idx else (level, idx))"

definition ct_rest :: "OrderId \<Rightarrow> Side \<Rightarrow> Price \<Rightarrow> Quantity \<Rightarrow> ContiguousStore \<Rightarrow> ContiguousStore \<times> bool" where
  "ct_rest i side price quantity s =
     (if \<not> in_band price then (s, False)
      else
        let bs = side_ref side s; slot = slot_of price; level = bs_levels bs slot;
            bits = (if fl_alive level = 0 then set_slot_bit slot (bs_bits bs) else bs_bits bs);
            idx = (ct_index s)(i \<mapsto> \<lparr>cl_side = side, cl_price = price, cl_pos = to_u32 (length (fl_orders level))\<rparr>);
            level = level\<lparr>fl_orders := fl_orders level @ [\<lparr>fo_id = i, fo_quantity = quantity\<rparr>],
                          fl_alive := to_u32 (fl_alive level + 1)\<rparr>
        in (set_side_ref side \<lparr>bs_levels = (bs_levels bs)(slot := level), bs_bits = bits\<rparr> (s\<lparr>ct_index := idx\<rparr>), True))"

section \<open>Matching\<close>

definition ct_fill_front_order :: "FlatLevel \<Rightarrow> Price \<Rightarrow> FlatIndex \<Rightarrow> MatchContext \<Rightarrow> FlatLevel \<times> FlatIndex \<times> MatchContext" where
  "ct_fill_front_order level level_price idx ctx =
     (let head = fl_head level; maker = fl_orders level ! head;
          (ctx', q', filled) = fill_maker ctx (fo_id maker) (fo_quantity maker) level_price;
          level = level\<lparr>fl_orders := (fl_orders level)[head := maker\<lparr>fo_quantity := q'\<rparr>]\<rparr>
      in if filled
         then (advance_head (level\<lparr>fl_alive := fl_alive level - 1\<rparr>), idx(fo_id maker := None), ctx')
         else (level, idx, ctx'))"

lemma advance_head_keeps [simp]:
  "fl_orders (advance_head level) = fl_orders level" "fl_alive (advance_head level) = fl_alive level"
  by (induction level rule: advance_head.induct, subst advance_head.simps, simp)+

lemma ct_fill_front_order_progress:
  assumes "0 < mc_quantity ctx" "0 < fl_alive level" "ct_fill_front_order level p idx ctx = (level', idx', ctx')"
  shows "fl_alive level' + unat (mc_quantity ctx') < fl_alive level + unat (mc_quantity ctx)"
  using assms
  by (auto simp: ct_fill_front_order_def fill_maker_def Let_def min_def unat_sub word_le_nat_alt
      word_less_nat_alt word_sub_zero_iff split: if_splits)

function ct_fill_level :: "FlatLevel \<Rightarrow> Price \<Rightarrow> FlatIndex \<Rightarrow> MatchContext \<Rightarrow> FlatLevel \<times> FlatIndex \<times> MatchContext" where
  "ct_fill_level level level_price idx ctx =
     (if mc_quantity ctx > 0 \<and> fl_alive level > 0 then
        let (level', idx', ctx') = ct_fill_front_order level level_price idx ctx
        in ct_fill_level level' level_price idx' ctx'
      else (level, idx, ctx))"
  by pat_completeness auto
termination
  by (relation "measure (\<lambda>(level, _, _, ctx). fl_alive level + unat (mc_quantity ctx))")
    (auto dest: ct_fill_front_order_progress [OF _ _ sym])

declare ct_fill_level.simps [simp del]

lemma ct_fill_level_exit:
  "ct_fill_level level p idx ctx = (level', idx', ctx') \<Longrightarrow> fl_alive level' = 0 \<or> mc_quantity ctx' = 0"
proof (induction level p idx ctx rule: ct_fill_level.induct)
  case (1 level p idx ctx)
  then show ?case
    by (cases "mc_quantity ctx > 0 \<and> fl_alive level > 0")
      (auto simp: ct_fill_level.simps [of level p idx ctx] word_neq_0_conv split: prod.splits)
qed

function ct_match_against :: "BookSide \<Rightarrow> bool \<Rightarrow> FlatIndex \<Rightarrow> MatchContext \<Rightarrow> BookSide \<times> FlatIndex \<times> MatchContext" where
  "ct_match_against opposite opposite_is_bid idx ctx =
     (if mc_quantity ctx > 0 then
        case best_slot opposite opposite_is_bid of
          None \<Rightarrow> (opposite, idx, ctx)
        | Some slot \<Rightarrow>
            let level_price = price_of slot
            in if \<not> can_match_level (mc_taker_is_buy ctx) (mc_is_market ctx) (mc_limit ctx) level_price
               then (opposite, idx, ctx)
               else
                 let (level, idx, ctx) = ct_fill_level (bs_levels opposite slot) level_price idx ctx
                 in if fl_alive level = 0
                    then ct_match_against (clear_level slot opposite) opposite_is_bid idx ctx
                    else
                      let (level, idx) = maybe_compact level idx
                      in ct_match_against (opposite\<lparr>bs_levels := (bs_levels opposite)(slot := level)\<rparr>) opposite_is_bid idx ctx
      else (opposite, idx, ctx))"
  by pat_completeness auto
termination
proof (relation "measures [\<lambda>(opp, _, _, _). card {k. k < 1024 \<and> slot_bit (bs_bits opp) k}, \<lambda>(_, _, _, ctx). unat (mc_quantity ctx)]",
    goal_cases)
  case (2 opp is_bid idx ctx slot price x level y idx' ctx')
  then have "slot < 1024" "slot_bit (bs_bits opp) slot"
    using find_SomeD [of "slot_bit (bs_bits opp)" "slots is_bid" slot] by (auto simp: best_slot_spec slots_def split: if_splits)
  then have "{k. k < 1024 \<and> slot_bit (bs_bits (clear_level slot opp)) k} \<subset> {k. k < 1024 \<and> slot_bit (bs_bits opp) k}"
    by (auto simp: clear_level_def)
  then show ?case by (simp add: psubset_card_mono)
next
  case (3 opp is_bid idx ctx slot price x level y idx' ctx')
  then show ?case by (auto simp: word_zero_less_unat dest!: ct_fill_level_exit [OF sym])
qed simp

declare ct_match_against.simps [simp del]

definition ct_match_opposite :: "Side \<Rightarrow> MatchContext \<Rightarrow> ContiguousStore \<Rightarrow> ContiguousStore \<times> MatchContext" where
  "ct_match_opposite side ctx s =
     (if side = Buy then
        let (bs, idx, ctx) = ct_match_against (ct_asks s) False (ct_index s) ctx
        in (s\<lparr>ct_asks := bs, ct_index := idx\<rparr>, ctx)
      else
        let (bs, idx, ctx) = ct_match_against (ct_bids s) True (ct_index s) ctx
        in (s\<lparr>ct_bids := bs, ct_index := idx\<rparr>, ctx))"

text \<open>The inner loop of \<^verbatim>\<open>simulate_remainder\<close>; a tombstone takes nothing.\<close>

fun simulate_level :: "FlatOrder list \<Rightarrow> Quantity \<Rightarrow> Quantity" where
  "simulate_level [] quantity = quantity"
| "simulate_level (ord # orders) quantity =
     (if quantity > 0 then simulate_level orders (quantity - min quantity (fo_quantity ord)) else quantity)"

definition simulate_remainder :: "Side \<Rightarrow> Price \<Rightarrow> Quantity \<Rightarrow> ContiguousStore \<Rightarrow> Quantity" where
  "simulate_remainder side limit quantity s =
     (let taker_is_buy = (side = Buy); opposite = (if taker_is_buy then ct_asks s else ct_bids s)
      in for_each_occupied opposite (\<not> taker_is_buy)
           (\<lambda>slot level quantity.
              if quantity = 0 \<or> \<not> can_match_level taker_is_buy False limit (price_of slot) then (quantity, False)
              else
                let quantity = simulate_level (drop (fl_head level) (fl_orders level)) quantity
                in (quantity, quantity > 0))
           quantity)"

definition ct_can_store_limit :: "Side \<Rightarrow> Price \<Rightarrow> Quantity \<Rightarrow> TimeInForce \<Rightarrow> ContiguousStore \<Rightarrow> bool" where
  "ct_can_store_limit side price quantity tif s =
     (if tif = IOC \<or> in_band price then True else simulate_remainder side price quantity s = 0)"

definition ct_contains :: "OrderId \<Rightarrow> ContiguousStore \<Rightarrow> bool" where
  "ct_contains i s \<longleftrightarrow> ct_index s i \<noteq> None"

section \<open>Public operations\<close>

definition ct_add_limit :: "LimitInput \<Rightarrow> ContiguousStore \<Rightarrow> ContiguousStore \<times> Trade list" where
  "ct_add_limit inp s =
     (if \<not> ct_can_store_limit (li_side inp) (li_price inp) (li_quantity inp) (li_tif inp) s then (s, [])
      else
        let (s, result) = match_incoming (li_id inp) (li_side inp) (li_price inp) False (li_quantity inp)
                            (ct_contains (li_id inp)) ct_match_opposite s
        in (if should_rest_limit result (li_tif inp)
            then fst (ct_rest (li_id inp) (li_side inp) (li_price inp) (mr_remainder result) s) else s,
            mr_trades result))"

definition ct_add_market :: "OrderId \<Rightarrow> Side \<Rightarrow> Quantity \<Rightarrow> ContiguousStore \<Rightarrow> ContiguousStore \<times> Trade list" where
  "ct_add_market i side quantity s =
     (let (s, result) = match_incoming i side (Ticks 0) True quantity (ct_contains i) ct_match_opposite s
      in (s, mr_trades result))"

definition remove_resting :: "FlatLocator \<Rightarrow> ContiguousStore \<Rightarrow> ContiguousStore" where
  "remove_resting loc s =
     (let bs = side_ref (cl_side loc) s; slot = slot_of (cl_price loc); level = bs_levels bs slot;
          level = level\<lparr>fl_orders := (fl_orders level)[cl_pos loc := (fl_orders level ! cl_pos loc)\<lparr>fo_quantity := 0\<rparr>],
                        fl_alive := fl_alive level - 1\<rparr>
      in if fl_alive level = 0
         then set_side_ref (cl_side loc) (clear_level slot (bs\<lparr>bs_levels := (bs_levels bs)(slot := level)\<rparr>)) s
         else
           let level = (if cl_pos loc = fl_head level then advance_head level else level);
               (level, idx) = maybe_compact level (ct_index s)
           in set_side_ref (cl_side loc) (bs\<lparr>bs_levels := (bs_levels bs)(slot := level)\<rparr>) (s\<lparr>ct_index := idx\<rparr>))"

definition ct_cancel :: "OrderId \<Rightarrow> ContiguousStore \<Rightarrow> ContiguousStore \<times> bool" where
  "ct_cancel i s =
     (case ct_index s i of
        None \<Rightarrow> (s, False)
      | Some loc \<Rightarrow> (remove_resting loc (s\<lparr>ct_index := (ct_index s)(i := None)\<rparr>), True))"

definition reduces_in_place :: "FlatLocator \<Rightarrow> Price \<Rightarrow> Quantity \<Rightarrow> ContiguousStore \<Rightarrow> bool" where
  "reduces_in_place loc new_price new_quantity s =
     (let ord = fl_orders (bs_levels (side_ref (cl_side loc) s) (slot_of (cl_price loc))) ! cl_pos loc
      in new_price = cl_price loc \<and> new_quantity \<le> fo_quantity ord)"

definition ct_can_apply_modify :: "OrderId \<Rightarrow> Price \<Rightarrow> Quantity \<Rightarrow> ContiguousStore \<Rightarrow> bool" where
  "ct_can_apply_modify i new_price new_quantity s =
     (case ct_index s i of
        None \<Rightarrow> True
      | Some loc \<Rightarrow>
          if new_quantity = 0 then True
          else if reduces_in_place loc new_price new_quantity s then True
          else if in_band new_price then True
          else simulate_remainder (cl_side loc) new_price new_quantity s = 0)"

definition ct_modify :: "OrderId \<Rightarrow> Price \<Rightarrow> Quantity \<Rightarrow> ContiguousStore \<Rightarrow> ContiguousStore \<times> Trade list" where
  "ct_modify i new_price new_quantity s =
     (case ct_index s i of
        None \<Rightarrow> (s, [])
      | Some loc \<Rightarrow>
          if \<not> ct_can_apply_modify i new_price new_quantity s then (s, [])
          else if new_quantity = 0 then (fst (ct_cancel i s), [])
          else if reduces_in_place loc new_price new_quantity s then
            let bs = side_ref (cl_side loc) s; slot = slot_of (cl_price loc); level = bs_levels bs slot;
                level = level\<lparr>fl_orders := (fl_orders level)[cl_pos loc :=
                                (fl_orders level ! cl_pos loc)\<lparr>fo_quantity := new_quantity\<rparr>]\<rparr>
            in (set_side_ref (cl_side loc) (bs\<lparr>bs_levels := (bs_levels bs)(slot := level)\<rparr>) s, [])
          else ct_add_limit \<lparr>li_id = i, li_side = cl_side loc, li_price = new_price, li_quantity = new_quantity,
                             li_tif = GTC\<rparr> (fst (ct_cancel i s)))"

section \<open>Queries\<close>

fun count_flat_level :: "FlatOrder list \<Rightarrow> Quantity \<Rightarrow> nat \<times> Quantity" where
  "count_flat_level [] quantity = (0, quantity)"
| "count_flat_level (ord # orders) quantity =
     (if quantity > 0 then
        if fo_quantity ord > 0 then
          let (n, quantity) = count_flat_level orders (quantity - min quantity (fo_quantity ord)) in (n + 1, quantity)
        else count_flat_level orders quantity
      else (0, quantity))"

definition count_flat_matches :: "BookSide \<Rightarrow> bool \<Rightarrow> MatchQuery \<Rightarrow> nat" where
  "count_flat_matches opposite opposite_is_bid query =
     fst (for_each_occupied opposite opposite_is_bid
       (\<lambda>slot level (count, quantity).
          if quantity = 0 \<or> \<not> can_match_level (mq_taker_is_buy query) (mq_is_market query) (mq_limit query) (price_of slot)
          then ((count, quantity), False)
          else
            let (n, quantity) = count_flat_level (drop (fl_head level) (fl_orders level)) quantity
            in ((count + n, quantity), quantity > 0))
       (0, mq_quantity query))"

definition ct_best_bid :: "ContiguousStore \<Rightarrow> Price option" where
  "ct_best_bid s = map_option price_of (best_slot (ct_bids s) True)"

definition ct_best_ask :: "ContiguousStore \<Rightarrow> Price option" where
  "ct_best_ask s = map_option price_of (best_slot (ct_asks s) False)"

definition level_total :: "FlatLevel \<Rightarrow> QuantityTotal" where
  "level_total level = foldl (\<lambda>total ord. total + ucast (fo_quantity ord)) 0 (drop (fl_head level) (fl_orders level))"

definition ct_quantity_at :: "Side \<Rightarrow> Price \<Rightarrow> ContiguousStore \<Rightarrow> QuantityTotal" where
  "ct_quantity_at side price s =
     (if \<not> in_band price then 0 else level_total (bs_levels (side_ref side s) (slot_of price)))"

definition ct_order_count :: "ContiguousStore \<Rightarrow> nat" where
  "ct_order_count s = card (dom (ct_index s))"

definition ct_fill_count :: "Side \<Rightarrow> Price \<Rightarrow> bool \<Rightarrow> Quantity \<Rightarrow> ContiguousStore \<Rightarrow> nat" where
  "ct_fill_count taker_side limit is_market quantity s =
     (if taker_side \<noteq> Buy \<and> taker_side \<noteq> Sell then 0
      else
        let taker_is_buy = (taker_side = Buy); opposite = (if taker_is_buy then ct_asks s else ct_bids s)
        in count_flat_matches opposite (\<not> taker_is_buy)
             \<lparr>mq_taker_is_buy = taker_is_buy, mq_limit = limit, mq_is_market = is_market, mq_quantity = quantity\<rparr>)"

definition ct_collect_levels :: "BookSide \<Rightarrow> bool \<Rightarrow> LevelView list" where
  "ct_collect_levels side is_bid =
     for_each_occupied side is_bid
       (\<lambda>slot level levels. (levels @ [\<lparr>lv_price = price_of slot, lv_quantity = level_total level\<rparr>], True)) []"

definition ct_bid_levels :: "ContiguousStore \<Rightarrow> LevelView list" where
  "ct_bid_levels s = ct_collect_levels (ct_bids s) True"

definition ct_ask_levels :: "ContiguousStore \<Rightarrow> LevelView list" where
  "ct_ask_levels s = ct_collect_levels (ct_asks s) False"

definition ct_append_orders :: "BookSide \<Rightarrow> bool \<Rightarrow> Side \<Rightarrow> Order list \<Rightarrow> Order list" where
  "ct_append_orders side is_bid side_value out =
     for_each_occupied side is_bid
       (\<lambda>slot level out.
          (foldl (\<lambda>out ord. if fo_quantity ord > 0
                    then out @ [\<lparr>o_id = fo_id ord, o_side = side_value, o_price = price_of slot, o_quantity = fo_quantity ord\<rparr>]
                    else out) out (drop (fl_head level) (fl_orders level)), True))
       out"

definition ct_resting_orders :: "ContiguousStore \<Rightarrow> Order list" where
  "ct_resting_orders s = ct_append_orders (ct_asks s) False Sell (ct_append_orders (ct_bids s) True Buy [])"

end
