(* ===== verification/Contiguous_Levels.thy ===== *)
theory Contiguous_Levels
  imports Baseline_Refine Contiguous_Book
begin

text \<open>
  The contiguous storage, first part of its refinement: a side as a function from slots to levels
  and the level map it stands for, and one level with its cursor, tombstones, compaction and the
  positions the index holds for its orders.
\<close>

section \<open>Slots and prices\<close>

lemma sint_small: "n < 2 ^ 62 \<Longrightarrow> sint (of_nat n :: 64 word) = int n"
  by (simp add: signed_of_nat signed_take_bit_eq_if_positive bit_take_bit_iff take_bit_int_eq_self bit_iff_odd
      div_pos_pos_trivial)

lemma price_of_sint: "slot < 1024 \<Longrightarrow> sint (ticks (price_of slot)) = int slot + 1"
  using sint_small [of "slot + 1"] by (simp add: price_of_def kContiguousMinPrice_def add.commute)

lemma price_of_less: "i < 1024 \<Longrightarrow> j < 1024 \<Longrightarrow> price_of i < price_of j \<longleftrightarrow> i < j"
  by (simp add: less_Price_def price_of_sint, linarith)

lemma price_of_inject: "i < 1024 \<Longrightarrow> j < 1024 \<Longrightarrow> price_of i = price_of j \<longleftrightarrow> i = j"
  using price_of_less [of i j] price_of_less [of j i] by (metis less_irrefl linorder_neqE_nat)

lemma in_band_sint: "in_band p \<longleftrightarrow> 1 \<le> sint (ticks p) \<and> sint (ticks p) \<le> 1024"
  by (simp add: in_band_def less_eq_Price_def kContiguousMinPrice_def kContiguousMaxPrice_def)

lemma in_band_price_of: "slot < 1024 \<Longrightarrow> in_band (price_of slot)"
  by (simp add: in_band_sint price_of_sint)

lemma in_band_slot:
  assumes "in_band p"
  shows "slot_of p < 1024" "price_of (slot_of p) = p"
proof -
  obtain w where p: "p = Ticks w" by (cases p)
  define n where "n = nat (sint w)"
  have n: "sint w = int n" "1 \<le> n" "n \<le> 1024" using assms by (simp add: p in_band_sint n_def, linarith?)+
  have w: "w = of_nat n" using n(1) by (metis of_int_of_nat_eq of_int_sint scast_id)
  have "w - 1 = of_nat (n - 1)" using n(2) by (simp add: w of_nat_diff)
  then have "unat (w - 1) = n - 1" using n(3) by (simp add: unsigned_of_nat take_bit_nat_eq_self)
  then show "slot_of p < 1024" "price_of (slot_of p) = p"
    using n(2,3) by (simp_all add: p slot_of_def price_of_def kContiguousMinPrice_def w of_nat_diff)
qed

lemma slot_of_price_of [simp]: "slot < 1024 \<Longrightarrow> slot_of (price_of slot) = slot"
  using in_band_slot [OF in_band_price_of [of slot]] price_of_inject by blast

section \<open>A side as a function of the slot\<close>

text \<open>The level map of a side whose level at a slot is given by a function; an empty level is absent.\<close>

definition entries :: "bool \<Rightarrow> (nat \<Rightarrow> Level) \<Rightarrow> LevelMap" where
  "entries is_bid f = map (\<lambda>slot. (price_of slot, f slot)) (filter (\<lambda>slot. f slot \<noteq> []) (slots is_bid))"

lemma set_slots [simp]: "set (slots is_bid) = {..<1024}"
  by (auto simp: slots_def)

lemma slots_sorted: "sorted_wrt (\<lambda>i j. price_before is_bid (price_of i) (price_of j)) (slots is_bid)"
proof -
  have up: "sorted_wrt (\<lambda>i j. i < j \<and> i < 1024 \<and> j < 1024) [0..<1024 :: nat]"
    using sorted_wrt_upt [of 0 1024] by (rule sorted_wrt_mono_rel [rotated]) auto
  show ?thesis
  proof (cases is_bid)
    case True
    have "sorted_wrt (\<lambda>i j. j < i \<and> i < 1024 \<and> j < 1024) (rev [0..<1024 :: nat])"
      unfolding sorted_wrt_rev using up by (rule sorted_wrt_mono_rel [rotated]) auto
    then have "sorted_wrt (\<lambda>i j. price_before is_bid (price_of i) (price_of j)) (rev [0..<1024])"
      by (rule sorted_wrt_mono_rel [rotated]) (simp add: True price_before_def price_of_less)
    with True show ?thesis by (simp only: slots_def if_True)
  next
    case False
    from up have "sorted_wrt (\<lambda>i j. price_before is_bid (price_of i) (price_of j)) [0..<1024]"
      by (rule sorted_wrt_mono_rel [rotated]) (simp add: False price_before_def price_of_less)
    with False show ?thesis by (simp only: slots_def if_False)
  qed
qed

lemma entries_sorted: "std_map_sorted (price_before is_bid) (entries is_bid f)"
  unfolding std_map_sorted_def entries_def map_map
  by (simp add: sorted_wrt_map sorted_wrt_filter slots_sorted)

lemma map_of_entries:
  "map_of (entries is_bid f) p = (if in_band p \<and> f (slot_of p) \<noteq> [] then Some (f (slot_of p)) else None)"
proof -
  have d: "distinct (map fst (entries is_bid f))" by (rule side_map.sorted_distinct [OF entries_sorted])
  show ?thesis
  proof (cases "in_band p \<and> f (slot_of p) \<noteq> []")
    case True
    then have "(p, f (slot_of p)) \<in> set (entries is_bid f)"
      using in_band_slot [of p] by (auto simp: entries_def intro!: image_eqI [of _ _ "slot_of p"])
    with d True show ?thesis by simp
  next
    case False
    then have "p \<notin> fst ` set (entries is_bid f)"
      using in_band_price_of by (auto simp: entries_def)
    then have "map_of (entries is_bid f) p = None" by (simp add: map_of_eq_None_iff)
    with False show ?thesis by (simp only: if_False)
  qed
qed

lemma entries_eqI: "std_map_sorted (price_before is_bid) m \<Longrightarrow> map_of m = map_of (entries is_bid f) \<Longrightarrow> entries is_bid f = m"
  using side_map.sorted_ext [OF _ entries_sorted] by metis

lemma map_of_entries_mem: "p \<in> fst ` set (entries is_bid f) \<longleftrightarrow> in_band p \<and> f (slot_of p) \<noteq> []"
  using map_of_entries [of is_bid f p] map_of_eq_None_iff [of "entries is_bid f" p] by (auto split: if_splits)

text \<open>Changing one level of the side changes one entry of the map.\<close>

lemma slot_eq: "slot < 1024 \<Longrightarrow> in_band p \<Longrightarrow> slot_of p = slot \<longleftrightarrow> p = price_of slot"
  using in_band_slot [of p] slot_of_price_of by metis

lemma entries_set:
  assumes "slot < 1024" "f slot \<noteq> []" "x \<noteq> []"
  shows "entries is_bid (f(slot := x)) = std_map_set (price_of slot) x (entries is_bid f)"
  by (rule entries_eqI)
    (use assms in \<open>auto simp: entries_sorted map_of_std_map_set map_of_entries map_of_entries_mem fun_eq_iff
       in_band_price_of slot_eq\<close>)

lemma entries_erase:
  assumes "slot < 1024"
  shows "entries is_bid (f(slot := [])) = std_map_erase (price_of slot) (entries is_bid f)"
  by (rule entries_eqI)
    (use assms in \<open>auto simp: entries_sorted std_map_sorted_erase side_map.find_erase [OF entries_sorted] map_of_entries
       fun_eq_iff slot_eq\<close>)

lemma entries_rest:
  assumes "slot < 1024" "o_price ord = price_of slot"
  shows "entries is_bid (f(slot := f slot @ [ord])) = rest_levels is_bid ord (entries is_bid f)"
proof (rule entries_eqI)
  let ?m = "std_map_try_emplace (price_before is_bid) (o_price ord) [] (entries is_bid f)"
  have s: "std_map_sorted (price_before is_bid) ?m" by (rule side_map.sorted_try_emplace [OF entries_sorted])
  show "std_map_sorted (price_before is_bid) (rest_levels is_bid ord (entries is_bid f))"
    using s by (simp add: rest_levels_def push_back_def)
  have e: "map_of ?m = (case map_of (entries is_bid f) (price_of slot) of
      None \<Rightarrow> (map_of (entries is_bid f))(price_of slot \<mapsto> []) | Some _ \<Rightarrow> map_of (entries is_bid f))"
    unfolding assms(2) by (rule side_map.find_try_emplace [OF entries_sorted])
  show "map_of (rest_levels is_bid ord (entries is_bid f)) = map_of (entries is_bid (f(slot := f slot @ [ord])))"
    using assms(1) e in_band_price_of [OF assms(1)]
    by (auto simp: rest_levels_def push_back_def map_of_std_map_set side_map.set_try_emplace assms(2) map_of_entries
        fun_eq_iff slot_eq split: option.splits if_splits)
qed

lemma entries_nil: "(\<And>slot. slot < 1024 \<Longrightarrow> f slot = []) \<Longrightarrow> entries is_bid f = []"
  by (auto simp: entries_def filter_empty_conv)

lemma entries_cong: "(\<And>slot. slot < 1024 \<Longrightarrow> f slot = g slot) \<Longrightarrow> entries is_bid f = entries is_bid g"
proof -
  assume *: "\<And>slot. slot < 1024 \<Longrightarrow> f slot = g slot"
  then have "filter (\<lambda>slot. f slot \<noteq> []) (slots is_bid) = filter (\<lambda>slot. g slot \<noteq> []) (slots is_bid)"
    by (intro filter_cong) auto
  with * show ?thesis by (simp add: entries_def)
qed

text \<open>The best slot is the head of the map.\<close>

lemma entries_head:
  assumes "find (\<lambda>slot. f slot \<noteq> []) (slots is_bid) = Some slot"
  obtains others where "entries is_bid f = (price_of slot, f slot) # others" "slot < 1024" "f slot \<noteq> []"
    "entries is_bid (f(slot := [])) = others"
proof -
  obtain ys where ys: "filter (\<lambda>slot. f slot \<noteq> []) (slots is_bid) = slot # ys" using filter_find [OF assms] by blast
  have sl: "slot < 1024" "f slot \<noteq> []" using find_SomeD [OF assms] by auto
  define others where "others = map (\<lambda>slot. (price_of slot, f slot)) ys"
  have e: "entries is_bid f = (price_of slot, f slot) # others" by (simp add: entries_def ys others_def)
  have "price_of slot \<notin> fst ` set others"
    using side_map.sorted_distinct [OF entries_sorted [of is_bid f]] by (simp add: e)
  then have "entries is_bid (f(slot := [])) = others"
    by (simp add: entries_erase [OF sl(1)] e std_map_erase_absent)
  with that e sl show thesis by blast
qed

section \<open>Levels\<close>

definition is_live :: "FlatOrder \<Rightarrow> bool" where
  "is_live ord \<longleftrightarrow> fo_quantity ord \<noteq> 0"

definition lives :: "FlatLevel \<Rightarrow> FlatOrder list" where
  "lives l = filter is_live (fl_orders l)"

definition mk_order :: "Side \<Rightarrow> nat \<Rightarrow> FlatOrder \<Rightarrow> Order" where
  "mk_order side slot ord = \<lparr>o_id = fo_id ord, o_side = side, o_price = price_of slot, o_quantity = fo_quantity ord\<rparr>"

definition flat_orders :: "Side \<Rightarrow> nat \<Rightarrow> FlatLevel \<Rightarrow> Level" where
  "flat_orders side slot l = map (mk_order side slot) (lives l)"

lemma mk_order_sel [simp]:
  "o_id (mk_order side slot ord) = fo_id ord" "o_side (mk_order side slot ord) = side"
  "o_price (mk_order side slot ord) = price_of slot" "o_quantity (mk_order side slot ord) = fo_quantity ord"
  by (simp_all add: mk_order_def)

lemma flat_orders_nil [simp]: "flat_orders side slot l = [] \<longleftrightarrow> lives l = []"
  by (simp add: flat_orders_def)

text \<open>
  A level while it is being filled: the count is right, nothing before the cursor is live, and
  the cursor stands on a live order if there is one.
\<close>

definition flat_mid :: "FlatLevel \<Rightarrow> bool" where
  "flat_mid l \<longleftrightarrow> fl_alive l = length (lives l) \<and>
     lives l = filter is_live (drop (fl_head l) (fl_orders l)) \<and>
     (\<forall>ord others. drop (fl_head l) (fl_orders l) = ord # others \<longrightarrow> is_live ord)"

text \<open>A level between operations: empty when nothing is live, and with bounded dead weight.\<close>

definition flat_ok :: "FlatLevel \<Rightarrow> bool" where
  "flat_ok l \<longleftrightarrow> flat_mid l \<and> (fl_alive l = 0 \<longrightarrow> fl_orders l = [] \<and> fl_head l = 0) \<and>
     length (fl_orders l) - fl_alive l \<le> max (fl_alive l) 15"

lemma flat_mid_alive: "flat_mid l \<Longrightarrow> fl_alive l = length (lives l)"
  by (simp add: flat_mid_def)

lemma flat_mid_front:
  assumes "flat_mid l" "0 < fl_alive l"
  obtains maker others where "drop (fl_head l) (fl_orders l) = maker # others" "fl_orders l ! fl_head l = maker"
    "fl_head l < length (fl_orders l)" "is_live maker" "lives l = maker # filter is_live others"
    "filter is_live (take (fl_head l) (fl_orders l)) = []"
proof -
  have "drop (fl_head l) (fl_orders l) \<noteq> []" using assms by (auto simp: flat_mid_def)
  then obtain maker others where d: "drop (fl_head l) (fl_orders l) = maker # others" by (meson neq_Nil_conv)
  have h: "fl_head l < length (fl_orders l)" using d by (metis drop_all list.distinct(1) not_less)
  have n: "fl_orders l ! fl_head l = maker" using d h by (metis Cons_nth_drop_Suc list.inject)
  have lv: "is_live maker" "lives l = maker # filter is_live others" using assms(1) d by (auto simp: flat_mid_def)
  have "length (lives l) = length (filter is_live (take (fl_head l) (fl_orders l))) + length (filter is_live (drop (fl_head l) (fl_orders l)))"
    unfolding lives_def by (metis append_take_drop_id filter_append length_append)
  then have "filter is_live (take (fl_head l) (fl_orders l)) = []" using assms(1) by (simp add: flat_mid_def)
  with that d n h lv show thesis by blast
qed

lemma advance_head_spec:
  "drop (fl_head (advance_head l)) (fl_orders l) = dropWhile (\<lambda>ord. \<not> is_live ord) (drop (fl_head l) (fl_orders l))"
proof (induction l rule: advance_head.induct)
  case (1 l)
  show ?case
  proof (cases "fl_head l < length (fl_orders l)")
    case True
    then have "drop (fl_head l) (fl_orders l) = fl_orders l ! fl_head l # drop (fl_head l + 1) (fl_orders l)"
      by (simp add: Cons_nth_drop_Suc)
    with True 1 show ?thesis by (subst advance_head.simps) (simp add: is_live_def)
  next
    case False
    then show ?thesis by (subst advance_head.simps) simp
  qed
qed

lemma flat_mid_advance:
  assumes "fl_alive l = length (lives l)" "lives l = filter is_live (drop (fl_head l) (fl_orders l))"
  shows "flat_mid (advance_head l)" "lives (advance_head l) = lives l"
proof -
  show lv: "lives (advance_head l) = lives l" by (simp add: lives_def)
  have "filter is_live (dropWhile (\<lambda>ord. \<not> is_live ord) xs) = filter is_live xs" for xs
    by (induction xs) auto
  moreover have "is_live ord" if "dropWhile (\<lambda>ord. \<not> is_live ord) xs = ord # others" for xs ord others
    using that by (induction xs) (auto split: if_splits)
  ultimately show "flat_mid (advance_head l)"
    unfolding flat_mid_def advance_head_keeps advance_head_spec lv using assms by metis
qed

subsection \<open>Locators\<close>

text \<open>Every live order of a level is indexed under its id with its own position.\<close>

definition entry_ok :: "Side \<Rightarrow> nat \<Rightarrow> FlatLevel \<Rightarrow> FlatIndex \<Rightarrow> bool" where
  "entry_ok side slot l idx \<longleftrightarrow>
     (\<forall>k<length (fl_orders l). is_live (fl_orders l ! k) \<longrightarrow>
        idx (fo_id (fl_orders l ! k)) = Some \<lparr>cl_side = side, cl_price = price_of slot, cl_pos = k\<rparr>)"

text \<open>What a change to one level may do to the index: entries of other levels stay.\<close>

definition same_except :: "Side \<Rightarrow> nat \<Rightarrow> FlatIndex \<Rightarrow> FlatIndex \<Rightarrow> bool" where
  "same_except side slot idx idx' \<longleftrightarrow>
     (\<forall>i loc. idx i = Some loc \<longrightarrow> (cl_side loc, cl_price loc) \<noteq> (side, price_of slot) \<longrightarrow> idx' i = Some loc)"

lemma same_except_refl [simp]: "same_except side slot idx idx"
  by (simp add: same_except_def)

lemma same_except_trans: "same_except side slot idx idx' \<Longrightarrow> same_except side slot idx' idx'' \<Longrightarrow> same_except side slot idx idx''"
  by (simp add: same_except_def)

lemma same_except_new: "idx i = None \<Longrightarrow> same_except side slot idx (idx(i := v))"
  by (simp add: same_except_def)

lemma same_except_own: "idx i = Some loc \<Longrightarrow> cl_side loc = side \<Longrightarrow> cl_price loc = price_of slot \<Longrightarrow> same_except side slot idx (idx(i := v))"
  by (auto simp: same_except_def)

lemma entry_ok_other:
  assumes "entry_ok side slot l idx" "same_except side' slot' idx idx'" "side \<noteq> side' \<or> slot \<noteq> slot'" "slot < 1024" "slot' < 1024"
  shows "entry_ok side slot l idx'"
  using assms by (auto simp: entry_ok_def same_except_def price_of_inject)

text \<open>The index of the baseline book the locators stand for.\<close>

definition ix :: "FlatIndex \<Rightarrow> Index" where
  "ix idx = (\<lambda>i. map_option (\<lambda>loc. \<lparr>loc_side = cl_side loc, loc_price = cl_price loc, loc_it = i\<rparr>) (idx i))"

lemma ix_None [simp]: "ix idx i = None \<longleftrightarrow> idx i = None"
  by (simp add: ix_def)

lemma ix_dom [simp]: "dom (ix idx) = dom idx"
  by (auto simp: ix_def)

lemma ix_erase [simp]: "ix (idx(i := None)) = (ix idx)(i := None)"
  by (auto simp: ix_def)

lemma ix_update [simp]:
  "ix (idx(i \<mapsto> loc)) = (ix idx)(i \<mapsto> \<lparr>loc_side = cl_side loc, loc_price = cl_price loc, loc_it = i\<rparr>)"
  by (auto simp: ix_def)

lemma lives_mem: "ord \<in> set (lives l) \<longleftrightarrow> (\<exists>k<length (fl_orders l). fl_orders l ! k = ord \<and> is_live ord)"
  by (auto simp: lives_def in_set_conv_nth)

lemma entry_okD:
  "entry_ok side slot l idx \<Longrightarrow> k < length (fl_orders l) \<Longrightarrow> is_live (fl_orders l ! k) \<Longrightarrow>
     idx (fo_id (fl_orders l ! k)) = Some \<lparr>cl_side = side, cl_price = price_of slot, cl_pos = k\<rparr>"
  by (simp add: entry_ok_def)

lemma entry_ok_inj:
  assumes "entry_ok side slot l idx" "j < length (fl_orders l)" "k < length (fl_orders l)"
    "is_live (fl_orders l ! j)" "is_live (fl_orders l ! k)" "fo_id (fl_orders l ! j) = fo_id (fl_orders l ! k)"
  shows "j = k"
proof -
  have "Some \<lparr>cl_side = side, cl_price = price_of slot, cl_pos = j\<rparr> = Some \<lparr>cl_side = side, cl_price = price_of slot, cl_pos = k\<rparr>"
    using entry_okD [OF assms(1,2,4)] entry_okD [OF assms(1,3,5)] unfolding assms(6) by (rule trans [OF sym])
  then show ?thesis by simp
qed

lemma entry_ok_distinct:
  assumes "entry_ok side slot l idx"
  shows "distinct (map fo_id (lives l))"
  unfolding lives_def by (rule filter_map_distinct) (fact entry_ok_inj [OF assms])

subsection \<open>Filling a level\<close>

text \<open>Changing the quantity of one order keeps positions, so the locators stay right.\<close>

lemma entry_ok_update:
  assumes "entry_ok side slot l idx" "h < length (fl_orders l)" "is_live (fl_orders l ! h)"
    and "fl_orders l' = (fl_orders l)[h := (fl_orders l ! h)\<lparr>fo_quantity := q\<rparr>]"
  shows "q \<noteq> 0 \<Longrightarrow> entry_ok side slot l' idx"
    and "q = 0 \<Longrightarrow> entry_ok side slot l' (idx(fo_id (fl_orders l ! h) := None))"
proof -
  have nth: "fl_orders l' ! k = (if k = h then (fl_orders l ! h)\<lparr>fo_quantity := q\<rparr> else fl_orders l ! k)"
    "length (fl_orders l') = length (fl_orders l)" if "k < length (fl_orders l)" for k
    using that assms(2) by (simp_all add: assms(4) nth_list_update)
  show "entry_ok side slot l' idx" if "q \<noteq> 0"
    unfolding entry_ok_def
  proof (intro allI impI)
    fix k assume k: "k < length (fl_orders l')" "is_live (fl_orders l' ! k)"
    show "idx (fo_id (fl_orders l' ! k)) = Some \<lparr>cl_side = side, cl_price = price_of slot, cl_pos = k\<rparr>"
    proof (cases "k = h")
      case True
      then show ?thesis using entry_okD [OF assms(1,2,3)] nth [of h] assms(2) by simp
    next
      case False
      with k have "k < length (fl_orders l)" "fl_orders l' ! k = fl_orders l ! k" using nth assms(4) by auto
      then show ?thesis using entry_okD [OF assms(1), of k] k(2) by simp
    qed
  qed
  show "entry_ok side slot l' (idx(fo_id (fl_orders l ! h) := None))" if "q = 0"
    unfolding entry_ok_def
  proof (intro allI impI)
    fix k assume k: "k < length (fl_orders l')" "is_live (fl_orders l' ! k)"
    then have less: "k < length (fl_orders l)" using assms(4) by simp
    have ne: "k \<noteq> h" using k(2) nth(1) [OF less] that by (auto simp: is_live_def)
    then have same: "fl_orders l' ! k = fl_orders l ! k" using nth(1) [OF less] by simp
    have "fo_id (fl_orders l ! k) \<noteq> fo_id (fl_orders l ! h)"
      using entry_ok_inj [OF assms(1) less assms(2)] k(2) ne assms(3) by (auto simp: same)
    then show "(idx(fo_id (fl_orders l ! h) := None)) (fo_id (fl_orders l' ! k)) =
        Some \<lparr>cl_side = side, cl_price = price_of slot, cl_pos = k\<rparr>"
      using entry_okD [OF assms(1) less] k(2) by (simp add: same)
  qed
qed

lemma ct_fill_front_order_sim:
  assumes "flat_mid l" "0 < fl_alive l" "entry_ok side slot l idx"
    and "ct_fill_front_order l (price_of slot) idx ctx = (l', idx', ctx')"
  shows "flat_mid l'" "entry_ok side slot l' idx'" "same_except side slot idx idx'"
    "fill_front_order (flat_orders side slot l) (price_of slot) (ix idx) ctx = (flat_orders side slot l', ix idx', ctx')"
proof -
  obtain maker others where f: "drop (fl_head l) (fl_orders l) = maker # others" "fl_orders l ! fl_head l = maker"
      "fl_head l < length (fl_orders l)" "is_live maker" "lives l = maker # filter is_live others"
      "filter is_live (take (fl_head l) (fl_orders l)) = []"
    by (rule flat_mid_front [OF assms(1,2)])
  obtain c q d where m: "fill_maker ctx (fo_id maker) (fo_quantity maker) (price_of slot) = (c, q, d)"
    by (cases "fill_maker ctx (fo_id maker) (fo_quantity maker) (price_of slot)")
  have d: "d \<longleftrightarrow> q = 0" using m by (auto simp: fill_maker_def Let_def)
  define os where "os = (fl_orders l)[fl_head l := maker\<lparr>fo_quantity := q\<rparr>]"
  have idx: "idx (fo_id maker) = Some \<lparr>cl_side = side, cl_price = price_of slot, cl_pos = fl_head l\<rparr>"
    using entry_okD [OF assms(3) f(3)] f(2,4) by simp
  have flt: "filter is_live os = filter is_live (maker\<lparr>fo_quantity := q\<rparr> # others)"
    unfolding os_def by (rule filter_update_front [OF f(1,3,6)])
  have drp: "drop (fl_head l) os = maker\<lparr>fo_quantity := q\<rparr> # others"
    unfolding os_def by (rule drop_update_front [OF f(1,3)])
  have alive: "fl_alive l = Suc (length (filter is_live others))" using assms(1) f(5) by (simp add: flat_mid_def)
  have base: "fill_front_order (flat_orders side slot l) (price_of slot) (ix idx) ctx =
      (if d then (map (mk_order side slot) (filter is_live others), (ix idx)(fo_id maker := None), c)
       else (mk_order side slot (maker\<lparr>fo_quantity := q\<rparr>) # map (mk_order side slot) (filter is_live others), ix idx, c))"
    using m by (simp add: fill_front_order_def flat_orders_def f(5) mk_order_def)
  consider "q = 0" | "q \<noteq> 0" by blast
  then have "flat_mid l' \<and> entry_ok side slot l' idx' \<and> same_except side slot idx idx' \<and>
    fill_front_order (flat_orders side slot l) (price_of slot) (ix idx) ctx = (flat_orders side slot l', ix idx', ctx')"
  proof cases
    case 1
    let ?l = "l\<lparr>fl_orders := os, fl_alive := fl_alive l - 1\<rparr>"
    have out: "l' = advance_head ?l" "idx' = idx(fo_id maker := None)" "ctx' = c"
      using assms(4) m 1 d by (simp_all add: ct_fill_front_order_def f(2) os_def)
    have lv: "lives ?l = filter is_live others" using 1 by (simp add: lives_def flt is_live_def)
    have mid: "flat_mid l'" "lives l' = filter is_live others"
      using flat_mid_advance [of ?l] lv alive drp 1 by (simp_all add: out is_live_def)
    have "entry_ok side slot l' idx'"
      using entry_ok_update(2) [OF assms(3) f(3), of l' q] f(2,4) 1 by (simp add: out os_def)
    moreover have "same_except side slot idx idx'" unfolding out by (rule same_except_own [of idx, OF idx]) simp_all
    ultimately show ?thesis unfolding base using mid 1 d by (simp add: out flat_orders_def)
  next
    case 2
    let ?l = "l\<lparr>fl_orders := os\<rparr>"
    have out: "l' = ?l" "idx' = idx" "ctx' = c"
      using assms(4) m 2 d by (simp_all add: ct_fill_front_order_def f(2) os_def)
    have lv: "lives ?l = maker\<lparr>fo_quantity := q\<rparr> # filter is_live others" using 2 by (simp add: lives_def flt is_live_def)
    have "flat_mid l'" using alive drp lv 2 by (simp add: out flat_mid_def is_live_def)
    moreover have "entry_ok side slot l' idx'"
      using entry_ok_update(1) [OF assms(3) f(3), of l' q] f(2,4) 2 by (simp add: out os_def)
    ultimately show ?thesis unfolding base using 2 d lv by (simp add: out flat_orders_def)
  qed
  then show "flat_mid l'" "entry_ok side slot l' idx'" "same_except side slot idx idx'"
    "fill_front_order (flat_orders side slot l) (price_of slot) (ix idx) ctx = (flat_orders side slot l', ix idx', ctx')"
    by blast+
qed

lemma ct_fill_level_sim:
  assumes "flat_mid l" "entry_ok side slot l idx" "ct_fill_level l (price_of slot) idx ctx = (l', idx', ctx')"
  shows "flat_mid l' \<and> entry_ok side slot l' idx' \<and> same_except side slot idx idx' \<and>
    fill_level (flat_orders side slot l) (price_of slot) (ix idx) ctx = (flat_orders side slot l', ix idx', ctx')"
  using assms
proof (induction l "price_of slot" idx ctx rule: ct_fill_level.induct)
  case (1 l idx ctx)
  have ne: "flat_orders side slot l \<noteq> [] \<longleftrightarrow> 0 < fl_alive l" using 1(2) by (simp add: flat_mid_def)
  show ?case
  proof (cases "mc_quantity ctx > 0 \<and> fl_alive l > 0")
    case True
    obtain l1 idx1 ctx1 where s: "ct_fill_front_order l (price_of slot) idx ctx = (l1, idx1, ctx1)"
      by (cases "ct_fill_front_order l (price_of slot) idx ctx")
    note st = ct_fill_front_order_sim [OF 1(2) conjunct2 [OF True] 1(3) s]
    have rec: "ct_fill_level l1 (price_of slot) idx1 ctx1 = (l', idx', ctx')"
      using 1(4) True s by (simp add: ct_fill_level.simps [of l])
    have "flat_mid l' \<and> entry_ok side slot l' idx' \<and> same_except side slot idx1 idx' \<and>
        fill_level (flat_orders side slot l1) (price_of slot) (ix idx1) ctx1 = (flat_orders side slot l', ix idx', ctx')"
      by (rule 1(1) [OF True s [symmetric] refl refl st(1,2) rec])
    moreover have "fill_level (flat_orders side slot l) (price_of slot) (ix idx) ctx =
        fill_level (flat_orders side slot l1) (price_of slot) (ix idx1) ctx1"
      using True ne st(4) by (simp add: fill_level.simps [of "flat_orders side slot l"])
    ultimately show ?thesis using same_except_trans [OF st(3)] by simp
  next
    case False
    then have "fill_level (flat_orders side slot l) (price_of slot) (ix idx) ctx = (flat_orders side slot l, ix idx, ctx)"
      using ne by (subst fill_level.simps) auto
    moreover have "(l', idx', ctx') = (l, idx, ctx)" using 1(4) False by (simp add: ct_fill_level.simps [of l])
    ultimately show ?thesis using 1(2,3) by simp
  qed
qed

subsection \<open>Compaction\<close>

lemma compact_from_list: "fst (compact_from os acc idx) = acc @ filter is_live os"
  by (induction os acc idx rule: compact_from.induct) (auto simp: is_live_def Let_def word_neq_0_conv)

lemma compact_from_ix: "ix (snd (compact_from os acc idx)) = ix idx"
proof (induction os arbitrary: acc idx)
  case (Cons ord os)
  have "ix (case idx (fo_id ord) of None \<Rightarrow> idx | Some found \<Rightarrow> idx(fo_id ord \<mapsto> found\<lparr>cl_pos := k\<rparr>)) = ix idx" for k
    by (auto simp: ix_def fun_eq_iff split: option.splits)
  with Cons show ?case by (simp add: Let_def)
qed simp

lemma compact_from_other: "i \<notin> fo_id ` set (filter is_live os) \<Longrightarrow> snd (compact_from os acc idx) i = idx i"
  by (induction os acc idx rule: compact_from.induct)
    (auto simp: is_live_def Let_def word_neq_0_conv split: option.splits)

lemma compact_from_pos:
  assumes "distinct (map fo_id (filter is_live os))" "k < length (filter is_live os)"
    and "idx (fo_id (filter is_live os ! k)) = Some loc"
  shows "snd (compact_from os acc idx) (fo_id (filter is_live os ! k)) = Some (loc\<lparr>cl_pos := to_u32 (length acc + k)\<rparr>)"
  using assms
proof (induction os acc idx arbitrary: k rule: compact_from.induct)
  case (2 ord os acc idx)
  show ?case
  proof (cases "is_live ord")
    case False
    with 2 show ?thesis by (simp add: is_live_def)
  next
    case True
    then have pos: "0 < fo_quantity ord" by (simp add: is_live_def word_neq_0_conv)
    define idx1 where "idx1 = (case idx (fo_id ord) of None \<Rightarrow> idx
        | Some found \<Rightarrow> idx(fo_id ord \<mapsto> found\<lparr>cl_pos := to_u32 (length acc)\<rparr>))"
    have step: "compact_from (ord # os) acc idx = compact_from os (acc @ [ord]) idx1"
      using pos by (simp add: idx1_def Let_def)
    have d: "distinct (map fo_id (filter is_live os))" "fo_id ord \<notin> fo_id ` set (filter is_live os)"
      using 2(3) True by auto
    show ?thesis
    proof (cases k)
      case 0
      then have "idx (fo_id ord) = Some loc" using 2(5) True by simp
      then have "idx1 (fo_id ord) = Some (loc\<lparr>cl_pos := to_u32 (length acc)\<rparr>)" by (simp add: idx1_def)
      then show ?thesis using compact_from_other [OF d(2)] True 0 unfolding step by simp
    next
      case (Suc j)
      have less: "j < length (filter is_live os)" using 2(4) True Suc by simp
      then have "fo_id (filter is_live os ! j) \<noteq> fo_id ord" using d(2) nth_mem [OF less] by (metis image_eqI)
      then have "idx1 (fo_id (filter is_live os ! j)) = Some loc"
        using 2(5) True Suc by (simp add: idx1_def split: option.splits)
      then have "snd (compact_from os (acc @ [ord]) idx1) (fo_id (filter is_live os ! j)) =
          Some (loc\<lparr>cl_pos := to_u32 (length (acc @ [ord]) + j)\<rparr>)"
        using 2(1) [OF pos idx1_def d(1) less] by simp
      then show ?thesis unfolding step using True Suc by simp
    qed
  qed
qed simp

lemma compact_level_sim:
  assumes "flat_mid l" "entry_ok side slot l idx" "fl_alive l < 2 ^ 32" "compact_level l idx = (l', idx')"
  shows "lives l' = lives l" "fl_orders l' = lives l" "fl_alive l' = fl_alive l" "flat_mid l'" "entry_ok side slot l' idx'"
    "same_except side slot idx idx'" "ix idx' = ix idx"
proof -
  define os where "os = drop (fl_head l) (fl_orders l)"
  have lv: "lives l = filter is_live os" using assms(1) by (simp add: flat_mid_def os_def)
  have out: "l' = l\<lparr>fl_orders := lives l, fl_head := 0\<rparr>" "idx' = snd (compact_from os [] idx)"
    using assms(4) compact_from_list [of os "[]" idx] by (auto simp: compact_level_def os_def [symmetric] lv split: prod.splits)
  have id: "filter is_live (lives l) = lives l" by (simp add: lives_def)
  show orders: "fl_orders l' = lives l" and lv': "lives l' = lives l" and al: "fl_alive l' = fl_alive l"
    by (simp_all add: out lives_def)
  have mem: "is_live ord" if "ord \<in> set (lives l)" for ord using that by (simp add: lives_def)
  show "flat_mid l'"
    unfolding flat_mid_def lv' al orders using flat_mid_alive [OF assms(1)] mem id by (simp add: out(1))
  show "ix idx' = ix idx" by (simp add: out compact_from_ix)
  have d: "distinct (map fo_id (filter is_live os))" using entry_ok_distinct [OF assms(2)] by (simp add: lv)
  have find: "\<exists>k. idx (fo_id ord) = Some \<lparr>cl_side = side, cl_price = price_of slot, cl_pos = k\<rparr>" if "ord \<in> set (lives l)" for ord
    using that entry_okD [OF assms(2)] by (auto simp: lives_mem)
  show "entry_ok side slot l' idx'"
    unfolding entry_ok_def orders
  proof (intro allI impI)
    fix k assume k: "k < length (lives l)"
    then have small: "to_u32 k = k" using assms(1,3) by (simp add: flat_mid_def to_u32_def)
    obtain j where "idx (fo_id (lives l ! k)) = Some \<lparr>cl_side = side, cl_price = price_of slot, cl_pos = j\<rparr>"
      using find [OF nth_mem [OF k]] by blast
    then show "idx' (fo_id (lives l ! k)) = Some \<lparr>cl_side = side, cl_price = price_of slot, cl_pos = k\<rparr>"
      using compact_from_pos [OF d, of k idx _ "[]"] k small by (simp add: out(2) lv)
  qed
  show "same_except side slot idx idx'"
    unfolding same_except_def
  proof (intro allI impI)
    fix i loc assume i: "idx i = Some loc" "(cl_side loc, cl_price loc) \<noteq> (side, price_of slot)"
    have "i \<notin> fo_id ` set (lives l)" using find i by fastforce
    then show "idx' i = Some loc" using compact_from_other [of i os "[]" idx] i(1) by (simp add: out(2) lv)
  qed
qed

lemma maybe_compact_sim:
  assumes "flat_mid l" "entry_ok side slot l idx" "0 < fl_alive l" "fl_alive l < 2 ^ 32" "maybe_compact l idx = (l', idx')"
  shows "flat_ok l'" "entry_ok side slot l' idx'" "same_except side slot idx idx'" "ix idx' = ix idx" "lives l' = lives l"
proof -
  have al: "fl_alive l = length (lives l)" using assms(1) by (rule flat_mid_alive)
  have "flat_ok l' \<and> entry_ok side slot l' idx' \<and> same_except side slot idx idx' \<and> ix idx' = ix idx \<and> lives l' = lives l"
  proof (cases "length (fl_orders l) \<ge> kCompactMinSize \<and> length (fl_orders l) - fl_alive l > fl_alive l")
    case True
    then have c: "compact_level l idx = (l', idx')" using assms(5) by (simp add: maybe_compact_def)
    note s = compact_level_sim [OF assms(1,2,4) c]
    have "flat_ok l'" using s(1-4) al assms(3) by (simp add: flat_ok_def)
    with s show ?thesis by simp
  next
    case False
    then have "l' = l" "idx' = idx" using assms(5) by (auto simp: maybe_compact_def)
    moreover have "length (fl_orders l) - fl_alive l \<le> max (fl_alive l) 15" using False by (auto simp: kCompactMinSize_def)
    ultimately show ?thesis using assms by (simp add: flat_ok_def)
  qed
  then show "flat_ok l'" "entry_ok side slot l' idx'" "same_except side slot idx idx'" "ix idx' = ix idx" "lives l' = lives l"
    by blast+
qed

end
