(* ===== verification/Storage_Simulation.thy ===== *)
theory Storage_Simulation
  imports Baseline_Refine
begin

text \<open>
  How an alternative storage is shown to be an order book: it simulates the baseline storage
  operation by operation, under its own invariant and where its own capacity queries allow. The
  contract of \<^verbatim>\<open>Book_Store\<close> then follows from the baseline's. The operations of the baseline are
  first restated as changes of one side and the index, the form in which both storages meet them.
\<close>

section \<open>The baseline, one side at a time\<close>

definition bl_set_side :: "Side \<Rightarrow> LevelMap \<Rightarrow> Index \<Rightarrow> BaselineBook \<Rightarrow> BaselineBook" where
  "bl_set_side side levels idx b = (if side = Buy then b\<lparr>bids := levels, index := idx\<rparr> else b\<lparr>asks := levels, index := idx\<rparr>)"

definition bl_side :: "Side \<Rightarrow> BaselineBook \<Rightarrow> LevelMap" where
  "bl_side side b = (if side = Buy then bids b else asks b)"

lemma bl_rest_set_side:
  assumes "is_valid_side side" "ord = \<lparr>o_id = i, o_side = side, o_price = p, o_quantity = q\<rparr>"
  shows "bl_rest i side p q b = bl_set_side side (rest_levels (side = Buy) ord (bl_side side b)) ((index b)(i \<mapsto> locate ord)) b"
  by (simp add: bl_rest_levels [OF assms(2)] bl_set_side_def bl_side_def)

lemma bl_cancel_set_side:
  assumes "index b i = Some \<lparr>loc_side = side, loc_price = p, loc_it = i\<rparr>"
  shows "bl_cancel i b = (bl_set_side side (erase_from_side \<lparr>loc_side = side, loc_price = p, loc_it = i\<rparr> (bl_side side b)) ((index b)(i := None)) b, True)"
  using assms by (simp add: bl_cancel_def erase_resting_order_def bl_set_side_def bl_side_def)

definition bl_reduce :: "Side \<Rightarrow> Price \<Rightarrow> OrderId \<Rightarrow> Quantity \<Rightarrow> LevelMap \<Rightarrow> LevelMap" where
  "bl_reduce side p i q levels =
     (case map_of levels p of None \<Rightarrow> levels | Some level \<Rightarrow> std_map_set p (set_qty i q level) levels)"

lemma set_loc_quantity_set_side:
  "set_loc_quantity \<lparr>loc_side = side, loc_price = p, loc_it = i\<rparr> q b = bl_set_side side (bl_reduce side p i q (bl_side side b)) (index b) b"
  by (cases "side = Buy")
    (auto simp: set_loc_quantity_def bl_set_side_def bl_reduce_def bl_side_def find_level_def Let_def split: option.splits)

section \<open>The contract\<close>

locale storage_simulation =
  fixes to_bl :: "'s \<Rightarrow> BaselineBook"
    and wf_store :: "'s \<Rightarrow> bool"
    and room :: "'s \<Rightarrow> bool"
    and contains :: "OrderId \<Rightarrow> 's \<Rightarrow> bool"
    and can_store :: "Side \<Rightarrow> Price \<Rightarrow> Quantity \<Rightarrow> TimeInForce \<Rightarrow> 's \<Rightarrow> bool"
    and can_apply :: "OrderId \<Rightarrow> Price \<Rightarrow> Quantity \<Rightarrow> 's \<Rightarrow> bool"
    and add_limit :: "OrderId \<Rightarrow> Side \<Rightarrow> Price \<Rightarrow> Quantity \<Rightarrow> TimeInForce \<Rightarrow> 's \<Rightarrow> 's \<times> Trade list"
    and add_market :: "OrderId \<Rightarrow> Side \<Rightarrow> Quantity \<Rightarrow> 's \<Rightarrow> 's \<times> Trade list"
    and cancel :: "OrderId \<Rightarrow> 's \<Rightarrow> 's \<times> bool"
    and modify :: "OrderId \<Rightarrow> Price \<Rightarrow> Quantity \<Rightarrow> 's \<Rightarrow> 's \<times> Trade list"
    and fill_count :: "Side \<Rightarrow> Price \<Rightarrow> bool \<Rightarrow> Quantity \<Rightarrow> 's \<Rightarrow> nat"
    and resting_orders :: "'s \<Rightarrow> Order list"
    and best_bid :: "'s \<Rightarrow> Price option"
    and best_ask :: "'s \<Rightarrow> Price option"
    and quantity_at :: "Side \<Rightarrow> Price \<Rightarrow> 's \<Rightarrow> QuantityTotal"
    and order_count :: "'s \<Rightarrow> nat"
    and bid_levels :: "'s \<Rightarrow> LevelView list"
    and ask_levels :: "'s \<Rightarrow> LevelView list"
  assumes wf_to_bl: "wf_store s \<Longrightarrow> bl_wf (to_bl s)"
    and contains_sim: "wf_store s \<Longrightarrow> contains i s = bl_contains i (to_bl s)"
    and ioc_stored: "wf_store s \<Longrightarrow> can_store side p q IOC s"
    and zero_applies: "wf_store s \<Longrightarrow> can_apply i p 0 s"
    and add_limit_sim:
      "wf_store s \<Longrightarrow> room s \<Longrightarrow> is_valid_side side \<Longrightarrow> can_store side p q tif s \<Longrightarrow>
         wf_store (fst (add_limit i side p q tif s)) \<and>
         (to_bl (fst (add_limit i side p q tif s)), snd (add_limit i side p q tif s)) = bl_add_limit i side p q tif (to_bl s)"
    and add_market_sim:
      "wf_store s \<Longrightarrow> wf_store (fst (add_market i side q s)) \<and>
         (to_bl (fst (add_market i side q s)), snd (add_market i side q s)) = bl_add_market i side q (to_bl s)"
    and cancel_sim:
      "wf_store s \<Longrightarrow> wf_store (fst (cancel i s)) \<and> (to_bl (fst (cancel i s)), snd (cancel i s)) = bl_cancel i (to_bl s)"
    and modify_sim:
      "wf_store s \<Longrightarrow> room s \<Longrightarrow> can_apply i p q s \<Longrightarrow>
         wf_store (fst (modify i p q s)) \<and>
         (to_bl (fst (modify i p q s)), snd (modify i p q s)) = bl_modify i p q (to_bl s)"
    and fill_count_sim: "wf_store s \<Longrightarrow> fill_count side p mkt q s = bl_fill_count side p mkt q (to_bl s)"
    and resting_orders_sim: "wf_store s \<Longrightarrow> resting_orders s = bl_resting_orders (to_bl s)"
    and best_bid_sim: "wf_store s \<Longrightarrow> best_bid s = bl_best_bid (to_bl s)"
    and best_ask_sim: "wf_store s \<Longrightarrow> best_ask s = bl_best_ask (to_bl s)"
    and quantity_at_sim: "wf_store s \<Longrightarrow> quantity_at side p s = bl_quantity_at side p (to_bl s)"
    and order_count_sim: "wf_store s \<Longrightarrow> order_count s = bl_order_count (to_bl s)"
    and bid_levels_sim: "wf_store s \<Longrightarrow> bid_levels s = bl_bid_levels (to_bl s)"
    and ask_levels_sim: "wf_store s \<Longrightarrow> ask_levels s = bl_ask_levels (to_bl s)"

sublocale storage_simulation \<subseteq> store: book_store "\<lambda>s. bl_abs (to_bl s)" wf_store room contains can_store can_apply
    add_limit add_market cancel modify fill_count resting_orders best_bid best_ask quantity_at order_count bid_levels ask_levels
proof unfold_locales
  fix s i side p q tif
  assume a: "wf_store s" "room s" "is_valid_side side" "can_store side p q tif s"
  show "wf_store (fst (add_limit i side p q tif s)) \<and>
      (bl_abs (to_bl (fst (add_limit i side p q tif s))), snd (add_limit i side p q tif s)) = spec_add_limit i side p q tif (bl_abs (to_bl s))"
    using add_limit_sim [OF a, of i] bl_add_limit_spec [OF wf_to_bl [OF a(1)], of i side p q tif] by (metis fst_conv snd_conv)
next
  fix s i p q assume a: "wf_store s" "room s" "can_apply i p q s"
  show "wf_store (fst (modify i p q s)) \<and>
      (bl_abs (to_bl (fst (modify i p q s))), snd (modify i p q s)) = spec_modify i p q (bl_abs (to_bl s))"
    using modify_sim [OF a] bl_modify_spec [OF wf_to_bl [OF a(1)], of i p q] by (metis fst_conv snd_conv)
next
  fix s assume wf: "wf_store s"
  note b = wf_to_bl [OF wf]
  show "wf_store (fst (add_market i side q s)) \<and>
      (bl_abs (to_bl (fst (add_market i side q s))), snd (add_market i side q s)) = spec_add_market i side q (bl_abs (to_bl s))" for i side q
    using add_market_sim [OF wf, of i side q] bl_add_market_spec [OF b, of i side q] by (metis fst_conv snd_conv)
  show "wf_store (fst (cancel i s)) \<and> (bl_abs (to_bl (fst (cancel i s))), snd (cancel i s)) = spec_cancel i (bl_abs (to_bl s))" for i
    using cancel_sim [OF wf, of i] bl_cancel_spec [OF b, of i] by (metis fst_conv snd_conv)
  show "spec_wf (bl_abs (to_bl s))" by (rule bl.wf_spec [OF b])
  show "contains i s = spec_contains i (bl_abs (to_bl s))" for i
    by (simp add: contains_sim [OF wf] bl.contains_spec [OF b])
  show "can_store side p q IOC s" for side p q by (rule ioc_stored [OF wf])
  show "can_apply i p 0 s" for i p by (rule zero_applies [OF wf])
  show "fill_count side p mkt q s = spec_fill_count side p mkt q (bl_abs (to_bl s))" for side p mkt q
    by (simp add: fill_count_sim [OF wf] bl.fill_count_spec [OF b])
  show "resting_orders s = spec_orders (bl_abs (to_bl s))" by (simp add: resting_orders_sim [OF wf] bl.resting_orders_spec [OF b])
  show "best_bid s = spec_best (s_bids (bl_abs (to_bl s)))" by (simp add: best_bid_sim [OF wf] bl.best_bid_spec [OF b])
  show "best_ask s = spec_best (s_asks (bl_abs (to_bl s)))" by (simp add: best_ask_sim [OF wf] bl.best_ask_spec [OF b])
  show "quantity_at side p s = spec_quantity_at side p (bl_abs (to_bl s))" for side p
    by (simp add: quantity_at_sim [OF wf] bl.quantity_at_spec [OF b])
  show "order_count s = length (spec_orders (bl_abs (to_bl s)))" by (simp add: order_count_sim [OF wf] bl.order_count_spec [OF b])
  show "bid_levels s = spec_levels (s_bids (bl_abs (to_bl s)))" by (simp add: bid_levels_sim [OF wf] bl.bid_levels_spec [OF b])
  show "ask_levels s = spec_levels (s_asks (bl_abs (to_bl s)))" by (simp add: ask_levels_sim [OF wf] bl.ask_levels_spec [OF b])
qed

end
