(* ===== verification/Contiguous_Refine.thy ===== *)
theory Contiguous_Refine
  imports Contiguous_Levels Storage_Simulation
begin

text \<open>
  The contiguous storage simulates the baseline storage: matching, resting, cancelling and
  modifying commute with the map to a baseline book, the queries agree, every locator in the
  index is in range, and no level holds more tombstones than live orders plus fifteen.
\<close>

section \<open>Sides\<close>

definition side_ok :: "Side \<Rightarrow> BookSide \<Rightarrow> FlatIndex \<Rightarrow> bool" where
  "side_ok side bs idx \<longleftrightarrow>
     (\<forall>slot<1024. (slot_bit (bs_bits bs) slot \<longleftrightarrow> lives (bs_levels bs slot) \<noteq> []) \<and>
        flat_ok (bs_levels bs slot) \<and> entry_ok side slot (bs_levels bs slot) idx)"

definition side_f :: "Side \<Rightarrow> BookSide \<Rightarrow> nat \<Rightarrow> Level" where
  "side_f side bs slot = flat_orders side slot (bs_levels bs slot)"

definition ct_levels :: "Side \<Rightarrow> BookSide \<Rightarrow> LevelMap" where
  "ct_levels side bs = entries (side = Buy) (side_f side bs)"

lemma side_okD:
  assumes "side_ok side bs idx" "slot < 1024"
  shows "slot_bit (bs_bits bs) slot \<longleftrightarrow> lives (bs_levels bs slot) \<noteq> []" "flat_ok (bs_levels bs slot)"
    "flat_mid (bs_levels bs slot)" "entry_ok side slot (bs_levels bs slot) idx"
  using assms by (simp_all add: side_ok_def flat_ok_def)

lemma side_f_nil [simp]: "side_f side bs slot = [] \<longleftrightarrow> lives (bs_levels bs slot) = []"
  by (simp add: side_f_def)

lemma flat_ok_clear [simp]:
  "flat_ok \<lparr>fl_orders = [], fl_head = 0, fl_alive = 0\<rparr>" "lives \<lparr>fl_orders = [], fl_head = h, fl_alive = n\<rparr> = []"
  "entry_ok side slot \<lparr>fl_orders = [], fl_head = h, fl_alive = n\<rparr> idx"
  by (simp_all add: flat_ok_def flat_mid_def lives_def entry_ok_def)

text \<open>Replacing one level, together with its bit.\<close>

lemma side_ok_upd:
  assumes "side_ok side bs idx" "slot < 1024" "same_except side slot idx idx'" "flat_ok l" "entry_ok side slot l idx'"
    and "\<And>k. k < 1024 \<Longrightarrow> slot_bit bits k \<longleftrightarrow> (if k = slot then lives l \<noteq> [] else slot_bit (bs_bits bs) k)"
  shows "side_ok side \<lparr>bs_levels = (bs_levels bs)(slot := l), bs_bits = bits\<rparr> idx'"
  unfolding side_ok_def
proof (intro allI impI)
  fix k :: nat assume k: "k < 1024"
  show "(slot_bit (bs_bits \<lparr>bs_levels = (bs_levels bs)(slot := l), bs_bits = bits\<rparr>) k \<longleftrightarrow>
        lives (bs_levels \<lparr>bs_levels = (bs_levels bs)(slot := l), bs_bits = bits\<rparr> k) \<noteq> []) \<and>
      flat_ok (bs_levels \<lparr>bs_levels = (bs_levels bs)(slot := l), bs_bits = bits\<rparr> k) \<and>
      entry_ok side k (bs_levels \<lparr>bs_levels = (bs_levels bs)(slot := l), bs_bits = bits\<rparr> k) idx'"
  proof (cases "k = slot")
    case True
    then show ?thesis using assms k by simp
  next
    case False
    have "entry_ok side k (bs_levels bs k) idx'"
      using False k by (intro entry_ok_other [OF side_okD(4) [OF assms(1) k] assms(3) _ k assms(2)]) simp
    then show ?thesis using False side_okD [OF assms(1) k] assms(6) [OF k] by simp
  qed
qed

lemma side_f_upd: "side_f side \<lparr>bs_levels = (bs_levels bs)(slot := l), bs_bits = bits\<rparr> = (side_f side bs)(slot := flat_orders side slot l)"
  by (auto simp: side_f_def)

lemma clear_level_eq:
  "clear_level slot bs = \<lparr>bs_levels = (bs_levels bs)(slot := \<lparr>fl_orders = [], fl_head = 0, fl_alive = 0\<rparr>),
     bs_bits = clear_slot_bit slot (bs_bits bs)\<rparr>"
  by (cases bs) (simp add: clear_level_def)

definition same_side :: "Side \<Rightarrow> FlatIndex \<Rightarrow> FlatIndex \<Rightarrow> bool" where
  "same_side side idx idx' \<longleftrightarrow> (\<forall>i loc. idx i = Some loc \<longrightarrow> cl_side loc \<noteq> side \<longrightarrow> idx' i = Some loc)"

lemma same_side_refl [simp]: "same_side side idx idx"
  by (simp add: same_side_def)

lemma same_side_trans: "same_side side idx idx' \<Longrightarrow> same_side side idx' idx'' \<Longrightarrow> same_side side idx idx''"
  by (simp add: same_side_def)

lemma same_except_side: "same_except side slot idx idx' \<Longrightarrow> same_side side idx idx'"
  by (auto simp: same_except_def same_side_def)

lemma side_ok_other: "side_ok side bs idx \<Longrightarrow> same_side side' idx idx' \<Longrightarrow> side \<noteq> side' \<Longrightarrow> side_ok side bs idx'"
  by (auto simp: side_ok_def same_side_def entry_ok_def)

lemma best_slot_side:
  assumes "side_ok side bs idx"
  shows "best_slot bs (side = Buy) = find (\<lambda>slot. side_f side bs slot \<noteq> []) (slots (side = Buy))"
  unfolding best_slot_spec using side_okD(1) [OF assms] by (intro find_cong') simp

section \<open>Matching\<close>

lemma ct_fill_level_alive: "ct_fill_level l p idx ctx = (l', idx', ctx') \<Longrightarrow> fl_alive l' \<le> fl_alive l"
proof (induction l p idx ctx rule: ct_fill_level.induct)
  case (1 l p idx ctx)
  show ?case
  proof (cases "mc_quantity ctx > 0 \<and> fl_alive l > 0")
    case True
    obtain l1 idx1 ctx1 where s: "ct_fill_front_order l p idx ctx = (l1, idx1, ctx1)"
      by (cases "ct_fill_front_order l p idx ctx")
    then have "fl_alive l1 \<le> fl_alive l" by (auto simp: ct_fill_front_order_def Let_def split: prod.splits if_splits)
    moreover have "ct_fill_level l1 p idx1 ctx1 = (l', idx', ctx')"
      using 1(2) True s by (simp add: ct_fill_level.simps [of l])
    then have "fl_alive l' \<le> fl_alive l1" by (rule 1(1) [OF True s [symmetric] refl refl])
    ultimately show ?thesis by simp
  next
    case False
    then have "ct_fill_level l p idx ctx = (l, idx, ctx)" by (subst ct_fill_level.simps) auto
    with 1(2) show ?thesis by simp
  qed
qed

definition alive_small :: "BookSide \<Rightarrow> bool" where
  "alive_small bs \<longleftrightarrow> (\<forall>slot<1024. fl_alive (bs_levels bs slot) \<le> 2 ^ 31)"

lemma ct_match_against_sim:
  assumes "side_ok side opp idx" "alive_small opp"
    and "ct_match_against opp (side = Buy) idx ctx = (opp', idx', ctx')"
  shows "side_ok side opp' idx' \<and> alive_small opp' \<and> same_side side idx idx' \<and>
    match_ordered_levels (ct_levels side opp) (ix idx) ctx = (ct_levels side opp', ix idx', ctx')"
  using assms
proof (induction opp "side = Buy" idx ctx rule: ct_match_against.induct)
  case (1 opp idx ctx)
  let ?acc = "can_match_level (mc_taker_is_buy ctx) (mc_is_market ctx) (mc_limit ctx)"
  let ?f = "side_f side opp"
  note eq = ct_match_against.simps [of opp "side = Buy" idx ctx]
  have stop: ?case if "ct_match_against opp (side = Buy) idx ctx = (opp, idx, ctx)"
      "match_ordered_levels (ct_levels side opp) (ix idx) ctx = (ct_levels side opp, ix idx, ctx)"
    using that 1(3-5) by simp
  consider (zero) "mc_quantity ctx = 0" | (none) "mc_quantity ctx > 0" "best_slot opp (side = Buy) = None"
    | (some) slot where "mc_quantity ctx > 0" "best_slot opp (side = Buy) = Some slot"
    using word_neq_0_conv by blast
  then show ?case
  proof cases
    case zero
    then have "match_ordered_levels ls (ix idx) ctx = (ls, ix idx, ctx)" for ls by (cases ls) auto
    with zero show ?thesis by (intro stop) (simp_all add: eq)
  next
    case none
    then have "ct_levels side opp = []"
      unfolding best_slot_side [OF 1(3)] ct_levels_def by (intro entries_nil) (auto simp: find_None_iff)
    then show ?thesis using none by (intro stop) (simp_all add: eq)
  next
    case (some slot)
    obtain others where e: "ct_levels side opp = (price_of slot, ?f slot) # others" and sl: "slot < 1024" "?f slot \<noteq> []"
        and clr: "entries (side = Buy) (?f(slot := [])) = others"
      unfolding ct_levels_def by (rule entries_head [OF some(2) [unfolded best_slot_side [OF 1(3)]]])
    show ?thesis
    proof (cases "?acc (price_of slot)")
      case False
      then show ?thesis using some by (intro stop) (simp_all add: eq e)
    next
      case True
      note sd = side_okD [OF 1(3) sl(1)]
      obtain l1 idx1 ctx1 where fl: "ct_fill_level (bs_levels opp slot) (price_of slot) idx ctx = (l1, idx1, ctx1)"
        by (cases "ct_fill_level (bs_levels opp slot) (price_of slot) idx ctx")
      have f1: "flat_mid l1" "entry_ok side slot l1 idx1" "same_except side slot idx idx1"
          "fill_level (?f slot) (price_of slot) (ix idx) ctx = (flat_orders side slot l1, ix idx1, ctx1)"
        using ct_fill_level_sim [OF sd(3,4) fl] by (simp_all add: side_f_def)
      have al: "fl_alive l1 \<le> 2 ^ 31" using ct_fill_level_alive [OF fl] 1(4) sl(1) by (auto simp: alive_small_def intro: order_trans)
      have base: "match_ordered_levels (ct_levels side opp) (ix idx) ctx =
          match_ordered_levels (erase_begin_if_empty ((price_of slot, flat_orders side slot l1) # others)) (ix idx1) ctx1"
        using some(1) True f1(4) by (simp add: e)
      show ?thesis
      proof (cases "fl_alive l1 = 0")
        case zero: True
        let ?opp = "clear_level slot opp"
        have rec: "ct_match_against ?opp (side = Buy) idx1 ctx1 = (opp', idx', ctx')"
          using 1(5) some True fl zero by (simp add: eq)
        have ok: "side_ok side ?opp idx1"
          unfolding clear_level_eq by (rule side_ok_upd [OF 1(3) sl(1) f1(3)]) simp_all
        have small: "alive_small ?opp" using 1(4) by (simp add: alive_small_def clear_level_def)
        have lv: "ct_levels side ?opp = others"
          unfolding ct_levels_def clear_level_eq side_f_upd using clr by (simp add: flat_orders_def)
        have nil: "flat_orders side slot l1 = []" using f1(1) zero by (simp add: flat_mid_def)
        show ?thesis
          unfolding base nil using 1(1) [OF some refl True [THEN not_not [THEN iffD2]] fl [symmetric] refl refl zero ok small rec] lv
            same_side_trans [OF same_except_side [OF f1(3)]]
          by (simp add: erase_begin_if_empty_def)
      next
        case nz: False
        obtain l2 idx2 where mc: "maybe_compact l1 idx1 = (l2, idx2)" by (cases "maybe_compact l1 idx1")
        have c: "flat_ok l2" "entry_ok side slot l2 idx2" "same_except side slot idx1 idx2" "ix idx2 = ix idx1" "lives l2 = lives l1"
          using maybe_compact_sim [OF f1(1,2) _ _ mc] nz al by simp_all
        let ?opp = "opp\<lparr>bs_levels := (bs_levels opp)(slot := l2)\<rparr>"
        have opp: "?opp = \<lparr>bs_levels = (bs_levels opp)(slot := l2), bs_bits = bs_bits opp\<rparr>" by (cases opp) simp
        have live: "lives l2 \<noteq> []" using nz f1(1) c(5) by (simp add: flat_mid_def)
        have rec: "ct_match_against ?opp (side = Buy) idx2 ctx1 = (opp', idx', ctx')"
          using 1(5) some True fl nz mc by (simp add: eq)
        have sm: "same_except side slot idx idx2" by (rule same_except_trans [OF f1(3) c(3)])
        have ok: "side_ok side ?opp idx2"
          unfolding opp by (rule side_ok_upd [OF 1(3) sl(1) sm c(1,2)]) (use sd(1) sl(2) live in simp)
        have "fl_alive l2 = fl_alive l1" using flat_mid_alive [OF f1(1)] flat_mid_alive [of l2] c(1,5) by (simp add: flat_ok_def)
        then have small: "alive_small ?opp" using 1(4) al by (simp add: alive_small_def)
        have fo: "flat_orders side slot l2 = flat_orders side slot l1" by (simp add: flat_orders_def c(5))
        have "ct_levels side ?opp = std_map_set (price_of slot) (flat_orders side slot l1) (ct_levels side opp)"
          using entries_set [of slot ?f, OF sl, of "flat_orders side slot l1"] live c(5)
          by (simp add: ct_levels_def opp side_f_upd fo)
        then have lv: "ct_levels side ?opp = (price_of slot, flat_orders side slot l1) # others"
          using side_map.sorted_distinct [OF entries_sorted, of "side = Buy" ?f]
          by (simp add: e ct_levels_def [symmetric] std_map_set_absent)
        have "flat_orders side slot l1 \<noteq> []" using live c(5) by simp
        then have "match_ordered_levels (ct_levels side opp) (ix idx) ctx = match_ordered_levels (ct_levels side ?opp) (ix idx2) ctx1"
          unfolding base lv c(4) by (cases "flat_orders side slot l1") (simp_all add: erase_begin_if_empty_def)
        then show ?thesis
          using 1(2) [OF some refl True [THEN not_not [THEN iffD2]] fl [symmetric] refl refl nz mc [symmetric] refl ok small rec]
            same_side_trans [OF same_except_side [OF sm]] by simp
      qed
    qed
  qed
qed

section \<open>The whole store\<close>

definition ct_bl :: "ContiguousStore \<Rightarrow> BaselineBook" where
  "ct_bl s = \<lparr>bids = ct_levels Buy (ct_bids s), asks = ct_levels Sell (ct_asks s), index = ix (ct_index s)\<rparr>"

definition ct_sides :: "ContiguousStore \<Rightarrow> bool" where
  "ct_sides s \<longleftrightarrow> side_ok Buy (ct_bids s) (ct_index s) \<and> side_ok Sell (ct_asks s) (ct_index s)"

definition ct_wf :: "ContiguousStore \<Rightarrow> bool" where
  "ct_wf s \<longleftrightarrow> bl_wf (ct_bl s) \<and> ct_sides s \<and> ct_order_count s \<le> 2 ^ 31"

text \<open>Positions are 32 bits wide, which up to 2^31 resting orders never exhaust.\<close>

definition ct_room :: "ContiguousStore \<Rightarrow> bool" where
  "ct_room s \<longleftrightarrow> ct_order_count s < 2 ^ 31"

lemma ct_bl_sel [simp]:
  "bids (ct_bl s) = ct_levels Buy (ct_bids s)" "asks (ct_bl s) = ct_levels Sell (ct_asks s)"
  "index (ct_bl s) = ix (ct_index s)"
  by (simp_all add: ct_bl_def)

lemma ct_order_count_bl: "ct_order_count s = bl_order_count (ct_bl s)"
  by (simp add: ct_order_count_def bl_order_count_def)

lemma ct_wfD:
  assumes "ct_wf s"
  shows "bl_wf (ct_bl s)" "side_ok Buy (ct_bids s) (ct_index s)" "side_ok Sell (ct_asks s) (ct_index s)"
  using assms by (simp_all add: ct_wf_def ct_sides_def)

text \<open>A level holds at most all resting orders.\<close>

lemma map_of_flatten_length: "map_of levels p = Some level \<Longrightarrow> length level \<le> length (flatten levels)"
  by (induction levels) (auto split: if_splits)

lemma side_alive_le:
  assumes "side_ok side bs idx" "slot < 1024"
  shows "fl_alive (bs_levels bs slot) \<le> length (flatten (ct_levels side bs))"
proof (cases "side_f side bs slot = []")
  case True
  then show ?thesis using flat_mid_alive [OF side_okD(3) [OF assms]] by simp
next
  case False
  then have "map_of (ct_levels side bs) (price_of slot) = Some (side_f side bs slot)"
    using assms(2) by (simp add: ct_levels_def map_of_entries in_band_price_of)
  then have "length (side_f side bs slot) \<le> length (flatten (ct_levels side bs))" by (rule map_of_flatten_length)
  then show ?thesis using flat_mid_alive [OF side_okD(3) [OF assms]] by (simp add: side_f_def flat_orders_def)
qed

lemma ct_alive_le:
  assumes "bl_wf (ct_bl s)" "ct_sides s" "slot < 1024"
  shows "fl_alive (bs_levels (ct_bids s) slot) \<le> ct_order_count s" "fl_alive (bs_levels (ct_asks s) slot) \<le> ct_order_count s"
proof -
  have "ct_order_count s = length (flatten (ct_levels Buy (ct_bids s))) + length (flatten (ct_levels Sell (ct_asks s)))"
    using bl.order_count_spec [OF assms(1)] by (simp add: ct_order_count_bl spec_orders_def bl_abs_def)
  then show "fl_alive (bs_levels (ct_bids s) slot) \<le> ct_order_count s" "fl_alive (bs_levels (ct_asks s) slot) \<le> ct_order_count s"
    using assms(2,3) side_alive_le [of Buy "ct_bids s" "ct_index s" slot] side_alive_le [of Sell "ct_asks s" "ct_index s" slot]
    by (simp_all add: ct_sides_def)
qed

lemma ct_alive_small:
  assumes "ct_wf s"
  shows "alive_small (ct_bids s)" "alive_small (ct_asks s)"
  using assms ct_alive_le [of s] unfolding alive_small_def ct_wf_def by (meson order_trans)+

subsection \<open>Queries\<close>

lemma ct_levels_occupied:
  assumes "side_ok side bs idx"
  shows "ct_levels side bs =
    map (\<lambda>slot. (price_of slot, side_f side bs slot)) (filter (slot_bit (bs_bits bs)) (slots (side = Buy)))"
proof -
  have "filter (\<lambda>slot. side_f side bs slot \<noteq> []) (slots (side = Buy)) = filter (slot_bit (bs_bits bs)) (slots (side = Buy))"
    using side_okD(1) [OF assms] by (intro filter_cong) auto
  then show ?thesis by (simp add: ct_levels_def entries_def)
qed

lemma best_price_side:
  assumes "side_ok side bs idx"
  shows "map_option price_of (best_slot bs (side = Buy)) = best_price (ct_levels side bs)"
proof (cases "best_slot bs (side = Buy)")
  case None
  then have "ct_levels side bs = []"
    unfolding best_slot_side [OF assms] ct_levels_def by (intro entries_nil) (auto simp: find_None_iff)
  with None show ?thesis by (simp add: best_price_def)
next
  case (Some slot)
  then obtain others where "ct_levels side bs = (price_of slot, side_f side bs slot) # others"
    unfolding ct_levels_def best_slot_side [OF assms] by (rule entries_head)
  with Some show ?thesis by (simp add: best_price_def)
qed

lemma level_total_orders:
  assumes "flat_mid l"
  shows "level_total l = level_quantity (flat_orders side slot l)"
proof -
  have "foldl (\<lambda>total ord. total + ucast (fo_quantity ord)) a os =
      foldl (\<lambda>total ord. total + ucast (o_quantity ord)) (a :: QuantityTotal) (map (mk_order side slot) (filter is_live os))" for a os
    by (induction os arbitrary: a) (auto simp: is_live_def)
  then show ?thesis using assms by (simp add: level_total_def level_quantity_def flat_orders_def flat_mid_def)
qed

lemma ct_best_sim:
  assumes "ct_wf s"
  shows "ct_best_bid s = bl_best_bid (ct_bl s)" "ct_best_ask s = bl_best_ask (ct_bl s)"
  using best_price_side [OF ct_wfD(2) [OF assms]] best_price_side [OF ct_wfD(3) [OF assms]]
  by (simp_all add: ct_best_bid_def ct_best_ask_def bl_best_bid_def bl_best_ask_def)

lemma quantity_at_side:
  assumes "side_ok side bs idx"
  shows "(if in_band p then level_total (bs_levels bs (slot_of p)) else 0) =
    (case map_of (ct_levels side bs) p of None \<Rightarrow> 0 | Some level \<Rightarrow> level_quantity level)"
proof (cases "in_band p")
  case True
  have "level_total (bs_levels bs (slot_of p)) = level_quantity (side_f side bs (slot_of p))"
    using level_total_orders [OF side_okD(3) [OF assms in_band_slot(1) [OF True]]] by (simp add: side_f_def)
  then show ?thesis using True by (auto simp: ct_levels_def map_of_entries level_quantity_def side_f_def flat_orders_def)
qed (simp add: ct_levels_def map_of_entries)

lemma ct_quantity_at_sim: "ct_wf s \<Longrightarrow> ct_quantity_at side p s = bl_quantity_at side p (ct_bl s)"
  using quantity_at_side [OF ct_wfD(2), of s p] quantity_at_side [OF ct_wfD(3), of s p]
  by (cases "side = Buy") (simp_all add: ct_quantity_at_def bl_quantity_at_def find_level_def side_ref_def split: if_splits)

lemma fold_until_all: "fold_until (\<lambda>x acc. (g x acc, True)) xs acc = fold g xs acc"
  by (induction xs arbitrary: acc) simp_all

lemma collect_levels_side:
  assumes "side_ok side bs idx"
  shows "ct_collect_levels bs (side = Buy) = collect_levels (ct_levels side bs)"
proof -
  have "fold (\<lambda>slot levels. levels @ [\<lparr>lv_price = price_of slot, lv_quantity = level_total (bs_levels bs slot)\<rparr>]) ss acc =
      acc @ collect_levels (map (\<lambda>slot. (price_of slot, side_f side bs slot)) ss)" if "set ss \<subseteq> {..<1024}" for ss acc
    using that level_total_orders [OF side_okD(3) [OF assms]]
    by (induction ss arbitrary: acc) (simp_all add: collect_levels_def side_f_def)
  then show ?thesis
    by (simp add: ct_collect_levels_def for_each_occupied_fold fold_until_all ct_levels_occupied [OF assms] subset_iff)
qed

lemma append_orders_side:
  assumes "side_ok side bs idx"
  shows "ct_append_orders bs (side = Buy) side out = append_orders (ct_levels side bs) out"
proof -
  have inner: "foldl (\<lambda>out ord. if fo_quantity ord > 0
      then out @ [\<lparr>o_id = fo_id ord, o_side = side, o_price = price_of slot, o_quantity = fo_quantity ord\<rparr>] else out) out os =
      out @ map (mk_order side slot) (filter is_live os)" for out os slot
    by (induction os arbitrary: out) (auto simp: is_live_def mk_order_def word_neq_0_conv)
  have "fold (\<lambda>slot out. foldl (\<lambda>out ord. if fo_quantity ord > 0
      then out @ [\<lparr>o_id = fo_id ord, o_side = side, o_price = price_of slot, o_quantity = fo_quantity ord\<rparr>] else out) out
        (drop (fl_head (bs_levels bs slot)) (fl_orders (bs_levels bs slot)))) ss acc =
      append_orders (map (\<lambda>slot. (price_of slot, side_f side bs slot)) ss) acc" if "set ss \<subseteq> {..<1024}" for ss acc
    using that
  proof (induction ss arbitrary: acc)
    case (Cons slot ss)
    then have "filter is_live (drop (fl_head (bs_levels bs slot)) (fl_orders (bs_levels bs slot))) = lives (bs_levels bs slot)"
      using side_okD(3) [OF assms, of slot] by (simp add: flat_mid_def)
    with Cons show ?case by (simp add: inner append_orders_def side_f_def flat_orders_def)
  qed (simp add: append_orders_def)
  then show ?thesis
    by (simp add: ct_append_orders_def for_each_occupied_fold fold_until_all ct_levels_occupied [OF assms] subset_iff)
qed

lemma ct_views_sim:
  assumes "ct_wf s"
  shows "ct_bid_levels s = bl_bid_levels (ct_bl s)" "ct_ask_levels s = bl_ask_levels (ct_bl s)"
    "ct_resting_orders s = bl_resting_orders (ct_bl s)"
  using collect_levels_side [OF ct_wfD(2) [OF assms]] collect_levels_side [OF ct_wfD(3) [OF assms]]
    append_orders_side [OF ct_wfD(2) [OF assms]] append_orders_side [OF ct_wfD(3) [OF assms]]
  by (simp_all add: ct_bid_levels_def ct_ask_levels_def bl_bid_levels_def bl_ask_levels_def ct_resting_orders_def bl_resting_orders_def)

subsection \<open>Previews\<close>

lemma count_flat_level_orders:
  "count_flat_level os q = count_level_matches (map (mk_order side slot) (filter is_live os)) q"
proof (induction os arbitrary: q)
  case (Cons ord os)
  show ?case
  proof (cases "is_live ord")
    case True
    then show ?thesis using Cons [of "q - min q (fo_quantity ord)"] by (simp add: is_live_def word_neq_0_conv Let_def)
  next
    case False
    then have "\<not> 0 < fo_quantity ord" by (simp add: is_live_def)
    with False Cons [of q] show ?thesis by (cases "q = 0") (simp_all add: word_neq_0_conv)
  qed
qed simp

lemma simulate_level_orders:
  "simulate_level os q = snd (count_level_matches (map (mk_order side slot) (filter is_live os)) q)"
proof (induction os arbitrary: q)
  case (Cons ord os)
  show ?case
  proof (cases "is_live ord")
    case True
    then show ?thesis using Cons [of "q - min q (fo_quantity ord)"] by (simp add: is_live_def Let_def case_prod_unfold)
  next
    case False
    then have "fo_quantity ord = 0" by (simp add: is_live_def)
    with False Cons [of q] word_neq_0_conv [of q] show ?thesis by (cases "q = 0") simp_all
  qed
qed simp

lemma count_matches_zero [simp]: "mq_quantity query = 0 \<Longrightarrow> count_matches levels query = 0"
  by (cases levels) auto

lemma count_flat_matches_side:
  assumes "side_ok side bs idx"
  shows "count_flat_matches bs (side = Buy) query = count_matches (ct_levels side bs) query"
proof -
  let ?fn = "\<lambda>slot (count, quantity).
     if quantity = 0 \<or> \<not> can_match_level (mq_taker_is_buy query) (mq_is_market query) (mq_limit query) (price_of slot)
     then ((count, quantity), False)
     else let (n, quantity) = count_flat_level (drop (fl_head (bs_levels bs slot)) (fl_orders (bs_levels bs slot))) quantity
          in ((count + n, quantity), quantity > 0)"
  have "fst (fold_until ?fn ss (c, q)) = c + count_matches (map (\<lambda>slot. (price_of slot, side_f side bs slot)) ss) (query\<lparr>mq_quantity := q\<rparr>)"
    if "set ss \<subseteq> {..<1024}" for ss c q
    using that
  proof (induction ss arbitrary: c q)
    case (Cons slot ss)
    have lv: "filter is_live (drop (fl_head (bs_levels bs slot)) (fl_orders (bs_levels bs slot))) = lives (bs_levels bs slot)"
      using side_okD(3) [OF assms, of slot] Cons.prems by (simp add: flat_mid_def)
    obtain n q' where c: "count_level_matches (side_f side bs slot) q = (n, q')"
      by (cases "count_level_matches (side_f side bs slot) q")
    have c': "count_flat_level (drop (fl_head (bs_levels bs slot)) (fl_orders (bs_levels bs slot))) q = (n, q')"
      using c by (simp add: count_flat_level_orders [of _ _ side slot] lv side_f_def flat_orders_def)
    show ?case
    proof (cases "q = 0 \<or> \<not> can_match_level (mq_taker_is_buy query) (mq_is_market query) (mq_limit query) (price_of slot)")
      case True
      then show ?thesis by auto
    next
      case False
      then have "0 < q" by (simp add: word_neq_0_conv)
      with False show ?thesis
        using Cons.IH [of "c + n" q'] Cons.prems c c' word_neq_0_conv [of q'] by (cases "q' = 0") simp_all
    qed
  qed simp
  from this [of "filter (slot_bit (bs_bits bs)) (slots (side = Buy))" 0 "mq_quantity query"]
  show ?thesis
    by (simp add: count_flat_matches_def for_each_occupied_fold ct_levels_occupied [OF assms] subset_iff case_prod_unfold)
qed

lemma ct_fill_count_sim:
  assumes "ct_wf s"
  shows "ct_fill_count side p mkt q s = bl_fill_count side p mkt q (ct_bl s)"
  using count_flat_matches_side [OF ct_wfD(2) [OF assms]] count_flat_matches_side [OF ct_wfD(3) [OF assms]]
  by (cases side) (simp_all add: ct_fill_count_def bl_fill_count_def Let_def)

lemma simulate_side:
  assumes "side_ok side bs idx"
  shows "for_each_occupied bs (side = Buy)
           (\<lambda>slot level quantity.
              if quantity = 0 \<or> \<not> can_match_level buy False limit (price_of slot) then (quantity, False)
              else let quantity = simulate_level (drop (fl_head level) (fl_orders level)) quantity in (quantity, quantity > 0))
           q =
    fst (snd (spec_match (can_match_level buy False limit) t q (flatten (ct_levels side bs))))"
proof -
  let ?acc = "can_match_level buy False limit"
  let ?fn = "\<lambda>slot quantity. if quantity = 0 \<or> \<not> ?acc (price_of slot) then (quantity, False)
     else let quantity = simulate_level (drop (fl_head (bs_levels bs slot)) (fl_orders (bs_levels bs slot))) quantity in (quantity, quantity > 0)"
  have "fold_until ?fn ss q = fst (snd (spec_match ?acc t q (flatten (map (\<lambda>slot. (price_of slot, side_f side bs slot)) ss))))"
    if "set ss \<subseteq> {..<1024}" "\<forall>slot\<in>set ss. side_f side bs slot \<noteq> []" for ss q
    using that
  proof (induction ss arbitrary: q)
    case (Cons slot ss)
    have lv: "filter is_live (drop (fl_head (bs_levels bs slot)) (fl_orders (bs_levels bs slot))) = lives (bs_levels bs slot)"
      using side_okD(3) [OF assms, of slot] Cons.prems by (simp add: flat_mid_def)
    have price: "\<forall>ord\<in>set (side_f side bs slot). o_price ord = price_of slot" by (auto simp: side_f_def flat_orders_def)
    obtain m ms where m: "side_f side bs slot = m # ms" "o_price m = price_of slot"
      using Cons.prems(2) price by (cases "side_f side bs slot") auto
    show ?case
    proof (cases "q = 0 \<or> \<not> ?acc (price_of slot)")
      case True
      then show ?thesis using m by auto
    next
      case False
      obtain ts r os where lm: "spec_match (\<lambda>_. True) t q (side_f side bs slot) = (ts, r, os)"
        by (cases "spec_match (\<lambda>_. True) t q (side_f side bs slot)")
      have acc: "spec_match ?acc t q (side_f side bs slot) = (ts, r, os)"
        using spec_match_level [of "side_f side bs slot" ?acc t] price False lm by simp
      have sim: "simulate_level (drop (fl_head (bs_levels bs slot)) (fl_orders (bs_levels bs slot))) q = r"
        using count_level_matches_spec [OF lm] by (simp add: simulate_level_orders [of _ _ side slot] lv side_f_def flat_orders_def)
      have "r = 0 \<or> os = []" using spec_match_stops [OF lm] by auto
      then show ?thesis
        using False sim Cons.IH [of r] Cons.prems acc
          word_neq_0_conv [of r] by (cases "r = 0") (auto simp: spec_match_append case_prod_unfold Let_def)
    qed
  qed simp
  moreover have "\<forall>slot\<in>set (filter (slot_bit (bs_bits bs)) (slots (side = Buy))). side_f side bs slot \<noteq> []"
    using side_okD(1) [OF assms] by auto
  ultimately show ?thesis
    by (simp add: for_each_occupied_fold ct_levels_occupied [OF assms] subset_iff)
qed

text \<open>The simulated remainder is the remainder the order would really leave.\<close>

lemma simulate_remainder_take:
  assumes "ct_wf s" "spec_take i side p False q (bl_abs (ct_bl s)) = (ts, r, b)"
  shows "simulate_remainder side p q s = r"
  using assms(2) simulate_side [OF ct_wfD(2) [OF assms(1)], where t = i] simulate_side [OF ct_wfD(3) [OF assms(1)], where t = i]
  by (cases "side = Buy")
    (simp_all add: simulate_remainder_def spec_take_def spec_opposite_def bl_abs_def Let_def split: prod.splits)

subsection \<open>Changing one side\<close>

lemma set_side_ref_sel [simp]:
  "ct_index (set_side_ref side bs s) = ct_index s" "side_ref side (set_side_ref side bs s) = bs"
  by (simp_all add: set_side_ref_def side_ref_def)

lemma ct_side_ref:
  assumes "ct_sides s" "is_valid_side side"
  shows "side_ok side (side_ref side s) (ct_index s)" "bl_side side (ct_bl s) = ct_levels side (side_ref side s)"
  using assms by (auto simp: ct_sides_def is_valid_side_def side_ref_def bl_side_def)

lemma ct_set_side:
  assumes "ct_sides s" "is_valid_side side" "side_ok side bs idx" "same_side side (ct_index s) idx"
  shows "ct_sides (set_side_ref side bs (s\<lparr>ct_index := idx\<rparr>))"
    "ct_bl (set_side_ref side bs (s\<lparr>ct_index := idx\<rparr>)) = bl_set_side side (ct_levels side bs) (ix idx) (ct_bl s)"
proof -
  have "side_ok other (side_ref other s) idx" if "other \<noteq> side" "is_valid_side other" for other
    using side_ok_other [OF ct_side_ref(1) [OF assms(1) that(2)] assms(4) that(1)] .
  from this [of Buy] this [of Sell] assms(2,3)
  show "ct_sides (set_side_ref side bs (s\<lparr>ct_index := idx\<rparr>))"
    by (auto simp: ct_sides_def set_side_ref_def side_ref_def is_valid_side_def)
  show "ct_bl (set_side_ref side bs (s\<lparr>ct_index := idx\<rparr>)) = bl_set_side side (ct_levels side bs) (ix idx) (ct_bl s)"
    using assms(2) by (auto simp: ct_bl_def set_side_ref_def bl_set_side_def is_valid_side_def)
qed

lemma ct_match_opposite_sim:
  assumes "ct_wf s" "ct_match_opposite side ctx s = (s', ctx')"
  shows "ct_sides s'" "match_baseline side ctx (ct_bl s) = (ct_bl s', ctx')"
proof -
  note wf = ct_wfD [OF assms(1)]
  define res where "res = (if side = Buy then Sell else Buy)"
  have res: "is_valid_side res" "(res = Buy) = (side \<noteq> Buy)" by (auto simp: res_def is_valid_side_def)
  have sides: "ct_sides s" using assms(1) by (simp add: ct_wf_def)
  obtain bs idx c where m: "ct_match_against (side_ref res s) (res = Buy) (ct_index s) ctx = (bs, idx, c)"
    by (cases "ct_match_against (side_ref res s) (res = Buy) (ct_index s) ctx")
  have "alive_small (side_ref res s)" using ct_alive_small [OF assms(1)] by (simp add: side_ref_def)
  from ct_match_against_sim [OF ct_side_ref(1) [OF sides res(1)] this m]
  have sim: "side_ok res bs idx" "same_side res (ct_index s) idx"
      "match_ordered_levels (ct_levels res (side_ref res s)) (ix (ct_index s)) ctx = (ct_levels res bs, ix idx, c)"
    by simp_all
  have "ct_match_opposite side ctx s = (set_side_ref res bs (s\<lparr>ct_index := idx\<rparr>), c)"
    using m by (cases "side = Buy") (simp_all add: ct_match_opposite_def res_def side_ref_def set_side_ref_def)
  then have out: "s' = set_side_ref res bs (s\<lparr>ct_index := idx\<rparr>)" "ctx' = c" using assms(2) by simp_all
  note st = ct_set_side [OF sides res(1) sim(1,2)]
  show "ct_sides s'" using st(1) by (simp add: out)
  show "match_baseline side ctx (ct_bl s) = (ct_bl s', ctx')"
    unfolding out st(2) using sim(3)
    by (cases "side = Buy") (simp_all add: match_baseline_def match_against_def bl_set_side_def res_def side_ref_def)
qed

subsection \<open>Resting\<close>

lemma flat_ok_push:
  assumes "flat_ok l" "q \<noteq> 0" "l' = l\<lparr>fl_orders := fl_orders l @ [\<lparr>fo_id = i, fo_quantity = q\<rparr>], fl_alive := fl_alive l + 1\<rparr>"
  shows "flat_ok l'" "lives l' = lives l @ [\<lparr>fo_id = i, fo_quantity = q\<rparr>]"
proof -
  have mid: "flat_mid l" using assms(1) by (simp add: flat_ok_def)
  show lv: "lives l' = lives l @ [\<lparr>fo_id = i, fo_quantity = q\<rparr>]" using assms(2) by (simp add: assms(3) lives_def is_live_def)
  have "fl_head l \<le> length (fl_orders l)"
  proof (cases "0 < fl_alive l")
    case True
    then show ?thesis by (rule flat_mid_front [OF mid]) simp
  next
    case False
    then show ?thesis using assms(1) by (simp add: flat_ok_def)
  qed
  then have drp: "drop (fl_head l') (fl_orders l') = drop (fl_head l) (fl_orders l) @ [\<lparr>fo_id = i, fo_quantity = q\<rparr>]"
    by (simp add: assms(3))
  have "lives l = filter is_live (drop (fl_head l) (fl_orders l))" using mid by (simp add: flat_mid_def)
  then have flt: "lives l' = filter is_live (drop (fl_head l') (fl_orders l'))"
    unfolding drp lv using assms(2) by (simp add: is_live_def)
  have front: "is_live ord" if "drop (fl_head l') (fl_orders l') = ord # others" for ord others
    using that mid assms(2) unfolding drp by (cases "drop (fl_head l) (fl_orders l)") (auto simp: flat_mid_def is_live_def)
  have "fl_alive l' = length (lives l')" using flat_mid_alive [OF mid] by (simp add: lv) (simp add: assms(3))
  with flt front have "flat_mid l'" unfolding flat_mid_def by blast
  then show "flat_ok l'" using assms(1) by (auto simp: flat_ok_def assms(3))
qed

lemma flat_ok_length: "flat_ok l \<Longrightarrow> fl_alive l < 2 ^ 31 \<Longrightarrow> length (fl_orders l) < 2 ^ 32"
  by (auto simp: flat_ok_def max_def split: if_splits)

lemma ct_rest_sim:
  assumes "ct_sides s" "is_valid_side side" "in_band p" "q \<noteq> 0" "ct_index s i = None"
    "fl_alive (bs_levels (side_ref side s) (slot_of p)) < 2 ^ 31"
  shows "ct_sides (fst (ct_rest i side p q s))" "ct_bl (fst (ct_rest i side p q s)) = bl_rest i side p q (ct_bl s)"
proof -
  define bs where "bs = side_ref side s"
  define slot where "slot = slot_of p"
  define l where "l = bs_levels bs slot"
  define l' where "l' = l\<lparr>fl_orders := fl_orders l @ [\<lparr>fo_id = i, fo_quantity = q\<rparr>], fl_alive := fl_alive l + 1\<rparr>"
  define idx where "idx = (ct_index s)(i \<mapsto> \<lparr>cl_side = side, cl_price = p, cl_pos = length (fl_orders l)\<rparr>)"
  define bits where "bits = (if fl_alive l = 0 then set_slot_bit slot (bs_bits bs) else bs_bits bs)"
  have sl: "slot < 1024" "price_of slot = p" using in_band_slot [OF assms(3)] by (simp_all add: slot_def)
  note ok = ct_side_ref(1) [OF assms(1,2), folded bs_def]
  note lok = side_okD [OF ok sl(1), folded l_def]
  have small: "length (fl_orders l) < 2 ^ 32" using flat_ok_length [OF lok(2)] assms(6) by (simp add: l_def bs_def slot_def)
  have out: "fst (ct_rest i side p q s) = set_side_ref side \<lparr>bs_levels = (bs_levels bs)(slot := l'), bs_bits = bits\<rparr> (s\<lparr>ct_index := idx\<rparr>)"
    using assms(3,6) small
    by (simp add: ct_rest_def Let_def bs_def [symmetric] slot_def [symmetric] l_def [symmetric] l'_def idx_def bits_def to_u32_def)
  have same: "same_except side slot (ct_index s) idx" unfolding idx_def by (rule same_except_new [of "ct_index s", OF assms(5)])
  note push = flat_ok_push [OF lok(2) assms(4) l'_def]
  have "entry_ok side slot l' idx"
    unfolding entry_ok_def
  proof (intro allI impI)
    fix k assume k: "k < length (fl_orders l')" "is_live (fl_orders l' ! k)"
    show "idx (fo_id (fl_orders l' ! k)) = Some \<lparr>cl_side = side, cl_price = price_of slot, cl_pos = k\<rparr>"
    proof (cases "k < length (fl_orders l)")
      case True
      then have "fl_orders l' ! k = fl_orders l ! k" by (simp add: l'_def nth_append)
      then show ?thesis using entry_okD [OF lok(4) True] k(2) assms(5) by (auto simp: idx_def)
    next
      case False
      then have "k = length (fl_orders l)" using k(1) by (simp add: l'_def)
      then show ?thesis by (simp add: l'_def idx_def sl(2))
    qed
  qed
  moreover have "slot_bit bits k \<longleftrightarrow> (if k = slot then lives l' \<noteq> [] else slot_bit (bs_bits bs) k)" if "k < 1024" for k
    using lok(1) flat_mid_alive [OF lok(3)] by (auto simp: bits_def push(2))
  ultimately have sok: "side_ok side \<lparr>bs_levels = (bs_levels bs)(slot := l'), bs_bits = bits\<rparr> idx"
    using side_ok_upd [OF ok sl(1) same push(1)] by blast
  note st = ct_set_side [OF assms(1,2) sok same_except_side [OF same]]
  show "ct_sides (fst (ct_rest i side p q s))" unfolding out by (rule st(1))
  let ?ord = "\<lparr>o_id = i, o_side = side, o_price = p, o_quantity = q\<rparr>"
  have "flat_orders side slot l' = side_f side bs slot @ [?ord]"
    by (simp add: flat_orders_def push(2) side_f_def l_def [symmetric] mk_order_def sl(2))
  then have "ct_levels side \<lparr>bs_levels = (bs_levels bs)(slot := l'), bs_bits = bits\<rparr> = rest_levels (side = Buy) ?ord (ct_levels side bs)"
    using entries_rest [OF sl(1), of ?ord "side = Buy" "side_f side bs"] sl(2) by (simp add: ct_levels_def side_f_upd)
  then show "ct_bl (fst (ct_rest i side p q s)) = bl_rest i side p q (ct_bl s)"
    unfolding out st(2) bl_rest_set_side [OF assms(2) refl] ct_side_ref(2) [OF assms(1,2)]
    by (simp add: bs_def [symmetric] idx_def locate_def)
qed

subsection \<open>Locating, cancelling and reducing\<close>

text \<open>A locator found in the index is in range and points at the live order with that id.\<close>

lemma side_mem:
  assumes "side_ok side bs idx" "ord \<in> set (flatten (ct_levels side bs))"
  obtains slot k where "slot < 1024" "k < length (fl_orders (bs_levels bs slot))" "is_live (fl_orders (bs_levels bs slot) ! k)"
    "ord = mk_order side slot (fl_orders (bs_levels bs slot) ! k)"
    "idx (o_id ord) = Some \<lparr>cl_side = side, cl_price = price_of slot, cl_pos = k\<rparr>"
proof -
  obtain slot where sl: "slot < 1024" "ord \<in> set (side_f side bs slot)"
    using assms(2) by (auto simp: flatten_def ct_levels_def entries_def)
  then obtain fo where fo: "fo \<in> set (lives (bs_levels bs slot))" "ord = mk_order side slot fo"
    by (auto simp: side_f_def flat_orders_def)
  then obtain k where k: "k < length (fl_orders (bs_levels bs slot))" "fl_orders (bs_levels bs slot) ! k = fo" "is_live fo"
    by (auto simp: lives_mem)
  have "idx (o_id ord) = Some \<lparr>cl_side = side, cl_price = price_of slot, cl_pos = k\<rparr>"
    using entry_okD [OF side_okD(4) [OF assms(1) sl(1)] k(1)] k fo by simp
  with that sl k fo show thesis by blast
qed

lemma ct_locate:
  assumes "ct_wf s" "ct_index s i = Some loc" "l = bs_levels (side_ref (cl_side loc) s) (slot_of (cl_price loc))"
  shows "is_valid_side (cl_side loc)" "in_band (cl_price loc)" "cl_pos loc < length (fl_orders l)"
    "is_live (fl_orders l ! cl_pos loc)" "fo_id (fl_orders l ! cl_pos loc) = i"
    "loc_order \<lparr>loc_side = cl_side loc, loc_price = cl_price loc, loc_it = i\<rparr> (ct_bl s) =
       Some (mk_order (cl_side loc) (slot_of (cl_price loc)) (fl_orders l ! cl_pos loc))"
proof -
  note wf = ct_wfD [OF assms(1)]
  let ?loc = "\<lparr>loc_side = cl_side loc, loc_price = cl_price loc, loc_it = i\<rparr>"
  have "index (ct_bl s) i = Some ?loc" using assms(2) by (simp add: ix_def)
  then obtain ord where o: "loc_order ?loc (ct_bl s) = Some ord" "o_id ord = i" "ord \<in> set (spec_orders (bl_abs (ct_bl s)))"
    by (rule bl_locate [OF wf(1)])
  then consider "ord \<in> set (flatten (ct_levels Buy (ct_bids s)))" | "ord \<in> set (flatten (ct_levels Sell (ct_asks s)))"
    by (auto simp: spec_orders_def bl_abs_def)
  then have "\<exists>side slot k. is_valid_side side \<and> slot < 1024 \<and> k < length (fl_orders (bs_levels (side_ref side s) slot)) \<and>
      is_live (fl_orders (bs_levels (side_ref side s) slot) ! k) \<and> ord = mk_order side slot (fl_orders (bs_levels (side_ref side s) slot) ! k) \<and>
      loc = \<lparr>cl_side = side, cl_price = price_of slot, cl_pos = k\<rparr>"
  proof cases
    case 1
    then show ?thesis by (rule side_mem [OF wf(2)]) (use assms(2) o(2) in \<open>auto simp: is_valid_side_def side_ref_def\<close>)
  next
    case 2
    then show ?thesis
      by (rule side_mem [OF wf(3)]) (use assms(2) o(2) in \<open>intro exI [of _ Sell], auto simp: is_valid_side_def side_ref_def\<close>)
  qed
  then show "is_valid_side (cl_side loc)" "in_band (cl_price loc)" "cl_pos loc < length (fl_orders l)"
    "is_live (fl_orders l ! cl_pos loc)" "fo_id (fl_orders l ! cl_pos loc) = i"
    "loc_order ?loc (ct_bl s) = Some (mk_order (cl_side loc) (slot_of (cl_price loc)) (fl_orders l ! cl_pos loc))"
    using o(1,2) by (auto simp: assms(3) in_band_price_of)
qed

lemma flat_mid_live_pos:
  assumes "flat_mid l" "k < length (fl_orders l)" "is_live (fl_orders l ! k)"
  shows "fl_head l \<le> k" "0 < fl_alive l"
proof -
  have "fl_orders l ! k \<in> set (lives l)" using assms(2,3) by (auto simp: lives_mem)
  then show al: "0 < fl_alive l" using flat_mid_alive [OF assms(1)] by (auto simp: length_greater_0_conv [symmetric] simp del: length_greater_0_conv)
  have none: "filter is_live (take (fl_head l) (fl_orders l)) = []" by (rule flat_mid_front [OF assms(1) al])
  show "fl_head l \<le> k"
  proof (rule ccontr)
    assume "\<not> fl_head l \<le> k"
    then have "fl_orders l ! k \<in> set (take (fl_head l) (fl_orders l))" using assms(2) by (auto simp: in_set_conv_nth)
    then show False using none assms(3) by (auto simp: filter_empty_conv)
  qed
qed

lemma flat_mid_drop_update:
  assumes "flat_mid l" "k < length (fl_orders l)" "is_live (fl_orders l ! k)"
  shows "filter is_live ((fl_orders l)[k := y]) = filter is_live (drop (fl_head l) ((fl_orders l)[k := y]))"
proof -
  note p = flat_mid_live_pos [OF assms]
  have "filter is_live (take (fl_head l) (fl_orders l)) = []" by (rule flat_mid_front [OF assms(1) p(2)])
  moreover have "take (fl_head l) ((fl_orders l)[k := y]) = take (fl_head l) (fl_orders l)" using p(1) by (rule take_update_cancel)
  ultimately have "filter is_live (take (fl_head l) ((fl_orders l)[k := y])) = []" by (simp only:)
  then show ?thesis by (metis append_take_drop_id filter_append append_Nil)
qed

text \<open>A tombstone at a live position, as \<^verbatim>\<open>remove_resting\<close> writes it before it may compact.\<close>

lemma tombstone:
  assumes "flat_mid l" "entry_ok side slot l idx" "k < length (fl_orders l)" "is_live (fl_orders l ! k)"
    and "l1 = l\<lparr>fl_orders := (fl_orders l)[k := (fl_orders l ! k)\<lparr>fo_quantity := 0\<rparr>], fl_alive := fl_alive l - 1\<rparr>"
    and "l2 = (if k = fl_head l1 then advance_head l1 else l1)"
  shows "flat_mid l2" "lives l2 = filter (\<lambda>fo. fo_id fo \<noteq> fo_id (fl_orders l ! k)) (lives l)"
    "fl_alive l2 = fl_alive l1" "entry_ok side slot l2 (idx(fo_id (fl_orders l ! k) := None))"
proof -
  let ?y = "(fl_orders l ! k)\<lparr>fo_quantity := 0\<rparr>"
  have rm: "lives l1 = filter (\<lambda>fo. fo_id fo \<noteq> fo_id (fl_orders l ! k)) (lives l)" "length (lives l1) = length (lives l) - 1"
    using filter_remove_nth [OF assms(3,4) entry_ok_distinct [OF assms(2), unfolded lives_def], of ?y]
    by (simp_all add: assms(5) lives_def is_live_def)
  have flt: "lives l1 = filter is_live (drop (fl_head l1) (fl_orders l1))"
    using flat_mid_drop_update [OF assms(1,3,4), of ?y] by (simp add: assms(5) lives_def)
  from rm(2) have al: "fl_alive l1 = length (lives l1)" using flat_mid_alive [OF assms(1)] by (simp add: assms(5))
  have "flat_mid l2 \<and> lives l2 = lives l1"
  proof (cases "k = fl_head l1")
    case True
    then show ?thesis using flat_mid_advance [OF al flt] by (simp add: assms(6))
  next
    case False
    have less: "fl_head l < k" using flat_mid_live_pos(1) [OF assms(1,3,4)] False by (simp add: assms(5))
    obtain maker others where f: "drop (fl_head l) (fl_orders l) = maker # others" "is_live maker"
      by (rule flat_mid_front [OF assms(1) flat_mid_live_pos(2) [OF assms(1,3,4)]])
    have "drop (fl_head l1) (fl_orders l1) = (drop (fl_head l) (fl_orders l))[k - fl_head l := ?y]"
      using less by (simp add: assms(5) drop_update_swap)
    also have "\<dots> = maker # others[k - fl_head l - 1 := ?y]" using less by (cases "k - fl_head l") (simp_all add: f(1))
    finally have "flat_mid l1" unfolding flat_mid_def using al flt f(2) by simp
    then show ?thesis using False by (simp add: assms(6))
  qed
  then show "flat_mid l2" "lives l2 = filter (\<lambda>fo. fo_id fo \<noteq> fo_id (fl_orders l ! k)) (lives l)" using rm(1) by simp_all
  show "fl_alive l2 = fl_alive l1" by (simp add: assms(6))
  show "entry_ok side slot l2 (idx(fo_id (fl_orders l ! k) := None))"
    by (rule entry_ok_update(2) [OF assms(2,3,4)]) (simp_all add: assms(5,6))
qed

lemma erase_from_side_entries:
  assumes "slot < 1024" "f slot \<noteq> []" "loc_price loc = price_of slot"
  shows "erase_from_side loc (entries is_bid f) =
    entries is_bid (f(slot := filter (\<lambda>ord. o_id ord \<noteq> loc_it loc) (f slot)))"
proof -
  let ?x = "filter (\<lambda>ord. o_id ord \<noteq> loc_it loc) (f slot)"
  have look: "map_of (entries is_bid f) (price_of slot) = Some (f slot)"
    using assms(1,2) by (simp add: map_of_entries in_band_price_of)
  have mem: "price_of slot \<in> fst ` set (entries is_bid f)"
    using assms(1,2) by (simp add: map_of_entries_mem in_band_price_of)
  have new: "map_of (std_map_set (price_of slot) ?x (entries is_bid f)) (price_of slot) = Some ?x"
    using mem by (simp add: map_of_std_map_set)
  show ?thesis
  proof (cases "?x = []")
    case True
    have "std_map_erase (price_of slot) (std_map_set (price_of slot) y m) = std_map_erase (price_of slot) m" for y :: Level and m
      by (induction m) auto
    then show ?thesis
      using entries_erase [OF assms(1), of is_bid f] look new True assms(3)
      by (simp add: erase_from_side_def erase_level_if_empty_def)
  next
    case False
    then show ?thesis
      using entries_set [OF assms(1), of f ?x is_bid] assms(2,3) look new by (simp add: erase_from_side_def erase_level_if_empty_def)
  qed
qed

lemma remove_resting_sim:
  assumes "ct_sides s" "alive_small (side_ref side s)" "is_valid_side side" "slot < 1024"
    and "l = bs_levels (side_ref side s) slot" "k < length (fl_orders l)" "is_live (fl_orders l ! k)" "fo_id (fl_orders l ! k) = i"
    and "s' = remove_resting \<lparr>cl_side = side, cl_price = price_of slot, cl_pos = k\<rparr> (s\<lparr>ct_index := (ct_index s)(i := None)\<rparr>)"
  shows "ct_sides s'"
    "ct_bl s' = bl_set_side side (erase_from_side \<lparr>loc_side = side, loc_price = price_of slot, loc_it = i\<rparr> (ct_levels side (side_ref side s)))
       (ix ((ct_index s)(i := None))) (ct_bl s)"
proof -
  let ?idx = "(ct_index s)(i := None)"
  define bs where "bs = side_ref side s"
  note l = assms(5) [folded bs_def]
  note ok = ct_side_ref(1) [OF assms(1,3), folded bs_def]
  note lok = side_okD [OF ok assms(4), folded l]
  define l1 where "l1 = l\<lparr>fl_orders := (fl_orders l)[k := (fl_orders l ! k)\<lparr>fo_quantity := 0\<rparr>], fl_alive := fl_alive l - 1\<rparr>"
  define l2 where "l2 = (if k = fl_head l1 then advance_head l1 else l1)"
  note tomb = tombstone [OF lok(3,4) assms(6,7) l1_def l2_def, unfolded assms(8)]
  have idx: "ct_index s i = Some \<lparr>cl_side = side, cl_price = price_of slot, cl_pos = k\<rparr>"
    using entry_okD [OF lok(4) assms(6,7)] assms(8) by simp
  have same: "same_except side slot (ct_index s) ?idx"
    by (rule same_except_own [of "ct_index s", OF idx]) simp_all
  have ne: "side_f side bs slot \<noteq> []"
    using assms(6,7) by (auto simp: lives_def l [symmetric] filter_empty_conv)
  have fo: "flat_orders side slot x = filter (\<lambda>ord. o_id ord \<noteq> i) (side_f side bs slot)" if "lives x = lives l2" for x
    by (simp add: flat_orders_def that tomb(2) side_f_def l [symmetric] filter_map comp_def)
  have al: "fl_alive l1 \<le> 2 ^ 31" using assms(2,4) by (auto simp: alive_small_def l1_def l bs_def intro: order_trans [of _ "fl_alive l"])
  have sref: "side_ref side (s\<lparr>ct_index := x\<rparr>) = bs" for x by (simp add: bs_def side_ref_def)
  have bsu: "bs\<lparr>bs_levels := g\<rparr> = \<lparr>bs_levels = g, bs_bits = bs_bits bs\<rparr>" for g by (cases bs) simp
  have step: "s' = (if fl_alive l1 = 0 then set_side_ref side (clear_level slot (bs\<lparr>bs_levels := (bs_levels bs)(slot := l1)\<rparr>)) (s\<lparr>ct_index := ?idx\<rparr>)
      else let (level, idx) = maybe_compact l2 ?idx
           in set_side_ref side (bs\<lparr>bs_levels := (bs_levels bs)(slot := level)\<rparr>) (s\<lparr>ct_index := ?idx\<rparr>\<lparr>ct_index := idx\<rparr>))"
    by (simp only: assms(9) remove_resting_def Let_def FlatLocator.simps slot_of_price_of [OF assms(4)] sref l [symmetric]
        l1_def [symmetric] l2_def [symmetric]) simp
  obtain bs' idx' where b: "s' = set_side_ref side bs' (s\<lparr>ct_index := idx'\<rparr>)" "side_ok side bs' idx'" "same_side side (ct_index s) idx'"
      "ct_levels side bs' = entries (side = Buy) ((side_f side bs)(slot := filter (\<lambda>ord. o_id ord \<noteq> i) (side_f side bs slot)))"
      "ix idx' = ix ?idx"
  proof (cases "fl_alive l1 = 0")
    case True
    let ?bs = "clear_level slot bs"
    have "s' = set_side_ref side ?bs (s\<lparr>ct_index := ?idx\<rparr>)"
      using True by (simp add: step clear_level_def)
    moreover have "side_ok side ?bs ?idx"
      unfolding clear_level_eq by (rule side_ok_upd [OF ok assms(4) same]) simp_all
    moreover have "lives l2 = []" using flat_mid_alive [OF tomb(1)] tomb(3) True by simp
    then have "ct_levels side ?bs = entries (side = Buy) ((side_f side bs)(slot := filter (\<lambda>ord. o_id ord \<noteq> i) (side_f side bs slot)))"
      unfolding ct_levels_def clear_level_eq side_f_upd by (subst fo) simp_all
    ultimately show thesis using that same_except_side [OF same] by blast
  next
    case False
    obtain l3 idx3 where mc: "maybe_compact l2 ?idx = (l3, idx3)" by (cases "maybe_compact l2 ?idx")
    have c: "flat_ok l3" "entry_ok side slot l3 idx3" "same_except side slot ?idx idx3" "ix idx3 = ix ?idx" "lives l3 = lives l2"
      using maybe_compact_sim [OF tomb(1,4) _ _ mc] False al by (simp_all add: tomb(3))
    have sm: "same_except side slot (ct_index s) idx3" by (rule same_except_trans [OF same c(3)])
    let ?bs = "\<lparr>bs_levels = (bs_levels bs)(slot := l3), bs_bits = bs_bits bs\<rparr>"
    have "s' = set_side_ref side ?bs (s\<lparr>ct_index := idx3\<rparr>)"
      using False mc by (simp add: step bsu)
    moreover have "lives l3 \<noteq> []" using flat_mid_alive [OF tomb(1)] tomb(3) False c(5) by auto
    then have "side_ok side ?bs idx3"
      by (intro side_ok_upd [OF ok assms(4) sm c(1,2)]) (use lok(1) ne in \<open>simp add: l [symmetric]\<close>)
    moreover have "ct_levels side ?bs = entries (side = Buy) ((side_f side bs)(slot := filter (\<lambda>ord. o_id ord \<noteq> i) (side_f side bs slot)))"
      by (simp add: ct_levels_def side_f_upd fo [OF c(5)])
    ultimately show thesis using that same_except_side [OF sm] c(4) by blast
  qed
  note st = ct_set_side [OF assms(1,3) b(2,3)]
  show "ct_sides s'" unfolding b(1) by (rule st(1))
  have "erase_from_side \<lparr>loc_side = side, loc_price = price_of slot, loc_it = i\<rparr> (ct_levels side bs) = ct_levels side bs'"
    unfolding b(4) ct_levels_def [of side bs] using erase_from_side_entries [of slot "side_f side bs", OF assms(4) ne] by simp
  then show "ct_bl s' = bl_set_side side (erase_from_side \<lparr>loc_side = side, loc_price = price_of slot, loc_it = i\<rparr>
      (ct_levels side (side_ref side s))) (ix ?idx) (ct_bl s)"
    unfolding b(1) st(2) b(5) by (simp add: bs_def)
qed

lemma ct_cancel_sim:
  assumes "ct_wf s"
  shows "ct_wf (fst (ct_cancel i s)) \<and> (ct_bl (fst (ct_cancel i s)), snd (ct_cancel i s)) = bl_cancel i (ct_bl s)"
proof (cases "ct_index s i")
  case None
  then show ?thesis using assms by (simp add: ct_cancel_def bl_cancel_def ix_def)
next
  case (Some loc)
  define l where "l = bs_levels (side_ref (cl_side loc) s) (slot_of (cl_price loc))"
  note loc = ct_locate [OF assms Some l_def]
  note sl = in_band_slot [OF loc(2)]
  have sides: "ct_sides s" using assms by (simp add: ct_wf_def)
  have small: "alive_small (side_ref (cl_side loc) s)" using ct_alive_small [OF assms] by (simp add: side_ref_def)
  let ?s = "remove_resting loc (s\<lparr>ct_index := (ct_index s)(i := None)\<rparr>)"
  have eq: "\<lparr>cl_side = cl_side loc, cl_price = cl_price loc, cl_pos = cl_pos loc\<rparr> = loc"
    by (cases loc) simp
  note r = remove_resting_sim [OF sides small loc(1) sl(1) l_def loc(3-5) refl, unfolded sl(2) eq]
  have idx: "index (ct_bl s) i = Some \<lparr>loc_side = cl_side loc, loc_price = cl_price loc, loc_it = i\<rparr>"
    using Some by (simp add: ix_def)
  have sim: "(ct_bl ?s, True) = bl_cancel i (ct_bl s)"
    unfolding bl_cancel_set_side [OF idx] r(2) ct_side_ref(2) [OF sides loc(1)] by simp
  have "bl_wf (ct_bl ?s)" using bl_cancel_spec [OF ct_wfD(1) [OF assms], of i] sim by (metis fst_conv)
  moreover have "ct_order_count ?s \<le> 2 ^ 31"
  proof -
    have "dom (index (ct_bl ?s)) = dom (ct_index s) - {i}" by (simp add: r(2) bl_set_side_def)
    then have "ct_order_count ?s = card (dom (ct_index s) - {i})" by (simp add: ct_order_count_def)
    also have "\<dots> \<le> card (dom (ct_index s))" by (rule card_Diff1_le)
    finally show ?thesis using assms by (simp add: ct_wf_def ct_order_count_def)
  qed
  ultimately show ?thesis using r(1) sim Some by (simp add: ct_cancel_def ct_wf_def)
qed

subsection \<open>Adding\<close>

lemma ct_contains_sim: "ct_contains i s = bl_contains i (ct_bl s)"
  by (simp add: ct_contains_def bl_contains_def)

text \<open>One crossing, with what it leaves for resting.\<close>

lemma ct_cross:
  assumes "ct_wf s" "\<not> ct_contains i s" "spec_take i side p mkt q (bl_abs (ct_bl s)) = (ts, r, b)"
    and "ctx = \<lparr>mc_taker_id = i, mc_taker_is_buy = (side = Buy), mc_limit = p, mc_is_market = mkt, mc_quantity = q, mc_trades = []\<rparr>"
  obtains s' where "ct_match_opposite side ctx s = (s', mc_after ctx ts r)"
    "match_baseline side ctx (ct_bl s) = (ct_bl s', mc_after ctx ts r)"
    "ct_wf s'" "bl_abs (ct_bl s') = b" "ct_index s' i = None" "ct_order_count s' \<le> ct_order_count s"
proof -
  note wf = ct_wfD [OF assms(1)]
  obtain b1 where b1: "match_baseline side ctx (ct_bl s) = (b1, mc_after ctx ts r)" "bl_wf b1" "bl_abs b1 = b"
    using match_baseline_spec [OF wf(1), of ctx side] assms(3) by (auto simp: assms(4))
  obtain s' c where m: "ct_match_opposite side ctx s = (s', c)" by (cases "ct_match_opposite side ctx s")
  note sim = ct_match_opposite_sim [OF assms(1) m]
  have eq: "ct_bl s' = b1" "c = mc_after ctx ts r" using sim(2) b1(1) by simp_all
  have "i \<notin> o_id ` set (spec_orders b)"
    using assms(2) bl_contains_spec [OF wf(1), of i] spec_take_ids [OF assms(3)]
    by (auto simp: ct_contains_sim spec_contains_def)
  then have "\<not> bl_contains i b1" using bl_contains_spec [OF b1(2), of i] b1(3) by (simp add: spec_contains_def)
  then have "ct_index s' i = None" using ct_contains_sim [of i s'] by (simp add: eq ct_contains_def)
  moreover have cnt: "ct_order_count s' \<le> ct_order_count s"
    using bl.order_count_spec [OF wf(1)] bl.order_count_spec [OF b1(2)] spec_take_length [OF assms(3)] b1(3)
    by (simp add: ct_order_count_bl eq)
  moreover have "ct_wf s'" using sim(1) b1(2) cnt assms(1) by (simp add: ct_wf_def eq)
  ultimately show thesis using that m b1 eq by simp
qed

lemma ct_add_market_sim:
  assumes "ct_wf s"
  shows "ct_wf (fst (ct_add_market i side q s)) \<and>
    (ct_bl (fst (ct_add_market i side q s)), snd (ct_add_market i side q s)) = bl_add_market i side q (ct_bl s)"
proof (cases "ct_contains i s")
  case True
  then show ?thesis using assms by (simp add: ct_add_market_def bl_add_market_def match_incoming_def ct_contains_sim)
next
  case False
  obtain ts r b where t: "spec_take i side (Ticks 0) True q (bl_abs (ct_bl s)) = (ts, r, b)"
    by (cases "spec_take i side (Ticks 0) True q (bl_abs (ct_bl s))")
  show ?thesis
    by (rule ct_cross [OF assms False t refl])
      (use False in \<open>simp add: ct_add_market_def bl_add_market_def match_incoming_def ct_contains_sim\<close>)
qed

lemma ct_add_limit_sim:
  assumes "ct_wf s" "ct_room s" "is_valid_side side" "ct_can_store_limit side p q tif s"
    and "inp = \<lparr>li_id = i, li_side = side, li_price = p, li_quantity = q, li_tif = tif\<rparr>"
  shows "ct_wf (fst (ct_add_limit inp s)) \<and>
    (ct_bl (fst (ct_add_limit inp s)), snd (ct_add_limit inp s)) = bl_add_limit i side p q tif (ct_bl s)"
proof (cases "ct_contains i s")
  case True
  then show ?thesis
    using assms by (simp add: ct_add_limit_def bl_add_limit_def match_incoming_def ct_contains_sim should_rest_limit_def)
next
  case False
  let ?ctx = "\<lparr>mc_taker_id = i, mc_taker_is_buy = (side = Buy), mc_limit = p, mc_is_market = False, mc_quantity = q, mc_trades = []\<rparr>"
  obtain ts r b where t: "spec_take i side p False q (bl_abs (ct_bl s)) = (ts, r, b)"
    by (cases "spec_take i side p False q (bl_abs (ct_bl s))")
  obtain s' where x: "ct_match_opposite side ?ctx s = (s', mc_after ?ctx ts r)"
      "match_baseline side ?ctx (ct_bl s) = (ct_bl s', mc_after ?ctx ts r)"
      "ct_wf s'" "bl_abs (ct_bl s') = b" "ct_index s' i = None" "ct_order_count s' \<le> ct_order_count s"
    by (rule ct_cross [OF assms(1) False t refl])
  have add: "ct_add_limit inp s = (if r \<noteq> 0 \<and> tif = GTC then fst (ct_rest i side p r s') else s', ts)"
    using x(1) False assms(4,5) by (simp add: ct_add_limit_def match_incoming_def should_rest_limit_def)
  have base: "bl_add_limit i side p q tif (ct_bl s) = (if r \<noteq> 0 \<and> tif = GTC then bl_rest i side p r (ct_bl s') else ct_bl s', ts)"
    using x(2) False by (simp add: bl_add_limit_def match_incoming_def should_rest_limit_def ct_contains_sim)
  show ?thesis
  proof (cases "r \<noteq> 0 \<and> tif = GTC")
    case True
    have band: "in_band p"
      using assms(4) True simulate_remainder_take [OF assms(1) t] by (auto simp: ct_can_store_limit_def split: if_splits)
    note sl = in_band_slot [OF band]
    have sides: "ct_sides s'" and bwf: "bl_wf (ct_bl s')" using x(3) by (simp_all add: ct_wf_def)
    have "fl_alive (bs_levels (side_ref side s') (slot_of p)) < 2 ^ 31"
      using ct_alive_le [OF bwf sides sl(1)] x(6) assms(2) by (auto simp: ct_room_def side_ref_def intro: le_less_trans)
    note rest = ct_rest_sim [OF sides assms(3) band _ x(5) this, of r]
    have bl: "ct_bl (fst (ct_rest i side p r s')) = bl_rest i side p r (ct_bl s')" using rest(2) True by simp
    have "bl_wf (ct_bl (fst (ct_rest i side p r s')))"
      using bl_add_limit_spec [OF ct_wfD(1) [OF assms(1)], of i side p q tif] base True bl by simp
    moreover have "ct_order_count (fst (ct_rest i side p r s')) \<le> 2 ^ 31"
    proof -
      have "ct_index (fst (ct_rest i side p r s')) = (ct_index s')(i \<mapsto> \<lparr>cl_side = side, cl_price = p,
          cl_pos = to_u32 (length (fl_orders (bs_levels (side_ref side s') (slot_of p))))\<rparr>)"
        using band by (simp add: ct_rest_def Let_def)
      then have "ct_order_count (fst (ct_rest i side p r s')) \<le> Suc (ct_order_count s')"
        by (simp add: ct_order_count_def card_insert_le_m1 card_insert_if)
      then show ?thesis using x(6) assms(2) by (simp add: ct_room_def)
    qed
    ultimately show ?thesis unfolding add base using rest(1) True by (simp add: bl ct_wf_def)
  next
    case False
    then show ?thesis using x(3) by (auto simp: add base)
  qed
qed

subsection \<open>Modifying\<close>

lemma reduce_level:
  assumes "flat_ok l" "entry_ok side slot l idx" "k < length (fl_orders l)" "is_live (fl_orders l ! k)" "q \<noteq> 0"
    and "l' = l\<lparr>fl_orders := (fl_orders l)[k := (fl_orders l ! k)\<lparr>fo_quantity := q\<rparr>]\<rparr>"
  shows "flat_ok l'" "entry_ok side slot l' idx"
    "flat_orders side slot l' = set_qty (fo_id (fl_orders l ! k)) q (flat_orders side slot l)"
proof -
  let ?y = "(fl_orders l ! k)\<lparr>fo_quantity := q\<rparr>"
  have mid: "flat_mid l" using assms(1) by (simp add: flat_ok_def)
  have live: "is_live ?y" using assms(5) by (simp add: is_live_def)
  have d: "distinct (map fo_id (filter is_live (fl_orders l)))" using entry_ok_distinct [OF assms(2)] by (simp add: lives_def)
  have lv: "lives l' = map (\<lambda>x. if fo_id x = fo_id (fl_orders l ! k) then ?y else x) (lives l)"
    using filter_set_nth [of k "fl_orders l" is_live fo_id ?y] assms(3,4) d live by (simp add: assms(6) lives_def)
  have flt: "lives l' = filter is_live (drop (fl_head l') (fl_orders l'))"
    using flat_mid_drop_update [OF mid assms(3,4), of ?y] by (simp add: assms(6) lives_def)
  have al: "fl_alive l' = length (lives l')" using flat_mid_alive [OF mid] by (simp add: lv) (simp add: assms(6))
  note p = flat_mid_live_pos [OF mid assms(3,4)]
  obtain maker others where f: "drop (fl_head l) (fl_orders l) = maker # others" "is_live maker"
    by (rule flat_mid_front [OF mid p(2)])
  have "drop (fl_head l') (fl_orders l') = (maker # others)[k - fl_head l := ?y]"
    using p(1) by (simp add: assms(6) drop_update_swap f(1))
  then have "is_live ord" if "drop (fl_head l') (fl_orders l') = ord # xs" for ord xs
    using that f(2) live by (cases "k - fl_head l") auto
  then have "flat_mid l'" unfolding flat_mid_def using al flt by blast
  then show "flat_ok l'" using assms(1) p(2) by (auto simp: flat_ok_def assms(6))
  show "entry_ok side slot l' idx"
    by (rule entry_ok_update(1) [OF assms(2,3,4) _ assms(5)]) (simp add: assms(6))
  have same: "x = fl_orders l ! k" if m: "x \<in> set (lives l)" and e: "fo_id x = fo_id (fl_orders l ! k)" for x
  proof -
    obtain j where "j < length (fl_orders l)" "fl_orders l ! j = x" "is_live x" using m by (auto simp: lives_mem)
    then show ?thesis using entry_ok_inj [OF assms(2), of j k] assms(3,4) e by simp
  qed
  show "flat_orders side slot l' = set_qty (fo_id (fl_orders l ! k)) q (flat_orders side slot l)"
    unfolding flat_orders_def lv set_qty_def map_map by (rule map_cong [OF refl]) (use same in \<open>auto simp: mk_order_def\<close>)
qed

lemma ct_reduce_sim:
  assumes "ct_wf s" "ct_index s i = Some loc" "q \<noteq> 0"
    and "slot = slot_of (cl_price loc)" "bs = side_ref (cl_side loc) s" "l = bs_levels bs slot"
    and "s' = set_side_ref (cl_side loc) (bs\<lparr>bs_levels := (bs_levels bs)(slot := l\<lparr>fl_orders := (fl_orders l)[cl_pos loc :=
                                (fl_orders l ! cl_pos loc)\<lparr>fo_quantity := q\<rparr>]\<rparr>)\<rparr>) s"
  shows "ct_wf s' \<and> ct_bl s' = set_loc_quantity \<lparr>loc_side = cl_side loc, loc_price = cl_price loc, loc_it = i\<rparr> q (ct_bl s)"
proof -
  let ?side = "cl_side loc"
  note wf = ct_wfD [OF assms(1)]
  have sides: "ct_sides s" using assms(1) by (simp add: ct_wf_def)
  note loc = ct_locate [OF assms(1,2) assms(6) [unfolded assms(4,5)]]
  have sl: "slot < 1024" "price_of slot = cl_price loc" using in_band_slot [OF loc(2)] by (simp_all add: assms(4))
  note ok = ct_side_ref(1) [OF sides loc(1), folded assms(5)]
  note lok = side_okD [OF ok sl(1), folded assms(6)]
  define l' where "l' = l\<lparr>fl_orders := (fl_orders l)[cl_pos loc := (fl_orders l ! cl_pos loc)\<lparr>fo_quantity := q\<rparr>]\<rparr>"
  note r = reduce_level [OF lok(2,4) loc(3,4) assms(3) l'_def, unfolded loc(5)]
  let ?bs = "\<lparr>bs_levels = (bs_levels bs)(slot := l'), bs_bits = bs_bits bs\<rparr>"
  have fo: "flat_orders ?side slot l' = set_qty i q (side_f ?side bs slot)" using r(3) by (simp add: side_f_def assms(6))
  have ne: "side_f ?side bs slot \<noteq> []"
    using loc(3,4) by (auto simp: lives_def assms(6) [symmetric] filter_empty_conv)
  then have "flat_orders ?side slot l' \<noteq> []" unfolding fo by (simp only: set_qty_def map_is_Nil_conv not_False_eq_True)
  then have lv: "lives l' \<noteq> []" by simp
  have sok: "side_ok ?side ?bs (ct_index s)"
    by (rule side_ok_upd [OF ok sl(1) same_except_refl r(1,2)]) (use lok(1) ne lv in \<open>simp add: assms(6) [symmetric]\<close>)
  have out: "s' = set_side_ref ?side ?bs (s\<lparr>ct_index := ct_index s\<rparr>)"
    by (cases bs) (simp add: assms(7) l'_def)
  note st = ct_set_side [OF sides loc(1) sok same_side_refl]
  have "ct_levels ?side ?bs = entries (?side = Buy) ((side_f ?side bs)(slot := flat_orders ?side slot l'))"
    by (simp only: ct_levels_def side_f_upd)
  also have "\<dots> = std_map_set (price_of slot) (flat_orders ?side slot l') (ct_levels ?side bs)"
    unfolding ct_levels_def by (rule entries_set) (use sl ne lv in simp_all)
  also have "\<dots> = bl_reduce ?side (cl_price loc) i q (ct_levels ?side bs)"
    using ne loc(2) by (simp add: bl_reduce_def ct_levels_def map_of_entries assms(4) [symmetric] fo sl(2))
  finally have bl: "ct_bl s' = set_loc_quantity \<lparr>loc_side = ?side, loc_price = cl_price loc, loc_it = i\<rparr> q (ct_bl s)"
    unfolding out st(2) set_loc_quantity_set_side ct_side_ref(2) [OF sides loc(1)] by (simp add: assms(5))
  obtain ord where o: "loc_order \<lparr>loc_side = ?side, loc_price = cl_price loc, loc_it = i\<rparr> (ct_bl s) = Some ord"
      "\<lparr>loc_side = ?side, loc_price = cl_price loc, loc_it = i\<rparr> = locate ord" "ord \<in> set (spec_orders (bl_abs (ct_bl s)))"
    by (rule bl_locate [OF wf(1), of i "\<lparr>loc_side = ?side, loc_price = cl_price loc, loc_it = i\<rparr>"]) (use assms(2) in \<open>auto simp: ix_def\<close>)
  have "bl_wf (ct_bl s')" unfolding bl o(2) using set_loc_quantity_spec [OF wf(1) o(3) assms(3)] by blast
  moreover have "ct_sides s'" unfolding out by (rule st(1))
  moreover have "ct_order_count s' = ct_order_count s" by (simp add: ct_order_count_def out)
  ultimately show ?thesis using bl assms(1) by (simp add: ct_wf_def)
qed

lemma simulate_remainder_own_side:
  assumes "(if side = Buy then ct_asks s else ct_bids s) = (if side = Buy then ct_asks s' else ct_bids s')"
  shows "simulate_remainder side p q s = simulate_remainder side p q s'"
  using assms by (simp add: simulate_remainder_def Let_def split: if_splits)

lemma remove_resting_other_side:
  "(if cl_side loc = Buy then ct_asks (remove_resting loc s) else ct_bids (remove_resting loc s)) =
     (if cl_side loc = Buy then ct_asks s else ct_bids s)"
proof -
  define other where "other = (\<lambda>s :: ContiguousStore. if cl_side loc = Buy then ct_asks s else ct_bids s)"
  have [simp]: "other (set_side_ref (cl_side loc) bs s) = other s" "other (s\<lparr>ct_index := idx\<rparr>) = other s" for bs s idx
    by (simp_all add: other_def set_side_ref_def)
  have "other (remove_resting loc s) = other s"
    unfolding remove_resting_def Let_def case_prod_unfold if_distrib [of other] by (simp del: if_split)
  then show ?thesis by (simp add: other_def)
qed

lemma ct_cancel_other_side:
  assumes "ct_index s i = Some loc"
  shows "(if cl_side loc = Buy then ct_asks (fst (ct_cancel i s)) else ct_bids (fst (ct_cancel i s))) =
    (if cl_side loc = Buy then ct_asks s else ct_bids s)"
  using assms remove_resting_other_side [of loc "s\<lparr>ct_index := (ct_index s)(i := None)\<rparr>"] by (simp add: ct_cancel_def split: if_splits)

lemma ct_modify_sim:
  assumes "ct_wf s" "ct_room s" "ct_can_apply_modify i p q s"
  shows "ct_wf (fst (ct_modify i p q s)) \<and>
    (ct_bl (fst (ct_modify i p q s)), snd (ct_modify i p q s)) = bl_modify i p q (ct_bl s)"
proof (cases "ct_index s i")
  case None
  then show ?thesis using assms(1) by (simp add: ct_modify_def bl_modify_def ix_def)
next
  case (Some loc)
  let ?loc = "\<lparr>loc_side = cl_side loc, loc_price = cl_price loc, loc_it = i\<rparr>"
  define l where "l = bs_levels (side_ref (cl_side loc) s) (slot_of (cl_price loc))"
  note loc = ct_locate [OF assms(1) Some l_def]
  have idx: "index (ct_bl s) i = Some ?loc" using Some by (simp add: ix_def)
  have red: "reduces_in_place loc p q s \<longleftrightarrow> p = cl_price loc \<and> q \<le> fo_quantity (fl_orders l ! cl_pos loc)"
    by (simp add: reduces_in_place_def l_def)
  note c = ct_cancel_sim [OF assms(1), of i]
  show ?thesis
  proof (cases "q = 0")
    case True
    then show ?thesis using c Some assms(3) idx by (auto simp: ct_modify_def bl_modify_def dest: arg_cong [of _ _ fst])
  next
    case nz: False
    show ?thesis
    proof (cases "reduces_in_place loc p q s")
      case True
      have "bl_modify i p q (ct_bl s) = (set_loc_quantity ?loc q (ct_bl s), [])"
        using True nz loc(6) idx by (simp add: bl_modify_def red)
      then show ?thesis
        using ct_reduce_sim [OF assms(1) Some nz refl refl refl refl] True nz Some assms(3)
        by (simp add: ct_modify_def Let_def)
    next
      case False
      let ?s = "fst (ct_cancel i s)"
      let ?inp = "\<lparr>li_id = i, li_side = cl_side loc, li_price = p, li_quantity = q, li_tif = GTC\<rparr>"
      have cwf: "ct_wf ?s" and cbl: "ct_bl ?s = fst (bl_cancel i (ct_bl s))" using c by (simp, metis fst_conv)
      have "ct_can_store_limit (cl_side loc) p q GTC ?s"
        using assms(3) Some nz False simulate_remainder_own_side [OF ct_cancel_other_side [OF Some], of p q]
        by (auto simp: ct_can_apply_modify_def ct_can_store_limit_def split: if_splits)
      moreover have "ct_room ?s"
      proof -
        have "index (ct_bl ?s) = (index (ct_bl s))(i := None)"
          unfolding cbl using idx by (simp add: bl_cancel_def erase_resting_order_def)
        then have "dom (ct_index ?s) = dom (ct_index s) - {i}" by (metis ct_bl_sel(3) dom_fun_upd ix_dom)
        then have "ct_order_count ?s \<le> ct_order_count s" unfolding ct_order_count_def by (metis card_Diff1_le)
        then show ?thesis using assms(2) by (simp add: ct_room_def)
      qed
      ultimately have "ct_wf (fst (ct_add_limit ?inp ?s)) \<and>
          (ct_bl (fst (ct_add_limit ?inp ?s)), snd (ct_add_limit ?inp ?s)) = bl_add_limit i (cl_side loc) p q GTC (ct_bl ?s)"
        by (intro ct_add_limit_sim [OF cwf _ loc(1) _ refl])
      moreover have "bl_modify i p q (ct_bl s) = bl_add_limit i (cl_side loc) p q GTC (ct_bl ?s)"
        using False nz loc(6) idx by (auto simp: bl_modify_def red cbl)
      ultimately show ?thesis using False nz Some assms(3) by (simp add: ct_modify_def)
    qed
  qed
qed

lemma ct_wf_empty [simp]: "ct_wf ct_empty" "ct_bl ct_empty = bl_empty"
proof -
  have "ct_levels side side_empty = []" for side
    unfolding ct_levels_def by (rule entries_nil) (simp add: side_empty_def)
  then show bl: "ct_bl ct_empty = bl_empty" by (simp add: ct_bl_def ct_empty_def bl_empty_def ix_def)
  have "side_ok side side_empty idx" for side idx by (simp add: side_ok_def side_empty_def slot_bit_def)
  then show "ct_wf ct_empty" unfolding ct_wf_def bl by (simp add: ct_sides_def ct_empty_def ct_order_count_def)
qed

section \<open>The contract\<close>

definition ct_limit :: "OrderId \<Rightarrow> Side \<Rightarrow> Price \<Rightarrow> Quantity \<Rightarrow> TimeInForce \<Rightarrow> ContiguousStore \<Rightarrow> ContiguousStore \<times> Trade list" where
  "ct_limit i side price quantity tif =
     ct_add_limit \<lparr>li_id = i, li_side = side, li_price = price, li_quantity = quantity, li_tif = tif\<rparr>"

interpretation ct: storage_simulation ct_bl ct_wf ct_room ct_contains ct_can_store_limit ct_can_apply_modify
    ct_limit ct_add_market ct_cancel ct_modify ct_fill_count ct_resting_orders ct_best_bid ct_best_ask
    ct_quantity_at ct_order_count ct_bid_levels ct_ask_levels
proof unfold_locales
  show "ct_can_apply_modify i p 0 s" for i p s by (simp add: ct_can_apply_modify_def split: option.split)
  show "ct_can_store_limit side p q IOC s" for side p q s by (simp add: ct_can_store_limit_def)
qed (simp_all only: ct_limit_def ct_wfD ct_contains_sim ct_add_limit_sim [OF _ _ _ _ refl] ct_add_market_sim ct_cancel_sim ct_modify_sim
    ct_fill_count_sim ct_views_sim ct_best_sim ct_quantity_at_sim ct_order_count_bl)

end
