(* ===== verification/Memory_Pool.thy ===== *)
theory Memory_Pool
  imports Order_Types
begin

text \<open>
  The fixed-capacity pools (\<^verbatim>\<open>OrderPool\<close> of \<^verbatim>\<open>include/qsl/memory/order_pool.hpp\<close> and \<^verbatim>\<open>RawPool\<close> of
  \<^verbatim>\<open>src/engine/order_book.cpp\<close>, which have the same code over different objects): a stack of free
  slots, acquire and release, and the address arithmetic by which a pool recognises its own
  objects. A pointer that a pool has handed out is named by its slot; \<open>slot_index_storage\<close> and
  \<open>slot_index_SomeD\<close> show that addresses and slots determine each other.
\<close>

section \<open>State\<close>

text \<open>
  \<^verbatim>\<open>live_[i]\<close> and the object in slot \<open>i\<close> of \<^verbatim>\<open>storage_\<close> change together (\<^verbatim>\<open>construct_at\<close> with \<^verbatim>\<open>true\<close>,
  \<^verbatim>\<open>destroy_at\<close> with \<^verbatim>\<open>false\<close>), so they are one partial map from slots to objects.
\<close>

record 'a Pool =
  pl_slots :: "nat \<rightharpoonup> 'a"
  pl_free_indices :: "nat \<Rightarrow> nat"
  pl_free_count :: nat

definition reset_free_list :: "nat \<Rightarrow> 'a Pool \<Rightarrow> 'a Pool" where
  "reset_free_list capacity p = p\<lparr>pl_free_count := capacity, pl_free_indices := (\<lambda>i. capacity - 1 - i)\<rparr>"

definition destroy_live :: "nat \<Rightarrow> 'a Pool \<Rightarrow> 'a Pool" where
  "destroy_live capacity p = p\<lparr>pl_slots := (\<lambda>i. if i < capacity then None else pl_slots p i)\<rparr>"

definition pool_new :: "nat \<Rightarrow> 'a Pool" where
  "pool_new capacity = reset_free_list capacity \<lparr>pl_slots = Map.empty, pl_free_indices = (\<lambda>_. 0), pl_free_count = 0\<rparr>"

definition pool_reset :: "nat \<Rightarrow> 'a Pool \<Rightarrow> 'a Pool" where
  "pool_reset capacity p = reset_free_list capacity (destroy_live capacity p)"

definition pool_available :: "'a Pool \<Rightarrow> nat" where
  "pool_available p = pl_free_count p"

definition pool_in_use :: "nat \<Rightarrow> 'a Pool \<Rightarrow> nat" where
  "pool_in_use capacity p = capacity - pl_free_count p"

section \<open>Acquire and release\<close>

definition try_acquire :: "'a \<Rightarrow> 'a Pool \<Rightarrow> 'a Pool \<times> nat option" where
  "try_acquire object p =
     (if pl_free_count p = 0 then (p, None)
      else
        let idx = pl_free_indices p (pl_free_count p - 1)
        in (p\<lparr>pl_slots := (pl_slots p)(idx \<mapsto> object), pl_free_count := pl_free_count p - 1\<rparr>, Some idx))"

text \<open>The part of \<^verbatim>\<open>release\<close> that follows \<^verbatim>\<open>slot_index\<close>.\<close>

definition release_slot :: "nat \<Rightarrow> 'a Pool \<Rightarrow> 'a Pool \<times> bool" where
  "release_slot slot p =
     (if pl_slots p slot = None then (p, False)
      else (p\<lparr>pl_slots := (pl_slots p)(slot := None),
              pl_free_indices := (pl_free_indices p)(pl_free_count p := slot),
              pl_free_count := pl_free_count p + 1\<rparr>, True))"

text \<open>
  Addresses: the storage starts at \<open>base\<close>, an object is \<open>width\<close> bytes. \<open>None\<close> is the null pointer.
\<close>

definition slot_storage :: "nat \<Rightarrow> nat \<Rightarrow> nat \<Rightarrow> nat" where
  "slot_storage base width idx = base + idx * width"

definition slot_index :: "nat \<Rightarrow> nat \<Rightarrow> nat \<Rightarrow> nat \<Rightarrow> nat option \<Rightarrow> nat option" where
  "slot_index base width alignment capacity object =
     (case object of
        None \<Rightarrow> None
      | Some raw \<Rightarrow>
          if raw < base \<or> raw \<ge> base + capacity * width then None
          else
            let offset = raw - base
            in if offset mod width \<noteq> 0 \<or> raw mod alignment \<noteq> 0 then None
               else let slot = offset div width in if slot < capacity then Some slot else None)"

definition pool_release :: "nat \<Rightarrow> nat \<Rightarrow> nat \<Rightarrow> nat \<Rightarrow> nat option \<Rightarrow> 'a Pool \<Rightarrow> 'a Pool \<times> bool" where
  "pool_release base width alignment capacity object p =
     (case slot_index base width alignment capacity object of
        None \<Rightarrow> (p, False)
      | Some slot \<Rightarrow> release_slot slot p)"

definition pool_owns :: "nat \<Rightarrow> nat \<Rightarrow> nat \<Rightarrow> nat \<Rightarrow> nat option \<Rightarrow> bool" where
  "pool_owns base width alignment capacity object \<longleftrightarrow> slot_index base width alignment capacity object \<noteq> None"

definition order_try_acquire :: "OrderId \<Rightarrow> Side \<Rightarrow> Price \<Rightarrow> Quantity \<Rightarrow> Order Pool \<Rightarrow> Order Pool \<times> nat option" where
  "order_try_acquire i side price quantity p =
     try_acquire \<lparr>o_id = i, o_side = side, o_price = price, o_quantity = quantity\<rparr> p"

section \<open>Invariant\<close>

text \<open>The free list holds each slot that is not live exactly once.\<close>

definition free_list :: "'a Pool \<Rightarrow> nat list" where
  "free_list p = map (pl_free_indices p) [0..<pl_free_count p]"

definition pool_ok :: "nat \<Rightarrow> 'a Pool \<Rightarrow> bool" where
  "pool_ok capacity p \<longleftrightarrow> distinct (free_list p) \<and> set (free_list p) = {i. i < capacity \<and> pl_slots p i = None} \<and>
     dom (pl_slots p) \<subseteq> {..<capacity}"

lemma pool_ok_new [simp]: "pool_ok capacity (pool_new capacity)"
proof -
  have "set (map (\<lambda>i. capacity - Suc i) [0..<capacity]) = {..<capacity}"
  proof (intro equalityI subsetI)
    fix x assume "x \<in> {..<capacity}"
    then have "x = capacity - Suc (capacity - Suc x)" "capacity - Suc x < capacity" by auto
    then show "x \<in> set (map (\<lambda>i. capacity - Suc i) [0..<capacity])" by auto
  qed auto
  moreover have "distinct (map (\<lambda>i. capacity - Suc i) [0..<capacity])"
    by (auto simp: distinct_map inj_on_def)
  ultimately show ?thesis by (auto simp: pool_ok_def pool_new_def reset_free_list_def free_list_def)
qed

lemma pool_reset_new: "pool_ok capacity p \<Longrightarrow> pool_reset capacity p = pool_new capacity"
proof -
  assume ok: "pool_ok capacity p"
  have "(\<lambda>i. if i < capacity then None else pl_slots p i) = Map.empty" using ok by (auto simp: pool_ok_def fun_eq_iff dom_def)
  then show ?thesis by (intro Pool.equality) (simp_all add: pool_reset_def destroy_live_def reset_free_list_def pool_new_def)
qed

lemma pool_ok_count: "pool_ok capacity p \<Longrightarrow> pl_free_count p + card (dom (pl_slots p)) = capacity"
proof -
  assume ok: "pool_ok capacity p"
  have "pl_free_count p = card (set (free_list p))"
    using ok distinct_card [of "free_list p"] by (simp add: pool_ok_def free_list_def)
  also have "set (free_list p) = {..<capacity} - dom (pl_slots p)" using ok by (auto simp: pool_ok_def)
  also have "card \<dots> = capacity - card (dom (pl_slots p))"
    using ok card_Diff_subset [of "dom (pl_slots p)" "{..<capacity}"] finite_subset [of "dom (pl_slots p)" "{..<capacity}"]
    by (simp add: pool_ok_def)
  also have "card (dom (pl_slots p)) \<le> capacity"
    using ok card_mono [of "{..<capacity}" "dom (pl_slots p)"] by (simp add: pool_ok_def)
  ultimately show ?thesis by simp
qed

lemma try_acquire_ok:
  assumes "pool_ok capacity p" "try_acquire object p = (p', r)"
  shows "pool_ok capacity p'"
    "r = None \<longleftrightarrow> pl_free_count p = 0"
    "r = None \<Longrightarrow> p' = p"
    "r = Some idx \<Longrightarrow> idx < capacity \<and> pl_slots p idx = None \<and> pl_slots p' = (pl_slots p)(idx \<mapsto> object) \<and>
       pl_free_count p = Suc (pl_free_count p')"
proof -
  show "r = None \<longleftrightarrow> pl_free_count p = 0" "r = None \<Longrightarrow> p' = p"
    using assms(2) by (auto simp: try_acquire_def Let_def split: if_splits)
  have acq: "\<exists>n. pl_free_count p = Suc n \<and> idx = pl_free_indices p n \<and> idx \<in> set (free_list p) \<and> free_list p = free_list p' @ [idx] \<and>
      p' = p\<lparr>pl_slots := (pl_slots p)(idx \<mapsto> object), pl_free_count := n\<rparr>" if "r = Some idx" for idx
    using assms(2) that by (cases "pl_free_count p") (auto simp: try_acquire_def free_list_def Let_def)
  show "r = Some idx \<Longrightarrow> idx < capacity \<and> pl_slots p idx = None \<and> pl_slots p' = (pl_slots p)(idx \<mapsto> object) \<and>
       pl_free_count p = Suc (pl_free_count p')"
    using acq [of idx] assms(1) by (auto simp: pool_ok_def)
  show "pool_ok capacity p'"
  proof (cases r)
    case None
    with assms show ?thesis by (auto simp: try_acquire_def Let_def split: if_splits)
  next
    case (Some idx)
    obtain n where n: "idx \<in> set (free_list p)" "free_list p = free_list p' @ [idx]"
        "p' = p\<lparr>pl_slots := (pl_slots p)(idx \<mapsto> object), pl_free_count := n\<rparr>"
      using acq [OF Some] by blast
    have d: "distinct (free_list p')" "idx \<notin> set (free_list p')" "idx < capacity" "pl_slots p idx = None"
      using assms(1) n(1,2) by (auto simp: pool_ok_def)
    moreover have "set (free_list p') = {i. i < capacity \<and> pl_slots p' i = None}"
    proof -
      have "set (free_list p') = set (free_list p) - {idx}" using n(2) d(2) by auto
      then show ?thesis using assms(1) n(3) by (auto simp: pool_ok_def)
    qed
    ultimately show ?thesis using assms(1) n(3) by (auto simp: pool_ok_def)
  qed
qed

lemma release_slot_ok:
  assumes "pool_ok capacity p" "release_slot slot p = (p', r)"
  shows "pool_ok capacity p'" "r \<longleftrightarrow> pl_slots p slot \<noteq> None"
    "pl_slots p' = (pl_slots p)(slot := None)" "pl_free_count p' = pl_free_count p + (if r then 1 else 0)"
proof -
  show r: "r \<longleftrightarrow> pl_slots p slot \<noteq> None" and slots: "pl_slots p' = (pl_slots p)(slot := None)"
    and count: "pl_free_count p' = pl_free_count p + (if r then 1 else 0)"
    using assms(2) by (auto simp: release_slot_def split: if_splits)
  show "pool_ok capacity p'"
  proof (cases "pl_slots p slot")
    case None
    then have "p' = p" using assms(2) by (auto simp: release_slot_def)
    with assms(1) show ?thesis by simp
  next
    case (Some v)
    have less: "slot < capacity" using assms(1) Some by (auto simp: pool_ok_def)
    have fl: "free_list p' = free_list p @ [slot]"
      using assms(2) Some by (auto simp: release_slot_def free_list_def)
    have "slot \<notin> set (free_list p)" using assms(1) Some by (simp add: pool_ok_def)
    then show ?thesis using assms(1) less unfolding pool_ok_def fl slots by auto
  qed
qed

subsection \<open>Addresses\<close>

lemma slot_index_storage:
  assumes "idx < capacity" "0 < width" "base mod alignment = 0" "width mod alignment = 0"
  shows "slot_index base width alignment capacity (Some (slot_storage base width idx)) = Some idx"
proof -
  have "idx * width < capacity * width" using assms(1,2) by simp
  moreover have "(base + idx * width) mod alignment = 0"
    using assms(3,4) by (simp add: mod_eq_0_iff_dvd dvd_add dvd_mult)
  ultimately show ?thesis using assms(1,2) by (simp add: slot_index_def slot_storage_def)
qed

lemma slot_index_SomeD:
  assumes "slot_index base width alignment capacity object = Some idx" "0 < width"
  shows "idx < capacity" "object = Some (slot_storage base width idx)"
proof -
  obtain raw where r: "object = Some raw" "base \<le> raw" "(raw - base) mod width = 0" "idx = (raw - base) div width" "idx < capacity"
    using assms(1) by (auto simp: slot_index_def Let_def split: option.splits if_splits)
  then have "raw - base = idx * width" by (metis add.right_neutral div_mult_mod_eq)
  then show "idx < capacity" "object = Some (slot_storage base width idx)" using r by (auto simp: slot_storage_def)
qed

end
