(* ===== verification/Intrusive_List.thy ===== *)
theory Intrusive_List
  imports Qsl_Prelude
begin

text \<open>
  The intrusive doubly linked FIFO of the pooled storage (\<^verbatim>\<open>Node\<close>, \<^verbatim>\<open>Level\<close>, \<^verbatim>\<open>append_node\<close> and
  \<^verbatim>\<open>unlink_node\<close> of \<^verbatim>\<open>src/engine/order_book.cpp\<close>). Nodes live in a heap, a partial map from slots to
  nodes; a null pointer is \<open>None\<close>. Reading through a pointer to no node has no defined value, as
  in the source. A level is represented by the list of its nodes, and appending and unlinking
  change that list as they should and nothing else.
\<close>

section \<open>Nodes and levels\<close>

record Node =
  nd_order :: nat
  nd_prev :: "nat option"
  nd_next :: "nat option"

record NodeLevel =
  il_head :: "nat option"
  il_tail :: "nat option"
  il_size :: nat

type_synonym NodeHeap = "nat \<rightharpoonup> Node"

definition empty_level :: NodeLevel where
  "empty_level = \<lparr>il_head = None, il_tail = None, il_size = 0\<rparr>"

text \<open>Assignments through a node pointer.\<close>

definition set_prev :: "nat \<Rightarrow> nat option \<Rightarrow> NodeHeap \<Rightarrow> NodeHeap" where
  "set_prev n v m = m(n \<mapsto> (the (m n))\<lparr>nd_prev := v\<rparr>)"

definition set_next :: "nat \<Rightarrow> nat option \<Rightarrow> NodeHeap \<Rightarrow> NodeHeap" where
  "set_next n v m = m(n \<mapsto> (the (m n))\<lparr>nd_next := v\<rparr>)"

definition append_node :: "NodeLevel \<Rightarrow> nat \<Rightarrow> NodeHeap \<Rightarrow> NodeLevel \<times> NodeHeap" where
  "append_node level node m =
     (let m = set_next node None (set_prev node (il_tail level) m);
          (level, m) = (case il_tail level of
                          Some t \<Rightarrow> (level, set_next t (Some node) m)
                        | None \<Rightarrow> (level\<lparr>il_head := Some node\<rparr>, m))
      in (level\<lparr>il_tail := Some node, il_size := il_size level + 1\<rparr>, m))"

definition unlink_node :: "NodeLevel \<Rightarrow> nat \<Rightarrow> NodeHeap \<Rightarrow> NodeLevel \<times> NodeHeap" where
  "unlink_node level node m =
     (let (level, m) = (case nd_prev (the (m node)) of
                          Some p \<Rightarrow> (level, set_next p (nd_next (the (m node))) m)
                        | None \<Rightarrow> (level\<lparr>il_head := nd_next (the (m node))\<rparr>, m));
          (level, m) = (case nd_next (the (m node)) of
                          Some n \<Rightarrow> (level, set_prev n (nd_prev (the (m node))) m)
                        | None \<Rightarrow> (level\<lparr>il_tail := nd_prev (the (m node))\<rparr>, m))
      in (level\<lparr>il_size := il_size level - 1\<rparr>, m))"

text \<open>
  The loop \<^verbatim>\<open>for (node = head; node != nullptr; node = node->next)\<close>, as the list of the nodes it
  visits. The first argument bounds the number of steps; callers pass the size of the level,
  which \<open>walk_dseg\<close> shows to be exact.
\<close>

fun walk :: "nat \<Rightarrow> NodeHeap \<Rightarrow> nat option \<Rightarrow> nat list" where
  "walk 0 m p = []"
| "walk (Suc k) m None = []"
| "walk (Suc k) m (Some n) = n # walk k m (nd_next (the (m n)))"

text \<open>The code equation over numbers in binary.\<close>

lemma walk_code [code]:
  "walk k m p = (if k = 0 then [] else case p of None \<Rightarrow> [] | Some n \<Rightarrow> n # walk (k - 1) m (nd_next (the (m n))))"
  by (cases k; cases p) auto

definition level_nodes :: "NodeHeap \<Rightarrow> NodeLevel \<Rightarrow> nat list" where
  "level_nodes m level = walk (il_size level) m (il_head level)"

section \<open>Doubly linked segments\<close>

fun dseg :: "NodeHeap \<Rightarrow> nat option \<Rightarrow> nat option \<Rightarrow> nat list \<Rightarrow> nat option \<Rightarrow> bool" where
  "dseg m prv cur [] nxt \<longleftrightarrow> cur = nxt"
| "dseg m prv cur (n # ns) nxt \<longleftrightarrow> cur = Some n \<and>
     (case m n of None \<Rightarrow> False | Some nd \<Rightarrow> nd_prev nd = prv \<and> dseg m (Some n) (nd_next nd) ns nxt)"

definition last_of :: "nat option \<Rightarrow> nat list \<Rightarrow> nat option" where
  "last_of prv ns = (if ns = [] then prv else Some (last ns))"

lemma last_of_simps [simp]:
  "last_of prv [] = prv" "last_of prv (ns @ [n]) = Some n" "last_of prv (n # ns) = last_of (Some n) ns"
  "last_of prv (xs @ ys) = last_of (last_of prv xs) ys"
  by (auto simp: last_of_def)

lemma dseg_append: "dseg m prv cur (xs @ ys) nxt \<longleftrightarrow> (\<exists>mid. dseg m prv cur xs mid \<and> dseg m (last_of prv xs) mid ys nxt)"
  by (induction xs arbitrary: prv cur) (auto split: option.splits)

lemma dseg_cong: "(\<And>n. n \<in> set ns \<Longrightarrow> m' n = m n) \<Longrightarrow> dseg m' prv cur ns nxt = dseg m prv cur ns nxt"
  by (induction ns arbitrary: prv cur) (auto split: option.splits)

lemma dseg_frame: "dseg m prv cur ns nxt \<Longrightarrow> \<forall>n\<in>set ns. m' n = m n \<Longrightarrow> dseg m' prv cur ns nxt"
  using dseg_cong [of ns m' m prv cur nxt] by blast

lemma dseg_live: "dseg m prv cur ns nxt \<Longrightarrow> n \<in> set ns \<Longrightarrow> m n \<noteq> None"
  by (induction ns arbitrary: prv cur) (auto split: option.splits)

lemma walk_dseg: "dseg m prv cur ns None \<Longrightarrow> walk (length ns) m cur = ns"
  by (induction ns arbitrary: prv cur) (auto split: option.splits)

definition level_rep :: "NodeHeap \<Rightarrow> NodeLevel \<Rightarrow> nat list \<Rightarrow> bool" where
  "level_rep m l ns \<longleftrightarrow> dseg m None (il_head l) ns None \<and> il_tail l = last_of None ns \<and> il_size l = length ns \<and> distinct ns"

lemma level_rep_nodes: "level_rep m l ns \<Longrightarrow> level_nodes m l = ns"
  using walk_dseg by (auto simp: level_rep_def level_nodes_def)

lemma level_rep_live: "level_rep m l ns \<Longrightarrow> n \<in> set ns \<Longrightarrow> m n \<noteq> None"
  unfolding level_rep_def using dseg_live by blast

lemma level_rep_cong: "(\<And>n. n \<in> set ns \<Longrightarrow> m' n = m n) \<Longrightarrow> level_rep m' l ns = level_rep m l ns"
  using dseg_cong [of ns m' m] by (simp add: level_rep_def)

lemma level_rep_empty [simp]: "level_rep m empty_level []"
  by (simp add: level_rep_def empty_level_def)

lemma level_rep_size: "level_rep m l ns \<Longrightarrow> il_size l = length ns"
  by (simp add: level_rep_def)

lemma level_rep_head: "level_rep m l ns \<Longrightarrow> il_head l = (case ns of [] \<Rightarrow> None | n # _ \<Rightarrow> Some n)"
  by (auto simp: level_rep_def split: list.splits)

text \<open>Which order a node carries never changes while it is linked.\<close>

definition same_orders :: "NodeHeap \<Rightarrow> NodeHeap \<Rightarrow> bool" where
  "same_orders m m' \<longleftrightarrow> (\<forall>n. map_option nd_order (m' n) = map_option nd_order (m n))"

lemma same_orders_set [simp]:
  "m n \<noteq> None \<Longrightarrow> same_orders m (set_prev n v m)" "m n \<noteq> None \<Longrightarrow> same_orders m (set_next n v m)"
  by (auto simp: same_orders_def set_prev_def set_next_def)

lemma same_orders_refl [simp]: "same_orders m m"
  by (simp add: same_orders_def)

lemma same_orders_trans: "same_orders m m' \<Longrightarrow> same_orders m' m'' \<Longrightarrow> same_orders m m''"
  by (simp add: same_orders_def)

lemma append_node_rep:
  assumes "level_rep m l ns" "m node \<noteq> None" "node \<notin> set ns" "append_node l node m = (l', m')"
  shows "level_rep m' l' (ns @ [node])" "\<And>k. k \<noteq> node \<Longrightarrow> k \<notin> set ns \<Longrightarrow> m' k = m k" "same_orders m m'"
proof -
  obtain nd where nd: "m node = Some nd" using assms(2) by blast
  have r: "dseg m None (il_head l) ns None" "il_tail l = last_of None ns" "il_size l = length ns" "distinct ns"
    using assms(1) by (simp_all add: level_rep_def)
  have "level_rep m' l' (ns @ [node]) \<and> (\<forall>k. k \<noteq> node \<longrightarrow> k \<notin> set ns \<longrightarrow> m' k = m k) \<and> same_orders m m'"
  proof (cases ns rule: rev_cases)
    case Nil
    then have "l' = l\<lparr>il_head := Some node, il_tail := Some node, il_size := il_size l + 1\<rparr>"
        "m' = m(node \<mapsto> nd\<lparr>nd_prev := None, nd_next := None\<rparr>)"
      using assms(4) r(2) nd by (auto simp: append_node_def set_prev_def set_next_def)
    then show ?thesis using Nil r nd by (auto simp: level_rep_def same_orders_def last_of_def)
  next
    case (snoc a t)
    obtain mid td where a: "dseg m None (il_head l) a (Some t)" "m t = Some td" "nd_prev td = last_of None a" "nd_next td = None"
      using r(1) unfolding snoc dseg_append by (auto split: option.splits)
    have ne: "t \<noteq> node" "node \<notin> set a" "t \<notin> set a" "distinct a" using assms(3) r(4) by (auto simp: snoc)
    have l': "l' = l\<lparr>il_tail := Some node, il_size := il_size l + 1\<rparr>"
      and m': "m' = m(node \<mapsto> nd\<lparr>nd_prev := Some t, nd_next := None\<rparr>, t \<mapsto> td\<lparr>nd_next := Some node\<rparr>)"
      using assms(4) r(2) nd a(2) ne(1) by (auto simp: append_node_def set_prev_def set_next_def snoc)
    have "dseg m' None (il_head l) a (Some t)"
      by (rule dseg_frame [OF a(1)]) (use ne in \<open>auto simp: m'\<close>)
    then have "dseg m' None (il_head l) (a @ [t, node]) None"
      unfolding dseg_append using a(3) ne(1) by (auto simp: m')
    then show ?thesis using r(3,4) assms(3) ne nd a(2) by (auto simp: level_rep_def l' snoc same_orders_def m')
  qed
  then show "level_rep m' l' (ns @ [node])" "\<And>k. k \<noteq> node \<Longrightarrow> k \<notin> set ns \<Longrightarrow> m' k = m k" "same_orders m m'" by blast+
qed

lemma unlink_node_rep:
  assumes "level_rep m l (a @ n # b)" "unlink_node l n m = (l', m')"
  shows "level_rep m' l' (a @ b)" "\<And>k. k \<notin> set a \<Longrightarrow> k \<notin> set b \<Longrightarrow> m' k = m k" "same_orders m m'"
proof -
  have r: "il_tail l = last_of None (a @ n # b)" "il_size l = Suc (length a + length b)" "distinct (a @ n # b)"
    using assms(1) by (simp_all add: level_rep_def del: last_of_simps)
  obtain nd where nd: "dseg m None (il_head l) a (Some n)" "m n = Some nd" "nd_prev nd = last_of None a" "dseg m (Some n) (nd_next nd) b None"
    using assms(1) unfolding level_rep_def dseg_append by (auto split: option.splits)
  define m1 where "m1 = (case last_of None a of Some p \<Rightarrow> set_next p (nd_next nd) m | None \<Rightarrow> m)"
  define l1 where "l1 = (case last_of None a of Some p \<Rightarrow> l | None \<Rightarrow> l\<lparr>il_head := nd_next nd\<rparr>)"
  have m1n: "m1 n = Some nd"
    using nd(2) r(3) by (cases a rule: rev_cases) (auto simp: m1_def set_next_def)
  have m1k: "m1 k = m k" if "k \<notin> set a" for k
    using that by (cases a rule: rev_cases) (auto simp: m1_def set_next_def)
  have so1: "same_orders m m1"
    using dseg_live [OF nd(1)] by (cases a rule: rev_cases) (auto simp: m1_def)
  have d1: "dseg m1 None (il_head l1) a (nd_next nd)"
  proof (cases a rule: rev_cases)
    case Nil
    then show ?thesis by (simp add: l1_def)
  next
    case (snoc x p)
    obtain pd where p: "dseg m None (il_head l) x (Some p)" "m p = Some pd" "nd_prev pd = last_of None x"
      using nd(1) unfolding snoc dseg_append by (auto split: option.splits)
    have "p \<notin> set x" using r(3) by (auto simp: snoc)
    then have "dseg m1 None (il_head l) x (Some p)"
      by (intro dseg_frame [OF p(1)]) (auto simp: m1_def snoc set_next_def)
    then show ?thesis unfolding snoc dseg_append using p(2,3) by (auto simp: l1_def snoc m1_def set_next_def)
  qed
  have d1b: "dseg m1 (Some n) (nd_next nd) b None"
    by (rule dseg_frame [OF nd(4)]) (use m1k r(3) in auto)
  have hd_b: "nd_next nd = (case b of [] \<Rightarrow> None | x # _ \<Rightarrow> Some x)" using nd(4) by (cases b) auto
  have eq: "l' = (case nd_next nd of Some x \<Rightarrow> l1 | None \<Rightarrow> l1\<lparr>il_tail := nd_prev nd\<rparr>)\<lparr>il_size := il_size l - 1\<rparr>"
      "m' = (case nd_next nd of Some x \<Rightarrow> set_prev x (nd_prev nd) m1 | None \<Rightarrow> m1)"
    using assms(2) nd(2,3) m1n by (auto simp: unlink_node_def l1_def m1_def Let_def split: option.splits)
  have sz: "il_size l1 = il_size l" "il_tail l1 = il_tail l" by (auto simp: l1_def split: option.splits)
  have "level_rep m' l' (a @ b) \<and> (\<forall>k. k \<notin> set a \<longrightarrow> k \<notin> set b \<longrightarrow> m' k = m k) \<and> same_orders m m'"
  proof (cases b)
    case Nil
    then have "l' = l1\<lparr>il_tail := nd_prev nd, il_size := il_size l - 1\<rparr>" "m' = m1" using eq hd_b by simp_all
    then show ?thesis using d1 nd(3) r(2,3) m1k so1 hd_b by (simp add: level_rep_def Nil)
  next
    case (Cons x c)
    have out: "l' = l1\<lparr>il_size := il_size l - 1\<rparr>" "m' = set_prev x (nd_prev nd) m1" using eq hd_b by (simp_all add: Cons)
    obtain xd where x: "m1 x = Some xd" "dseg m1 (Some x) (nd_next xd) c None"
      using d1b by (auto simp: Cons split: option.splits)
    have xa: "x \<notin> set a" "x \<notin> set c" using r(3) by (auto simp: Cons)
    have d1x: "dseg m1 None (il_head l1) a (Some x)" using d1 hd_b by (simp add: Cons)
    have "dseg m' None (il_head l1) a (Some x)"
      by (rule dseg_frame [OF d1x]) (use xa(1) in \<open>auto simp: out set_prev_def\<close>)
    moreover have "dseg m' (Some x) (nd_next xd) c None"
      by (rule dseg_frame [OF x(2)]) (use xa(2) in \<open>auto simp: out set_prev_def\<close>)
    ultimately have "dseg m' None (il_head l1) (a @ b) None"
      unfolding dseg_append Cons using x(1) nd(3) by (auto simp: out set_prev_def)
    moreover have "same_orders m m'" using same_orders_trans [OF so1] x(1) by (simp add: out)
    ultimately show ?thesis using r sz m1k by (auto simp: level_rep_def out Cons set_prev_def)
  qed
  then show "level_rep m' l' (a @ b)" "\<And>k. k \<notin> set a \<Longrightarrow> k \<notin> set b \<Longrightarrow> m' k = m k" "same_orders m m'" by blast+
qed

end
