(* ===== verification/Intrusive_Book.thy ===== *)
theory Intrusive_Book
  imports Book_Matching Std_Map Memory_Pool Intrusive_List
begin

text \<open>
  The storage mode \<open>IntrusivePooled\<close> (\<^verbatim>\<open>IntrusiveStore\<close> of \<^verbatim>\<open>src/engine/order_book.cpp\<close>): orders and list
  nodes come from two fixed-capacity pools, a level is a doubly linked list of nodes, and the
  index maps an order id to its node. Order and node pointers are slots of their pools.

  The loops over a level and over the levels of a side carry a bound on their iterations, the
  number of nodes and the number of levels; \<^verbatim>\<open>Intrusive_Refine\<close> shows that they end by their own
  condition within it. A level reached through an iterator is looked up by its price.
\<close>

section \<open>State\<close>

definition kIntrusivePoolCapacity :: nat where "kIntrusivePoolCapacity = 65536"

record IntrusiveLocator =
  nl_side :: Side
  nl_price :: Price
  nl_node :: nat

type_synonym NodeLevelMap = "(Price \<times> NodeLevel) list"
type_synonym IntrusiveIndex = "OrderId \<rightharpoonup> IntrusiveLocator"

record IntrusiveStore =
  is_orders :: "Order Pool"
  is_nodes :: "Node Pool"
  is_bids :: NodeLevelMap
  is_asks :: NodeLevelMap
  is_index :: IntrusiveIndex

definition in_empty :: IntrusiveStore where
  "in_empty = \<lparr>is_orders = pool_new kIntrusivePoolCapacity, is_nodes = pool_new kIntrusivePoolCapacity,
     is_bids = [], is_asks = [], is_index = Map.empty\<rparr>"

text \<open>\<^verbatim>\<open>*node\<close> and \<^verbatim>\<open>*node->order\<close>.\<close>

definition node_at :: "IntrusiveStore \<Rightarrow> nat \<Rightarrow> Node" where
  "node_at s n = the (pl_slots (is_nodes s) n)"

definition order_at :: "IntrusiveStore \<Rightarrow> nat \<Rightarrow> Order" where
  "order_at s n = the (pl_slots (is_orders s) (nd_order (node_at s n)))"

definition set_order_quantity :: "nat \<Rightarrow> Quantity \<Rightarrow> IntrusiveStore \<Rightarrow> IntrusiveStore" where
  "set_order_quantity n q s =
     s\<lparr>is_orders := (is_orders s)\<lparr>pl_slots := (pl_slots (is_orders s))(nd_order (node_at s n) \<mapsto> (order_at s n)\<lparr>o_quantity := q\<rparr>)\<rparr>\<rparr>"

definition set_node_heap :: "NodeHeap \<Rightarrow> IntrusiveStore \<Rightarrow> IntrusiveStore" where
  "set_node_heap m s = s\<lparr>is_nodes := (is_nodes s)\<lparr>pl_slots := m\<rparr>\<rparr>"

definition has_capacity :: "IntrusiveStore \<Rightarrow> bool" where
  "has_capacity s \<longleftrightarrow> pool_available (is_orders s) > 0 \<and> pool_available (is_nodes s) > 0"

section \<open>Linking and unlinking\<close>

definition in_append_node :: "NodeLevel \<Rightarrow> nat \<Rightarrow> IntrusiveStore \<Rightarrow> NodeLevel \<times> IntrusiveStore" where
  "in_append_node level node s =
     (let (level, m) = append_node level node (pl_slots (is_nodes s)) in (level, set_node_heap m s))"

definition in_unlink_node :: "NodeLevel \<Rightarrow> nat \<Rightarrow> IntrusiveStore \<Rightarrow> NodeLevel \<times> IntrusiveStore" where
  "in_unlink_node level node s =
     (let (level, m) = unlink_node level node (pl_slots (is_nodes s)) in (level, set_node_heap m s))"

definition destroy_node :: "nat \<Rightarrow> IntrusiveStore \<Rightarrow> IntrusiveStore" where
  "destroy_node node s =
     (let s = s\<lparr>is_orders := fst (release_slot (nd_order (node_at s node)) (is_orders s))\<rparr>
      in s\<lparr>is_nodes := fst (release_slot node (is_nodes s))\<rparr>)"

definition in_erase_level_if_empty :: "Price \<Rightarrow> NodeLevelMap \<Rightarrow> NodeLevelMap" where
  "in_erase_level_if_empty price levels =
     (case map_of levels price of
        None \<Rightarrow> levels
      | Some level \<Rightarrow> if il_size level = 0 then std_map_erase price levels else levels)"

definition erase_from :: "NodeLevelMap \<Rightarrow> Price \<Rightarrow> nat \<Rightarrow> IntrusiveStore \<Rightarrow> NodeLevelMap \<times> IntrusiveStore" where
  "erase_from levels price node s =
     (case map_of levels price of
        None \<Rightarrow> (levels, s)
      | Some level \<Rightarrow>
          let (level, s) = in_unlink_node level node s;
              s = destroy_node node s
          in (in_erase_level_if_empty price (std_map_set price level levels), s))"

definition in_erase_resting_order :: "IntrusiveLocator \<Rightarrow> IntrusiveStore \<Rightarrow> IntrusiveStore" where
  "in_erase_resting_order loc s =
     (if nl_side loc = Buy then
        let (levels, s) = erase_from (is_bids s) (nl_price loc) (nl_node loc) s in s\<lparr>is_bids := levels\<rparr>
      else
        let (levels, s) = erase_from (is_asks s) (nl_price loc) (nl_node loc) s in s\<lparr>is_asks := levels\<rparr>)"

definition erase_indexed_order :: "OrderId \<Rightarrow> IntrusiveLocator \<Rightarrow> IntrusiveStore \<Rightarrow> IntrusiveStore" where
  "erase_indexed_order i loc s = in_erase_resting_order loc (s\<lparr>is_index := (is_index s)(i := None)\<rparr>)"

section \<open>Resting\<close>

record RestingNode =
  rn_id :: OrderId
  rn_side :: Side
  rn_price :: Price
  rn_node :: nat

definition append_resting :: "bool \<Rightarrow> NodeLevelMap \<Rightarrow> RestingNode \<Rightarrow> IntrusiveStore \<Rightarrow> NodeLevelMap \<times> IntrusiveStore \<times> bool" where
  "append_resting is_bid levels resting s =
     (let levels = std_map_try_emplace (price_before is_bid) (rn_price resting) empty_level levels;
          level = the (map_of levels (rn_price resting));
          (level, s) = in_append_node level (rn_node resting) s;
          inserted = (is_index s (rn_id resting) = None);
          s = (if inserted
               then s\<lparr>is_index := (is_index s)(rn_id resting \<mapsto>
                       \<lparr>nl_side = rn_side resting, nl_price = rn_price resting, nl_node = rn_node resting\<rparr>)\<rparr>
               else s)
      in if \<not> inserted
         then
           let (level, s) = in_unlink_node level (rn_node resting) s;
               s = destroy_node (rn_node resting) s
           in (in_erase_level_if_empty (rn_price resting) (std_map_set (rn_price resting) level levels), s, False)
         else (std_map_set (rn_price resting) level levels, s, True))"

definition in_rest :: "OrderId \<Rightarrow> Side \<Rightarrow> Price \<Rightarrow> Quantity \<Rightarrow> IntrusiveStore \<Rightarrow> IntrusiveStore \<times> bool" where
  "in_rest i side price quantity s =
     (case order_try_acquire i side price quantity (is_orders s) of
        (orders, None) \<Rightarrow> (s, False)
      | (orders, Some ord) \<Rightarrow>
          let s = s\<lparr>is_orders := orders\<rparr>
          in case try_acquire \<lparr>nd_order = ord, nd_prev = None, nd_next = None\<rparr> (is_nodes s) of
               (nodes, None) \<Rightarrow> (s\<lparr>is_orders := fst (release_slot ord (is_orders s))\<rparr>, False)
             | (nodes, Some node) \<Rightarrow>
                 let s = s\<lparr>is_nodes := nodes\<rparr>;
                     resting = \<lparr>rn_id = i, rn_side = side, rn_price = price, rn_node = node\<rparr>
                 in if side = Buy then
                      let (levels, s, ok) = append_resting True (is_bids s) resting s in (s\<lparr>is_bids := levels\<rparr>, ok)
                    else
                      let (levels, s, ok) = append_resting False (is_asks s) resting s in (s\<lparr>is_asks := levels\<rparr>, ok))"

section \<open>Matching\<close>

definition in_fill_front_order :: "NodeLevel \<Rightarrow> Price \<Rightarrow> IntrusiveStore \<Rightarrow> MatchContext \<Rightarrow> NodeLevel \<times> IntrusiveStore \<times> MatchContext" where
  "in_fill_front_order level level_price s ctx =
     (let node = the (il_head level);
          maker = order_at s node;
          (ctx', q', filled) = fill_maker ctx (o_id maker) (o_quantity maker) level_price;
          s = set_order_quantity node q' s
      in if filled then
           let s = s\<lparr>is_index := (is_index s)(o_id maker := None)\<rparr>;
               (level, s) = in_unlink_node level node s
           in (level, destroy_node node s, ctx')
         else (level, s, ctx'))"

fun in_fill_level :: "nat \<Rightarrow> NodeLevel \<Rightarrow> Price \<Rightarrow> IntrusiveStore \<Rightarrow> MatchContext \<Rightarrow> NodeLevel \<times> IntrusiveStore \<times> MatchContext" where
  "in_fill_level 0 level level_price s ctx = (level, s, ctx)"
| "in_fill_level (Suc k) level level_price s ctx =
     (if mc_quantity ctx > 0 \<and> il_head level \<noteq> None then
        let (level, s, ctx) = in_fill_front_order level level_price s ctx
        in in_fill_level k level level_price s ctx
      else (level, s, ctx))"

text \<open>\<^verbatim>\<open>match_ordered_levels\<close> with the closures of this store.\<close>

fun in_match_levels :: "nat \<Rightarrow> NodeLevelMap \<Rightarrow> IntrusiveStore \<Rightarrow> MatchContext \<Rightarrow> NodeLevelMap \<times> IntrusiveStore \<times> MatchContext" where
  "in_match_levels 0 levels s ctx = (levels, s, ctx)"
| "in_match_levels (Suc k) [] s ctx = ([], s, ctx)"
| "in_match_levels (Suc k) ((level_price, level) # others) s ctx =
     (if mc_quantity ctx > 0 then
        if \<not> can_match_level (mc_taker_is_buy ctx) (mc_is_market ctx) (mc_limit ctx) level_price
        then ((level_price, level) # others, s, ctx)
        else
          let (level, s, ctx) = in_fill_level (il_size level) level level_price s ctx
          in in_match_levels k (if il_size level = 0 then others else (level_price, level) # others) s ctx
      else ((level_price, level) # others, s, ctx))"

text \<open>The code equation over numbers in binary.\<close>

lemma in_match_levels_code [code]:
  "in_match_levels k levels s ctx =
     (if k = 0 then (levels, s, ctx) else case levels of [] \<Rightarrow> ([], s, ctx) | (level_price, level) # others \<Rightarrow>
     (if mc_quantity ctx > 0 then
        if \<not> can_match_level (mc_taker_is_buy ctx) (mc_is_market ctx) (mc_limit ctx) level_price
        then ((level_price, level) # others, s, ctx)
        else
          let (level, s, ctx) = in_fill_level (il_size level) level level_price s ctx
          in in_match_levels (k - 1) (if il_size level = 0 then others else (level_price, level) # others) s ctx
      else ((level_price, level) # others, s, ctx)))"
  by (cases k; cases levels) auto

definition in_match_opposite :: "Side \<Rightarrow> MatchContext \<Rightarrow> IntrusiveStore \<Rightarrow> IntrusiveStore \<times> MatchContext" where
  "in_match_opposite side ctx s =
     (if side = Buy then
        let (levels, s, ctx) = in_match_levels (length (is_asks s)) (is_asks s) s ctx in (s\<lparr>is_asks := levels\<rparr>, ctx)
      else
        let (levels, s, ctx) = in_match_levels (length (is_bids s)) (is_bids s) s ctx in (s\<lparr>is_bids := levels\<rparr>, ctx))"

section \<open>Capacity\<close>

record MatchOutcome =
  mo_remainder :: Quantity
  mo_makers_freed :: nat

definition simulate_node_match :: "Order \<Rightarrow> MatchOutcome \<Rightarrow> MatchOutcome" where
  "simulate_node_match ord outcome =
     (let traded = min (mo_remainder outcome) (o_quantity ord);
          outcome = outcome\<lparr>mo_remainder := mo_remainder outcome - traded\<rparr>
      in if traded = o_quantity ord then outcome\<lparr>mo_makers_freed := mo_makers_freed outcome + 1\<rparr> else outcome)"

text \<open>The orders a loop over the nodes of a level sees.\<close>

definition level_orders :: "IntrusiveStore \<Rightarrow> NodeLevel \<Rightarrow> Order list" where
  "level_orders s level = map (order_at s) (level_nodes (pl_slots (is_nodes s)) level)"

fun simulate_level_match :: "Order list \<Rightarrow> MatchOutcome \<Rightarrow> MatchOutcome" where
  "simulate_level_match [] outcome = outcome"
| "simulate_level_match (ord # os) outcome =
     (if mo_remainder outcome > 0 then simulate_level_match os (simulate_node_match ord outcome) else outcome)"

fun simulate_match_levels :: "NodeLevelMap \<Rightarrow> bool \<Rightarrow> Price \<Rightarrow> bool \<Rightarrow> IntrusiveStore \<Rightarrow> MatchOutcome \<Rightarrow> MatchOutcome" where
  "simulate_match_levels [] taker_is_buy limit is_market s outcome = outcome"
| "simulate_match_levels ((level_price, level) # others) taker_is_buy limit is_market s outcome =
     (if mo_remainder outcome > 0 then
        if \<not> can_match_level taker_is_buy is_market limit level_price then outcome
        else simulate_match_levels others taker_is_buy limit is_market s (simulate_level_match (level_orders s level) outcome)
      else outcome)"

definition simulate_match :: "Side \<Rightarrow> Price \<Rightarrow> bool \<Rightarrow> Quantity \<Rightarrow> IntrusiveStore \<Rightarrow> MatchOutcome" where
  "simulate_match side limit is_market quantity s =
     (if side = Buy then simulate_match_levels (is_asks s) True limit is_market s \<lparr>mo_remainder = quantity, mo_makers_freed = 0\<rparr>
      else simulate_match_levels (is_bids s) False limit is_market s \<lparr>mo_remainder = quantity, mo_makers_freed = 0\<rparr>)"

definition in_can_store_limit :: "Side \<Rightarrow> Price \<Rightarrow> Quantity \<Rightarrow> TimeInForce \<Rightarrow> IntrusiveStore \<Rightarrow> bool" where
  "in_can_store_limit side price quantity tif s =
     (if tif = IOC then True
      else if has_capacity s then True
      else let outcome = simulate_match side price False quantity s
           in mo_remainder outcome = 0 \<or> mo_makers_freed outcome > 0)"

section \<open>Public operations\<close>

definition in_contains :: "OrderId \<Rightarrow> IntrusiveStore \<Rightarrow> bool" where
  "in_contains i s \<longleftrightarrow> is_index s i \<noteq> None"

definition in_add_limit :: "LimitInput \<Rightarrow> IntrusiveStore \<Rightarrow> IntrusiveStore \<times> Trade list" where
  "in_add_limit inp s =
     (if \<not> in_can_store_limit (li_side inp) (li_price inp) (li_quantity inp) (li_tif inp) s then (s, [])
      else
        let (s, result) = match_incoming (li_id inp) (li_side inp) (li_price inp) False (li_quantity inp)
                            (in_contains (li_id inp)) in_match_opposite s
        in (if should_rest_limit result (li_tif inp)
            then fst (in_rest (li_id inp) (li_side inp) (li_price inp) (mr_remainder result) s) else s,
            mr_trades result))"

definition in_add_market :: "OrderId \<Rightarrow> Side \<Rightarrow> Quantity \<Rightarrow> IntrusiveStore \<Rightarrow> IntrusiveStore \<times> Trade list" where
  "in_add_market i side quantity s =
     (let (s, result) = match_incoming i side (Ticks 0) True quantity (in_contains i) in_match_opposite s
      in (s, mr_trades result))"

definition in_cancel :: "OrderId \<Rightarrow> IntrusiveStore \<Rightarrow> IntrusiveStore \<times> bool" where
  "in_cancel i s =
     (case is_index s i of
        None \<Rightarrow> (s, False)
      | Some found \<Rightarrow> (erase_indexed_order i found s, True))"

definition in_modify :: "OrderId \<Rightarrow> Price \<Rightarrow> Quantity \<Rightarrow> IntrusiveStore \<Rightarrow> IntrusiveStore \<times> Trade list" where
  "in_modify i new_price new_quantity s =
     (case is_index s i of
        None \<Rightarrow> (s, [])
      | Some loc \<Rightarrow>
          if new_quantity = 0 then (erase_indexed_order i loc s, [])
          else if new_price = nl_price loc \<and> new_quantity \<le> o_quantity (order_at s (nl_node loc))
          then (set_order_quantity (nl_node loc) new_quantity s, [])
          else in_add_limit \<lparr>li_id = i, li_side = nl_side loc, li_price = new_price, li_quantity = new_quantity,
                             li_tif = GTC\<rparr> (erase_indexed_order i loc s))"

section \<open>Queries\<close>

definition in_best_bid :: "IntrusiveStore \<Rightarrow> Price option" where
  "in_best_bid s = (case is_bids s of [] \<Rightarrow> None | (p, _) # _ \<Rightarrow> Some p)"

definition in_best_ask :: "IntrusiveStore \<Rightarrow> Price option" where
  "in_best_ask s = (case is_asks s of [] \<Rightarrow> None | (p, _) # _ \<Rightarrow> Some p)"

definition in_find_level :: "NodeLevelMap \<Rightarrow> Price \<Rightarrow> NodeLevel option" where
  "in_find_level levels price = map_of levels price"

definition in_level_quantity :: "IntrusiveStore \<Rightarrow> NodeLevel \<Rightarrow> QuantityTotal" where
  "in_level_quantity s level = foldl (\<lambda>total ord. total + ucast (o_quantity ord)) 0 (level_orders s level)"

definition in_quantity_at :: "Side \<Rightarrow> Price \<Rightarrow> IntrusiveStore \<Rightarrow> QuantityTotal" where
  "in_quantity_at side price s =
     (case (if side = Buy then in_find_level (is_bids s) price else in_find_level (is_asks s) price) of
        None \<Rightarrow> 0
      | Some level \<Rightarrow> in_level_quantity s level)"

definition in_order_count :: "IntrusiveStore \<Rightarrow> nat" where
  "in_order_count s = card (dom (is_index s))"

text \<open>The two nested loops of \<^verbatim>\<open>fill_count\<close>, with the count and the quantity they update.\<close>

fun in_count_orders :: "Order list \<Rightarrow> nat \<Rightarrow> Quantity \<Rightarrow> nat \<times> Quantity" where
  "in_count_orders [] n quantity = (n, quantity)"
| "in_count_orders (ord # os) n quantity =
     (if quantity > 0 then in_count_orders os (n + 1) (quantity - min quantity (o_quantity ord)) else (n, quantity))"

fun in_count_levels :: "NodeLevelMap \<Rightarrow> bool \<Rightarrow> Price \<Rightarrow> bool \<Rightarrow> IntrusiveStore \<Rightarrow> nat \<Rightarrow> Quantity \<Rightarrow> nat" where
  "in_count_levels [] taker_is_buy limit is_market s n quantity = n"
| "in_count_levels ((level_price, level) # others) taker_is_buy limit is_market s n quantity =
     (if quantity > 0 then
        if \<not> can_match_level taker_is_buy is_market limit level_price then n
        else let (n, quantity) = in_count_orders (level_orders s level) n quantity
             in in_count_levels others taker_is_buy limit is_market s n quantity
      else n)"

definition in_fill_count :: "Side \<Rightarrow> Price \<Rightarrow> bool \<Rightarrow> Quantity \<Rightarrow> IntrusiveStore \<Rightarrow> nat" where
  "in_fill_count taker_side limit is_market quantity s =
     (if taker_side = Buy then in_count_levels (is_asks s) True limit is_market s 0 quantity
      else if taker_side = Sell then in_count_levels (is_bids s) False limit is_market s 0 quantity
      else 0)"

definition in_collect_levels :: "NodeLevelMap \<Rightarrow> IntrusiveStore \<Rightarrow> LevelView list" where
  "in_collect_levels book s = map (\<lambda>(price, level). \<lparr>lv_price = price, lv_quantity = in_level_quantity s level\<rparr>) book"

definition in_bid_levels :: "IntrusiveStore \<Rightarrow> LevelView list" where
  "in_bid_levels s = in_collect_levels (is_bids s) s"

definition in_ask_levels :: "IntrusiveStore \<Rightarrow> LevelView list" where
  "in_ask_levels s = in_collect_levels (is_asks s) s"

definition in_append_orders :: "NodeLevelMap \<Rightarrow> IntrusiveStore \<Rightarrow> Order list \<Rightarrow> Order list" where
  "in_append_orders book s out = out @ concat (map (\<lambda>(price, level). level_orders s level) book)"

definition in_resting_orders :: "IntrusiveStore \<Rightarrow> Order list" where
  "in_resting_orders s = in_append_orders (is_asks s) s (in_append_orders (is_bids s) s [])"

text \<open>\<^verbatim>\<open>OrderBook::can_apply_modify\<close> never refuses in this mode.\<close>

definition in_can_apply_modify :: "OrderId \<Rightarrow> Price \<Rightarrow> Quantity \<Rightarrow> IntrusiveStore \<Rightarrow> bool" where
  "in_can_apply_modify i new_price new_quantity s = True"

end
