(* ===== verification/Intrusive_Cells.thy ===== *)
theory Intrusive_Cells
  imports Intrusive_Book Storage_Simulation
begin

text \<open>
  The intrusive storage cell by cell: what a level with its linked nodes represents, what
  appending, refilling and removing one node change and leave alone, and that its two matching
  loops run in lockstep with the baseline's. No step leaks or double-frees a pool slot: both
  pools hold exactly one slot per resting order.
\<close>

section \<open>Cells\<close>

text \<open>
  A level with the nodes it links: each node carries a live order that the index locates at
  exactly this side, price and node.
\<close>

abbreviation nheap :: "IntrusiveStore \<Rightarrow> NodeHeap" where "nheap s \<equiv> pl_slots (is_nodes s)"
abbreviation oheap :: "IntrusiveStore \<Rightarrow> nat \<rightharpoonup> Order" where "oheap s \<equiv> pl_slots (is_orders s)"

definition located :: "IntrusiveStore \<Rightarrow> Side \<Rightarrow> Price \<Rightarrow> nat \<Rightarrow> bool" where
  "located s side p n \<longleftrightarrow> nheap s n \<noteq> None \<and> oheap s (nd_order (node_at s n)) \<noteq> None \<and>
     is_index s (o_id (order_at s n)) = Some \<lparr>nl_side = side, nl_price = p, nl_node = n\<rparr>"

definition cell_rep :: "IntrusiveStore \<Rightarrow> Side \<Rightarrow> Price \<Rightarrow> NodeLevel \<Rightarrow> nat list \<Rightarrow> bool" where
  "cell_rep s side p l ns \<longleftrightarrow> level_rep (nheap s) l ns \<and> (\<forall>n\<in>set ns. located s side p n)"

definition cell_ok :: "IntrusiveStore \<Rightarrow> Side \<Rightarrow> Price \<Rightarrow> NodeLevel \<Rightarrow> bool" where
  "cell_ok s side p l \<longleftrightarrow> (\<exists>ns. cell_rep s side p l ns)"

lemma cell_rep_orders: "cell_rep s side p l ns \<Longrightarrow> level_orders s l = map (order_at s) ns"
  using level_rep_nodes [of "nheap s" l ns] by (simp add: cell_rep_def level_orders_def)

lemma cell_rep_located: "cell_rep s side p l ns \<Longrightarrow> n \<in> set ns \<Longrightarrow> located s side p n"
  by (simp add: cell_rep_def)

text \<open>What a change at one price leaves alone: everything the index locates elsewhere.\<close>

definition keeps :: "(Side \<Rightarrow> Price \<Rightarrow> bool) \<Rightarrow> IntrusiveStore \<Rightarrow> IntrusiveStore \<Rightarrow> bool" where
  "keeps own s s' \<longleftrightarrow> (\<forall>side p n. \<not> own side p \<longrightarrow> located s side p n \<longrightarrow>
     located s' side p n \<and> nheap s' n = nheap s n \<and> order_at s' n = order_at s n)"

abbreviation at_cell :: "Side \<Rightarrow> Price \<Rightarrow> Side \<Rightarrow> Price \<Rightarrow> bool" where
  "at_cell side p \<equiv> \<lambda>side' p'. side' = side \<and> p' = p"

abbreviation on_side :: "Side \<Rightarrow> Side \<Rightarrow> Price \<Rightarrow> bool" where
  "on_side side \<equiv> \<lambda>side' p'. side' = side"

lemma keeps_refl [simp]: "keeps own s s"
  by (simp add: keeps_def)

lemma keeps_trans: "keeps own s s' \<Longrightarrow> keeps own s' s'' \<Longrightarrow> keeps own s s''"
  by (simp add: keeps_def)

lemma keeps_mono: "keeps own s s' \<Longrightarrow> (\<And>side p. own side p \<Longrightarrow> own' side p) \<Longrightarrow> keeps own' s s'"
  by (fastforce simp: keeps_def)

lemma keeps_cell:
  assumes "keeps own s s'" "cell_rep s side p l ns" "\<not> own side p"
  shows "cell_rep s' side p l ns" "level_orders s' l = level_orders s l"
proof -
  have k: "located s' side p n" "nheap s' n = nheap s n" "order_at s' n = order_at s n" if "n \<in> set ns" for n
    using assms(1,3) cell_rep_located [OF assms(2) that] by (auto simp: keeps_def)
  show r: "cell_rep s' side p l ns"
    using assms(2) k level_rep_cong [of ns "nheap s'" "nheap s" l] by (simp add: cell_rep_def)
  show "level_orders s' l = level_orders s l"
    using k(3) by (simp add: cell_rep_orders [OF r] cell_rep_orders [OF assms(2)])
qed

lemma located_unique:
  assumes "located s side p n" "located s side' p' n"
  shows "side = side'" "p = p'"
  using assms by (auto simp: located_def)

lemma located_order_inj:
  assumes "located s side p n" "located s side' p' n'" "nd_order (node_at s n) = nd_order (node_at s n')"
  shows "n = n'"
  using assms by (auto simp: located_def order_at_def)

lemma located_id_inj:
  assumes "located s side p n" "located s side' p' n'" "o_id (order_at s n) = o_id (order_at s n')"
  shows "n = n'"
  using assms by (auto simp: located_def)

section \<open>Pools\<close>

text \<open>Both pools are intact and hold exactly one slot per resting order.\<close>

definition pools_ok :: "IntrusiveStore \<Rightarrow> bool" where
  "pools_ok s \<longleftrightarrow> pool_ok kIntrusivePoolCapacity (is_orders s) \<and> pool_ok kIntrusivePoolCapacity (is_nodes s) \<and>
     finite (dom (is_index s)) \<and>
     pl_free_count (is_orders s) + in_order_count s = kIntrusivePoolCapacity \<and>
     pl_free_count (is_nodes s) + in_order_count s = kIntrusivePoolCapacity"

lemma free_list_slots [simp]: "free_list (p\<lparr>pl_slots := m\<rparr>) = free_list p"
  by (simp add: free_list_def)

lemma pool_ok_slots: "pool_ok c p \<Longrightarrow> dom m = dom (pl_slots p) \<Longrightarrow> pool_ok c (p\<lparr>pl_slots := m\<rparr>)"
  unfolding pool_ok_def by (simp add: dom_def set_eq_iff) (metis option.exhaust_sel option.distinct(1))

lemma same_orders_dom: "same_orders m m' \<Longrightarrow> dom m' = dom m"
  by (auto simp: same_orders_def dom_def) (metis map_option_is_None option.distinct(1) option.exhaust)+

lemma same_orders_nd: "same_orders m m' \<Longrightarrow> m n \<noteq> None \<Longrightarrow> nd_order (the (m' n)) = nd_order (the (m n)) \<and> m' n \<noteq> None"
  by (auto simp: same_orders_def) (metis map_option_eq_Some option.sel)+

section \<open>Steps on one cell\<close>

subsection \<open>Changing a quantity\<close>

lemma set_order_quantity_sel [simp]:
  "is_nodes (set_order_quantity n q s) = is_nodes s" "is_index (set_order_quantity n q s) = is_index s"
  "is_bids (set_order_quantity n q s) = is_bids s" "is_asks (set_order_quantity n q s) = is_asks s"
  "node_at (set_order_quantity n q s) k = node_at s k" "in_order_count (set_order_quantity n q s) = in_order_count s"
  "pl_free_count (is_orders (set_order_quantity n q s)) = pl_free_count (is_orders s)"
  by (simp_all add: set_order_quantity_def node_at_def in_order_count_def)

lemma order_at_set_quantity:
  assumes "located s side p n"
  shows "order_at (set_order_quantity n q s) k =
    (if nd_order (node_at s k) = nd_order (node_at s n) then (order_at s n)\<lparr>o_quantity := q\<rparr> else order_at s k)"
  using assms by (auto simp: set_order_quantity_def order_at_def node_at_def)

lemma located_set_quantity:
  assumes "located s side p n"
  shows "located (set_order_quantity n q s) side' p' k = located s side' p' k"
proof (cases "nheap s k = None")
  case True
  then show ?thesis by (simp add: located_def)
next
  case False
  have "o_id (order_at (set_order_quantity n q s) k) = o_id (order_at s k)"
    by (auto simp: order_at_set_quantity [OF assms]) (simp add: order_at_def)
  moreover have "oheap (set_order_quantity n q s) j = None \<longleftrightarrow> oheap s j = None" for j
    using assms by (auto simp: set_order_quantity_def located_def)
  ultimately show ?thesis by (simp add: located_def)
qed

lemma set_quantity_step:
  assumes "cell_rep s side p l ns" "n \<in> set ns" "s' = set_order_quantity n q s"
  shows "cell_rep s' side p l ns" "keeps (at_cell side p) s s'"
    "map (order_at s') ns = map (\<lambda>k. if k = n then (order_at s n)\<lparr>o_quantity := q\<rparr> else order_at s k) ns"
proof -
  note loc = cell_rep_located [OF assms(1,2)]
  show "cell_rep s' side p l ns" using assms(1) by (simp add: cell_rep_def assms(3) located_set_quantity [OF loc])
  have other: "order_at s' k = order_at s k" if "located s side' p' k" "k \<noteq> n" for side' p' k
    using located_order_inj [OF that(1) loc] that(2) by (auto simp: assms(3) order_at_set_quantity [OF loc])
  show "keeps (at_cell side p) s s'"
    unfolding keeps_def
  proof (intro allI impI)
    fix side' p' x assume x: "\<not> (side' = side \<and> p' = p)" "located s side' p' x"
    have "x \<noteq> n" using located_unique [OF x(2), of side p] loc x(1) by blast
    then show "located s' side' p' x \<and> nheap s' x = nheap s x \<and> order_at s' x = order_at s x"
      using other [OF x(2)] x(2) by (simp add: assms(3) located_set_quantity [OF loc])
  qed
  have "order_at s' n = (order_at s n)\<lparr>o_quantity := q\<rparr>" by (simp add: assms(3) order_at_set_quantity [OF loc])
  then show "map (order_at s') ns = map (\<lambda>k. if k = n then (order_at s n)\<lparr>o_quantity := q\<rparr> else order_at s k) ns"
    using other cell_rep_located [OF assms(1)] by auto
qed

lemma set_quantity_pools:
  assumes "pools_ok s" "located s side p n"
  shows "pools_ok (set_order_quantity n q s)"
proof -
  have "pool_ok c (is_orders s) \<Longrightarrow> pool_ok c (is_orders (set_order_quantity n q s))" for c
    using assms(2) by (auto simp: set_order_quantity_def located_def intro!: pool_ok_slots split: if_splits)
  then show ?thesis using assms(1) by (simp add: pools_ok_def)
qed

subsection \<open>Removing a node\<close>

lemma set_node_heap_sel [simp]:
  "nheap (set_node_heap m s) = m" "is_orders (set_node_heap m s) = is_orders s" "is_index (set_node_heap m s) = is_index s"
  "is_bids (set_node_heap m s) = is_bids s" "is_asks (set_node_heap m s) = is_asks s"
  "in_order_count (set_node_heap m s) = in_order_count s"
  "pl_free_count (is_nodes (set_node_heap m s)) = pl_free_count (is_nodes s)"
  by (simp_all add: set_node_heap_def in_order_count_def)

lemma remove_node_step:
  assumes "cell_rep s side p l (a @ n # b)" "pools_ok s"
    and "in_unlink_node l n (s\<lparr>is_index := (is_index s)(o_id (order_at s n) := None)\<rparr>) = (l', s2)" "s' = destroy_node n s2"
  shows "cell_rep s' side p l' (a @ b)" "keeps (at_cell side p) s s'" "map (order_at s') (a @ b) = map (order_at s) (a @ b)"
    "pools_ok s'" "is_index s' = (is_index s)(o_id (order_at s n) := None)" "is_bids s' = is_bids s" "is_asks s' = is_asks s"
    "in_order_count s = Suc (in_order_count s')"
proof -
  have rep: "level_rep (nheap s) l (a @ n # b)" using assms(1) by (simp add: cell_rep_def)
  note loc = cell_rep_located [OF assms(1)]
  have dist: "n \<notin> set (a @ b)" using rep by (simp add: level_rep_def)
  obtain m where u: "unlink_node l n (nheap s) = (l', m)" and s2: "s2 = set_node_heap m (s\<lparr>is_index := (is_index s)(o_id (order_at s n) := None)\<rparr>)"
    using assms(3) by (auto simp: in_unlink_node_def split: prod.splits)
  note un = unlink_node_rep [OF rep u]
  have ln: "located s side p n" using loc by simp
  have mn: "m n = nheap s n" using un(2) dist by simp
  define k where "k = nd_order (node_at s n)"
  have k2: "nd_order (node_at s2 n) = k" by (simp add: node_at_def s2 mn k_def)
  obtain po ro where po: "release_slot k (is_orders s) = (po, ro)" by (cases "release_slot k (is_orders s)")
  obtain pn rn where pn: "release_slot n (is_nodes (set_node_heap m s)) = (pn, rn)" by (cases "release_slot n (is_nodes (set_node_heap m s))")
  have nodes2: "is_nodes s2 = is_nodes (set_node_heap m s)" "is_orders s2 = is_orders s" by (simp_all add: s2 set_node_heap_def)
  have s': "is_orders s' = po" "is_nodes s' = pn" "is_index s' = (is_index s)(o_id (order_at s n) := None)"
      "is_bids s' = is_bids s" "is_asks s' = is_asks s"
    using po pn by (simp_all add: assms(4) destroy_node_def Let_def k2 nodes2) (simp_all add: s2)
  have ok: "pool_ok kIntrusivePoolCapacity (is_orders s)" "pool_ok kIntrusivePoolCapacity (is_nodes (set_node_heap m s))"
    using assms(2) same_orders_dom [OF un(3)] by (auto simp: pools_ok_def set_node_heap_def intro!: pool_ok_slots)
  note ro = release_slot_ok [OF ok(1) po] and rn = release_slot_ok [OF ok(2) pn]
  have live: ro rn using ln ro(2) rn(2) by (simp_all add: located_def k_def mn)
  have heaps: "oheap s' = (oheap s)(k := None)" "nheap s' = m(n := None)" using ro(3) rn(3) by (simp_all add: s')
  have idxn: "is_index s (o_id (order_at s n)) \<noteq> None" using ln by (simp add: located_def)
  have keep: "located s' side' p' x \<and> nd_order (node_at s' x) = nd_order (node_at s x) \<and> order_at s' x = order_at s x"
    if x: "located s side' p' x" "x \<noteq> n" for side' p' x
  proof -
    have nd: "nd_order (node_at s' x) = nd_order (node_at s x)" "nheap s' x \<noteq> None"
      using same_orders_nd [OF un(3), of x] x by (simp_all add: node_at_def heaps located_def)
    have "nd_order (node_at s x) \<noteq> k" using located_order_inj [OF x(1) ln] x(2) by (auto simp: k_def)
    then have oa: "order_at s' x = order_at s x" "oheap s' (nd_order (node_at s' x)) \<noteq> None"
      using x(1) by (simp_all add: order_at_def nd(1) heaps located_def)
    have "o_id (order_at s x) \<noteq> o_id (order_at s n)" using located_id_inj [OF x(1) ln] x(2) by blast
    then show ?thesis using x(1) nd oa by (simp add: located_def s'(3))
  qed
  have "level_rep (nheap s') l' (a @ b)"
    using un(1) by (subst level_rep_cong [of _ _ m]) (use dist in \<open>auto simp: heaps\<close>)
  moreover have own: "located s' side p x \<and> order_at s' x = order_at s x" if "x \<in> set (a @ b)" for x
    using keep [OF loc, of x] that dist by auto
  ultimately show "cell_rep s' side p l' (a @ b)" by (simp add: cell_rep_def)
  show "map (order_at s') (a @ b) = map (order_at s) (a @ b)"
    using own by (simp add: map_eq_conv del: map_append set_append)
  show "keeps (at_cell side p) s s'"
    unfolding keeps_def
  proof (intro allI impI)
    fix side' p' x assume x: "\<not> (side' = side \<and> p' = p)" "located s side' p' x"
    then have "x \<notin> set (a @ n # b)" using loc located_unique by blast
    then have "x \<noteq> n" "m x = nheap s x" using un(2) by auto
    then show "located s' side' p' x \<and> nheap s' x = nheap s x \<and> order_at s' x = order_at s x"
      using keep [OF x(2)] by (simp add: heaps)
  qed
  have fin: "finite (dom (is_index s))" using assms(2) by (simp add: pools_ok_def)
  have "card (dom (is_index s)) = Suc (card (dom (is_index s) - {o_id (order_at s n)}))"
    using fin idxn by (metis card_Suc_Diff1 domI domIff)
  then show cnt: "in_order_count s = Suc (in_order_count s')"
    by (simp add: in_order_count_def s'(3))
  show "pools_ok s'"
    using ro(1,4) rn(1,4) live assms(2) cnt fin by (simp add: pools_ok_def s')
  show "is_index s' = (is_index s)(o_id (order_at s n) := None)" "is_bids s' = is_bids s" "is_asks s' = is_asks s"
    by (rule s')+
qed

subsection \<open>Appending a node\<close>

lemma append_node_step:
  assumes "cell_rep s side p l ns" "pools_ok s" "is_index s (o_id ord) = None"
    and "try_acquire ord (is_orders s) = (po, Some k)"
    and "try_acquire \<lparr>nd_order = k, nd_prev = None, nd_next = None\<rparr> (is_nodes s) = (pn, Some n)"
    and "in_append_node l n (s\<lparr>is_orders := po, is_nodes := pn\<rparr>) = (l', s2)"
    and "s' = s2\<lparr>is_index := (is_index s)(o_id ord \<mapsto> \<lparr>nl_side = side, nl_price = p, nl_node = n\<rparr>)\<rparr>"
  shows "cell_rep s' side p l' (ns @ [n])" "keeps (at_cell side p) s s'" "map (order_at s') (ns @ [n]) = map (order_at s) ns @ [ord]"
    "pools_ok s'" "is_bids s' = is_bids s" "is_asks s' = is_asks s" "is_index s2 = is_index s" "in_order_count s' = Suc (in_order_count s)"
proof -
  have rep: "level_rep (nheap s) l ns" using assms(1) by (simp add: cell_rep_def)
  note loc = cell_rep_located [OF assms(1)]
  have ok: "pool_ok kIntrusivePoolCapacity (is_orders s)" "pool_ok kIntrusivePoolCapacity (is_nodes s)" "finite (dom (is_index s))"
    using assms(2) by (simp_all add: pools_ok_def)
  note ao = try_acquire_ok [OF ok(1) assms(4)] and an = try_acquire_ok [OF ok(2) assms(5)]
  let ?nd = "\<lparr>nd_order = k, nd_prev = None, nd_next = None\<rparr>"
  have o: "oheap s k = None" "pl_slots po = (oheap s)(k \<mapsto> ord)" "pl_free_count (is_orders s) = Suc (pl_free_count po)" using ao(4) by simp_all
  have nd: "nheap s n = None" "pl_slots pn = (nheap s)(n \<mapsto> ?nd)" "pl_free_count (is_nodes s) = Suc (pl_free_count pn)" using an(4) by simp_all
  have new: "n \<notin> set ns" using level_rep_live [OF rep, of n] nd(1) by blast
  let ?m = "(nheap s)(n \<mapsto> ?nd)"
  have rep1: "level_rep ?m l ns" using rep by (subst level_rep_cong [of _ _ "nheap s"]) (use new in auto)
  obtain m where u: "append_node l n ?m = (l', m)" and s2: "s2 = set_node_heap m (s\<lparr>is_orders := po, is_nodes := pn\<rparr>)"
    using assms(6) by (auto simp: in_append_node_def nd(2) split: prod.splits)
  note ap = append_node_rep [OF rep1 _ new u]
  have s': "is_orders s' = po" "nheap s' = m" "is_index s' = (is_index s)(o_id ord \<mapsto> \<lparr>nl_side = side, nl_price = p, nl_node = n\<rparr>)"
      "is_bids s' = is_bids s" "is_asks s' = is_asks s" "is_nodes s' = pn\<lparr>pl_slots := m\<rparr>" "is_index s2 = is_index s"
    by (simp_all add: assms(7) s2 set_node_heap_def)
  have keep: "located s' side' p' x \<and> order_at s' x = order_at s x" if x: "located s side' p' x" for side' p' x
  proof -
    have xn: "x \<noteq> n" using x nd(1) by (auto simp: located_def)
    have nd': "nd_order (node_at s' x) = nd_order (node_at s x)" "nheap s' x \<noteq> None"
      using same_orders_nd [OF ap(3), of x] x xn by (simp_all add: node_at_def s' located_def)
    have "nd_order (node_at s x) \<noteq> k" using x o(1) by (auto simp: located_def)
    then have oa: "order_at s' x = order_at s x" "oheap s' (nd_order (node_at s' x)) \<noteq> None"
      using x by (simp_all add: order_at_def nd'(1) s' o(2) located_def)
    have "o_id (order_at s x) \<noteq> o_id ord" using x assms(3) by (auto simp: located_def)
    then show ?thesis using x nd'(2) oa by (simp add: located_def s'(3))
  qed
  have mn: "m n \<noteq> None" "nd_order (the (m n)) = k" using same_orders_nd [OF ap(3), of n] by simp_all
  have on: "order_at s' n = ord" by (simp add: order_at_def node_at_def s' mn(2) o(2))
  then have ln: "located s' side p n" by (simp add: located_def s' mn node_at_def o(2))
  show "cell_rep s' side p l' (ns @ [n])" using ap(1) ln keep loc by (auto simp: cell_rep_def s')
  show "map (order_at s') (ns @ [n]) = map (order_at s) ns @ [ord]" using on keep loc by auto
  show "keeps (at_cell side p) s s'"
    unfolding keeps_def
  proof (intro allI impI)
    fix side' p' x assume x: "\<not> (side' = side \<and> p' = p)" "located s side' p' x"
    have "x \<notin> set ns" using loc located_unique [OF x(2)] x(1) by blast
    moreover have "x \<noteq> n" using x(2) nd(1) by (auto simp: located_def)
    ultimately show "located s' side' p' x \<and> nheap s' x = nheap s x \<and> order_at s' x = order_at s x"
      using keep [OF x(2)] ap(2) [of x] by (simp add: s')
  qed
  show cnt: "in_order_count s' = Suc (in_order_count s)"
    using assms(3) ok(3) by (simp add: in_order_count_def s'(3) domIff)
  have "pool_ok kIntrusivePoolCapacity (pn\<lparr>pl_slots := m\<rparr>)"
    by (rule pool_ok_slots [OF an(1)]) (use same_orders_dom [OF ap(3)] nd(2) in simp)
  then show "pools_ok s'"
    using ao(1) assms(2) cnt ok(3) o(3) nd(3) by (simp add: pools_ok_def s')
  show "is_bids s' = is_bids s" "is_asks s' = is_asks s" "is_index s2 = is_index s" by (rule s')+
qed

section \<open>Matching\<close>

definition nx :: "IntrusiveIndex \<Rightarrow> Index" where
  "nx idx = (\<lambda>i. map_option (\<lambda>loc. \<lparr>loc_side = nl_side loc, loc_price = nl_price loc, loc_it = i\<rparr>) (idx i))"

lemma nx_None [simp]: "nx idx i = None \<longleftrightarrow> idx i = None"
  by (simp add: nx_def)

lemma nx_dom [simp]: "dom (nx idx) = dom idx"
  by (auto simp: nx_def)

lemma nx_erase [simp]: "nx (idx(i := None)) = (nx idx)(i := None)"
  by (auto simp: nx_def)

lemma nx_update [simp]:
  "nx (idx(i \<mapsto> loc)) = (nx idx)(i \<mapsto> \<lparr>loc_side = nl_side loc, loc_price = nl_price loc, loc_it = i\<rparr>)"
  by (auto simp: nx_def)

lemma in_fill_front_order_sim:
  assumes "cell_rep s side p l (n # ns)" "pools_ok s" "in_fill_front_order l p s ctx = (l', s', ctx')"
  obtains ns' where "cell_rep s' side p l' ns'" "keeps (at_cell side p) s s'" "pools_ok s'" "is_bids s' = is_bids s" "is_asks s' = is_asks s"
    "in_order_count s' \<le> in_order_count s" "length ns' \<le> Suc (length ns)" "length ns' = Suc (length ns) \<Longrightarrow> mc_quantity ctx' = 0 \<or> mc_quantity ctx = 0"
    "fill_front_order (map (order_at s) (n # ns)) p (nx (is_index s)) ctx = (map (order_at s') ns', nx (is_index s'), ctx')"
proof -
  have hd: "il_head l = Some n" using assms(1) level_rep_head by (fastforce simp: cell_rep_def)
  have dist: "n \<notin> set ns" using assms(1) by (simp add: cell_rep_def level_rep_def)
  let ?mk = "order_at s n"
  obtain c q d where f: "fill_maker ctx (o_id ?mk) (o_quantity ?mk) p = (c, q, d)"
    by (cases "fill_maker ctx (o_id ?mk) (o_quantity ?mk) p")
  define s1 where "s1 = set_order_quantity n q s"
  note q = set_quantity_step [OF assms(1) _ s1_def, simplified]
  have loc: "located s side p n" using cell_rep_located [OF assms(1), of n] by simp
  have pools1: "pools_ok s1" unfolding s1_def by (rule set_quantity_pools [OF assms(2) loc])
  have on1: "order_at s1 n = ?mk\<lparr>o_quantity := q\<rparr>" "map (order_at s1) ns = map (order_at s) ns"
    using q(3) dist by auto
  have base: "fill_front_order (map (order_at s) (n # ns)) p (nx (is_index s)) ctx =
      (if d then (map (order_at s) ns, (nx (is_index s))(o_id ?mk := None), c)
       else (?mk\<lparr>o_quantity := q\<rparr> # map (order_at s) ns, nx (is_index s), c))"
    using f by (simp add: fill_front_order_def)
  show thesis
  proof (cases d)
    case True
    obtain l2 s2 where u: "in_unlink_node l n (s1\<lparr>is_index := (is_index s1)(o_id (order_at s1 n) := None)\<rparr>) = (l2, s2)"
      by (cases "in_unlink_node l n (s1\<lparr>is_index := (is_index s1)(o_id (order_at s1 n) := None)\<rparr>)")
    have out: "l' = l2" "s' = destroy_node n s2" "ctx' = c"
      using assms(3) f True u on1(1) by (simp_all add: in_fill_front_order_def hd s1_def)
    note r = remove_node_step [of s1 side p l "[]" n ns, simplified, OF q(1) pools1 u out(2)]
    show thesis
    proof (rule that)
      show "cell_rep s' side p l' ns" using r(1) by (simp add: out)
      show "keeps (at_cell side p) s s'" by (rule keeps_trans [OF q(2) r(2)])
      show "pools_ok s'" by (rule r(4))
      show "is_bids s' = is_bids s" "is_asks s' = is_asks s" using r(6,7) by (simp_all add: s1_def)
      show "in_order_count s' \<le> in_order_count s" using r(8) by (simp add: s1_def)
      show "fill_front_order (map (order_at s) (n # ns)) p (nx (is_index s)) ctx = (map (order_at s') ns, nx (is_index s'), ctx')"
        unfolding base using True r(3,5) on1 by (simp add: out s1_def)
    qed simp_all
  next
    case False
    have out: "l' = l" "s' = s1" "ctx' = c"
      using assms(3) f False by (simp_all add: in_fill_front_order_def hd s1_def)
    show thesis
    proof (rule that)
      show "cell_rep s' side p l' (n # ns)" using q(1) by (simp add: out)
      show "keeps (at_cell side p) s s'" using q(2) by (simp add: out)
      show "pools_ok s'" using pools1 by (simp add: out)
      show "is_bids s' = is_bids s" "is_asks s' = is_asks s" "in_order_count s' \<le> in_order_count s" by (simp_all add: out s1_def)
      show "mc_quantity ctx' = 0 \<or> mc_quantity ctx = 0"
        using f False by (auto simp: out fill_maker_def Let_def min_def split: if_splits)
      show "fill_front_order (map (order_at s) (n # ns)) p (nx (is_index s)) ctx = (map (order_at s') (n # ns), nx (is_index s'), ctx')"
        unfolding base using False on1 by (simp add: out) (simp add: s1_def)
    qed simp
  qed
qed

text \<open>The loop over a level ends by its own condition within as many iterations as it has nodes.\<close>

lemma in_fill_level_sim:
  assumes "cell_rep s side p l ns" "pools_ok s" "mc_quantity ctx = 0 \<or> length ns \<le> k" "in_fill_level k l p s ctx = (l', s', ctx')"
  shows "\<exists>ns'. cell_rep s' side p l' ns' \<and> keeps (at_cell side p) s s' \<and> pools_ok s' \<and> is_bids s' = is_bids s \<and> is_asks s' = is_asks s \<and>
    fill_level (map (order_at s) ns) p (nx (is_index s)) ctx = (map (order_at s') ns', nx (is_index s'), ctx')"
  using assms
proof (induction k l p s ctx arbitrary: ns rule: in_fill_level.induct)
  case (1 l p s ctx)
  then have "fill_level (map (order_at s) ns) p (nx (is_index s)) ctx = (map (order_at s) ns, nx (is_index s), ctx)"
    by (subst fill_level.simps) auto
  then show ?case using 1 by (auto intro!: exI [of _ ns])
next
  case (2 k l p s ctx)
  have hd: "il_head l = None \<longleftrightarrow> ns = []"
    using 2(2) level_rep_head [of "nheap s" l ns] by (cases ns) (auto simp: cell_rep_def)
  show ?case
  proof (cases "mc_quantity ctx > 0 \<and> il_head l \<noteq> None")
    case True
    then obtain n ns0 where ns: "ns = n # ns0" using hd by (cases ns) auto
    obtain l1 s1 ctx1 where f: "in_fill_front_order l p s ctx = (l1, s1, ctx1)" by (cases "in_fill_front_order l p s ctx")
    obtain ns1 where a: "cell_rep s1 side p l1 ns1" "keeps (at_cell side p) s s1" "pools_ok s1" "is_bids s1 = is_bids s" "is_asks s1 = is_asks s"
        "length ns1 \<le> Suc (length ns0)" "length ns1 = Suc (length ns0) \<Longrightarrow> mc_quantity ctx1 = 0 \<or> mc_quantity ctx = 0"
        "fill_front_order (map (order_at s) ns) p (nx (is_index s)) ctx = (map (order_at s1) ns1, nx (is_index s1), ctx1)"
      using in_fill_front_order_sim [OF 2(2) [unfolded ns] 2(3) f] unfolding ns by metis
    have k: "mc_quantity ctx1 = 0 \<or> length ns1 \<le> k" using 2(4) a(6,7) True by (auto simp: ns)
    have rest: "in_fill_level k l1 p s1 ctx1 = (l', s', ctx')" using 2(5) True f by simp
    obtain ns' where b: "cell_rep s' side p l' ns'" "keeps (at_cell side p) s1 s'" "pools_ok s'" "is_bids s' = is_bids s1" "is_asks s' = is_asks s1"
        "fill_level (map (order_at s1) ns1) p (nx (is_index s1)) ctx1 = (map (order_at s') ns', nx (is_index s'), ctx')"
      using 2(1) [OF True f [symmetric] refl refl a(1,3) k rest] by blast
    have "fill_level (map (order_at s) ns) p (nx (is_index s)) ctx = (map (order_at s') ns', nx (is_index s'), ctx')"
      using a(8) b(6) True by (subst fill_level.simps) (simp add: ns)
    then show ?thesis using b(1,3-5) a(4,5) keeps_trans [OF a(2) b(2)] by auto
  next
    case False
    then have "fill_level (map (order_at s) ns) p (nx (is_index s)) ctx = (map (order_at s) ns, nx (is_index s), ctx)"
      using hd by (subst fill_level.simps) auto
    moreover have "l' = l" "s' = s" "ctx' = ctx" using 2(5) False by (simp_all split: if_splits)
    ultimately show ?thesis using 2(2,3) by (auto intro!: exI [of _ ns])
  qed
qed

definition in_levels :: "IntrusiveStore \<Rightarrow> NodeLevelMap \<Rightarrow> LevelMap" where
  "in_levels s levels = map (\<lambda>(p, l). (p, level_orders s l)) levels"

definition cells :: "IntrusiveStore \<Rightarrow> Side \<Rightarrow> NodeLevelMap \<Rightarrow> bool" where
  "cells s side levels \<longleftrightarrow> (\<forall>(p, l)\<in>set levels. cell_ok s side p l)"

lemma in_levels_simps [simp]:
  "in_levels s [] = []" "in_levels s ((p, l) # levels) = (p, level_orders s l) # in_levels s levels"
  by (simp_all add: in_levels_def)

lemma cells_simps [simp]:
  "cells s side []" "cells s side ((p, l) # levels) \<longleftrightarrow> cell_ok s side p l \<and> cells s side levels"
  by (simp_all add: cells_def)

lemma fst_in_levels [simp]: "map fst (in_levels s levels) = map fst levels" "fst ` set (in_levels s levels) = fst ` set levels"
  by (auto simp: in_levels_def image_image case_prod_unfold)

lemma keeps_cells:
  assumes "keeps own s s'" "cells s side levels" "\<And>p. p \<in> fst ` set levels \<Longrightarrow> \<not> own side p"
  shows "cells s' side levels" "in_levels s' levels = in_levels s levels"
proof -
  have k: "cell_ok s' side p l \<and> level_orders s' l = level_orders s l" if m: "(p, l) \<in> set levels" for p l
  proof -
    obtain ns where ns: "cell_rep s side p l ns" using assms(2) m by (auto simp: cells_def cell_ok_def)
    have "\<not> own side p" using assms(3) m by force
    from keeps_cell [OF assms(1) ns this] show ?thesis by (auto simp: cell_ok_def)
  qed
  then show "cells s' side levels" "in_levels s' levels = in_levels s levels" by (auto simp: cells_def in_levels_def)
qed

lemma cell_rep_empty:
  assumes "cell_rep s side p l ns"
  shows "il_size l = length ns" "level_orders s l = [] \<longleftrightarrow> il_size l = 0"
  using assms level_rep_size [of "nheap s" l ns] cell_rep_orders [OF assms] by (auto simp: cell_rep_def)

text \<open>The loop over the levels of a side ends within as many iterations as there are levels.\<close>

lemma match_ordered_levels_stop: "mc_quantity ctx = 0 \<Longrightarrow> match_ordered_levels levels idx ctx = (levels, idx, ctx)"
  by (cases levels) auto

lemma in_match_levels_sim:
  assumes "cells s side levels" "distinct (map fst levels)" "pools_ok s" "mc_quantity ctx = 0 \<or> length levels \<le> k"
    and "in_match_levels k levels s ctx = (levels', s', ctx')"
  shows "cells s' side levels' \<and> distinct (map fst levels') \<and> keeps (on_side side) s s' \<and> pools_ok s' \<and>
    is_bids s' = is_bids s \<and> is_asks s' = is_asks s \<and>
    match_ordered_levels (in_levels s levels) (nx (is_index s)) ctx = (in_levels s' levels', nx (is_index s'), ctx')"
  using assms
proof (induction k levels s ctx rule: in_match_levels.induct)
  case (1 levels s ctx)
  then show ?case by (auto simp: match_ordered_levels_stop)
next
  case (2 k s ctx)
  then show ?case by auto
next
  case (3 k p l others s ctx)
  let ?acc = "can_match_level (mc_taker_is_buy ctx) (mc_is_market ctx) (mc_limit ctx) p"
  show ?case
  proof (cases "mc_quantity ctx > 0 \<and> ?acc")
    case True
    obtain l1 s1 ctx1 where f: "in_fill_level (il_size l) l p s ctx = (l1, s1, ctx1)"
      by (cases "in_fill_level (il_size l) l p s ctx")
    obtain ns where ns: "cell_rep s side p l ns" using 3(2) by (auto simp: cell_ok_def)
    obtain ns1 where a: "cell_rep s1 side p l1 ns1" "keeps (at_cell side p) s s1" "pools_ok s1" "is_bids s1 = is_bids s" "is_asks s1 = is_asks s"
        "fill_level (level_orders s l) p (nx (is_index s)) ctx = (level_orders s1 l1, nx (is_index s1), ctx1)"
      using in_fill_level_sim [OF ns 3(4) _ f] cell_rep_empty(1) [OF ns] cell_rep_orders [OF ns] cell_rep_orders by fastforce
    have others: "cells s1 side others" "in_levels s1 others = in_levels s others"
      using keeps_cells [OF a(2), of side others] 3(2,3) by auto
    let ?ls = "if il_size l1 = 0 then others else (p, l1) # others"
    have ls: "in_levels s1 ?ls = erase_begin_if_empty ((p, level_orders s1 l1) # in_levels s others)"
      using cell_rep_empty(2) [OF a(1)] others(2) by (cases "level_orders s1 l1") (auto simp: erase_begin_if_empty_def)
    have cl: "cells s1 side ?ls" "distinct (map fst ?ls)" using a(1) others(1) 3(3) by (auto simp: cell_ok_def)
    have "level_orders s1 l1 = [] \<or> mc_quantity ctx1 = 0" by (rule fill_level_exit [OF a(6)])
    then have k: "mc_quantity ctx1 = 0 \<or> length ?ls \<le> k" using 3(5) True cell_rep_empty(2) [OF a(1)] by auto
    have rest: "in_match_levels k ?ls s1 ctx1 = (levels', s', ctx')" using 3(6) True f by simp
    have acc: "\<not> \<not> ?acc" using True by simp
    from 3(1) [OF _ acc f [symmetric] refl refl cl a(3) k rest] True
    have b: "cells s' side levels'" "distinct (map fst levels')" "keeps (on_side side) s1 s'" "pools_ok s'"
        "is_bids s' = is_bids s1" "is_asks s' = is_asks s1"
        "match_ordered_levels (in_levels s1 ?ls) (nx (is_index s1)) ctx1 = (in_levels s' levels', nx (is_index s'), ctx')" by simp_all
    have "keeps (on_side side) s s1" by (rule keeps_mono [OF a(2)]) simp
    then have "keeps (on_side side) s s'" using b(3) by (rule keeps_trans)
    moreover have "match_ordered_levels (in_levels s ((p, l) # others)) (nx (is_index s)) ctx = (in_levels s' levels', nx (is_index s'), ctx')"
      using True a(6) b(7) unfolding ls by simp
    ultimately show ?thesis using b a(4,5) by simp
  next
    case False
    then show ?thesis using 3(2-4,6) by (auto split: if_splits)
  qed
qed

end
