(* ===== verification/Intrusive_Refine.thy ===== *)
theory Intrusive_Refine
  imports Intrusive_Cells
begin

text \<open>
  The intrusive storage simulates the baseline storage: matching, resting, cancelling and
  modifying commute with the map to a baseline book, the queries agree, a locator in the index
  leads to a live node, and an order that the capacity query accepts always finds its slots.
\<close>

section \<open>The whole store\<close>

definition in_bl :: "IntrusiveStore \<Rightarrow> BaselineBook" where
  "in_bl s = \<lparr>bids = in_levels s (is_bids s), asks = in_levels s (is_asks s), index = nx (is_index s)\<rparr>"

definition in_sides :: "IntrusiveStore \<Rightarrow> bool" where
  "in_sides s \<longleftrightarrow> cells s Buy (is_bids s) \<and> cells s Sell (is_asks s) \<and> pools_ok s"

definition in_wf :: "IntrusiveStore \<Rightarrow> bool" where
  "in_wf s \<longleftrightarrow> bl_wf (in_bl s) \<and> in_sides s"

definition in_side :: "Side \<Rightarrow> IntrusiveStore \<Rightarrow> NodeLevelMap" where
  "in_side side s = (if side = Buy then is_bids s else is_asks s)"

definition in_set_side :: "Side \<Rightarrow> NodeLevelMap \<Rightarrow> IntrusiveStore \<Rightarrow> IntrusiveStore" where
  "in_set_side side levels s = (if side = Buy then s\<lparr>is_bids := levels\<rparr> else s\<lparr>is_asks := levels\<rparr>)"

lemma in_bl_sel [simp]:
  "bids (in_bl s) = in_levels s (is_bids s)" "asks (in_bl s) = in_levels s (is_asks s)" "index (in_bl s) = nx (is_index s)"
  by (simp_all add: in_bl_def)

lemma in_order_count_bl: "in_order_count s = bl_order_count (in_bl s)"
  by (simp add: in_order_count_def bl_order_count_def)

lemma order_at_sides [simp]:
  "order_at (s\<lparr>is_bids := x\<rparr>) n = order_at s n" "order_at (s\<lparr>is_asks := x\<rparr>) n = order_at s n"
  by (simp_all add: order_at_def node_at_def)

lemma sides_irrelevant [simp]:
  "in_levels (s\<lparr>is_bids := x\<rparr>) levels = in_levels s levels" "in_levels (s\<lparr>is_asks := x\<rparr>) levels = in_levels s levels"
  "cells (s\<lparr>is_bids := x\<rparr>) side levels = cells s side levels" "cells (s\<lparr>is_asks := x\<rparr>) side levels = cells s side levels"
  "pools_ok (s\<lparr>is_bids := x\<rparr>) = pools_ok s" "pools_ok (s\<lparr>is_asks := x\<rparr>) = pools_ok s"
  by (simp_all add: in_levels_def cells_def cell_ok_def cell_rep_def located_def level_orders_def node_at_def pools_ok_def in_order_count_def
      case_prod_unfold)

lemma in_side_cells:
  assumes "in_sides s" "is_valid_side side"
  shows "cells s side (in_side side s)" "bl_side side (in_bl s) = in_levels s (in_side side s)"
  using assms by (auto simp: in_sides_def in_side_def bl_side_def is_valid_side_def)

lemma in_set_side_sim:
  assumes "in_sides s" "is_valid_side side" "keeps own s s1" "\<And>side' p. own side' p \<Longrightarrow> side' = side" "pools_ok s1"
    and "is_bids s1 = is_bids s" "is_asks s1 = is_asks s" "cells s1 side levels"
  shows "in_sides (in_set_side side levels s1)"
    "in_bl (in_set_side side levels s1) = bl_set_side side (in_levels s1 levels) (nx (is_index s1)) (in_bl s)"
proof -
  have o: "cells s1 other (in_side other s)" "in_levels s1 (in_side other s) = in_levels s (in_side other s)"
    if "other \<noteq> side" "is_valid_side other" for other
    using keeps_cells [OF assms(3) in_side_cells(1) [OF assms(1) that(2)]] assms(4) that(1) by blast+
  from o [of Buy] o [of Sell] assms(2,5-8)
  show "in_sides (in_set_side side levels s1)"
    "in_bl (in_set_side side levels s1) = bl_set_side side (in_levels s1 levels) (nx (is_index s1)) (in_bl s)"
    by (auto simp: in_sides_def in_side_def in_set_side_def in_bl_def bl_set_side_def is_valid_side_def)
qed

lemma in_wfD:
  assumes "in_wf s"
  shows "bl_wf (in_bl s)" "in_sides s" "pools_ok s" "distinct (map fst (in_side side s))"
proof -
  show wf: "bl_wf (in_bl s)" "in_sides s" "pools_ok s" using assms by (simp_all add: in_wf_def in_sides_def)
  have "distinct (map fst (in_levels s (is_bids s)))" "distinct (map fst (in_levels s (is_asks s)))"
    using bl_wf_sides(1,2) [OF wf(1)] side_map.sorted_distinct unfolding levels_wf_def in_bl_sel by blast+
  then show "distinct (map fst (in_side side s))" by (simp add: in_side_def)
qed

lemma in_match_opposite_sim:
  assumes "in_wf s" "in_match_opposite side ctx s = (s', ctx')"
  shows "in_sides s'" "match_baseline side ctx (in_bl s) = (in_bl s', ctx')"
proof -
  note wf = in_wfD [OF assms(1)]
  define res where "res = (if side = Buy then Sell else Buy)"
  have res: "is_valid_side res" by (simp add: res_def is_valid_side_def)
  obtain levels s1 c where m: "in_match_levels (length (in_side res s)) (in_side res s) s ctx = (levels, s1, c)"
    by (cases "in_match_levels (length (in_side res s)) (in_side res s) s ctx")
  have sim: "cells s1 res levels" "keeps (on_side res) s s1" "pools_ok s1" "is_bids s1 = is_bids s" "is_asks s1 = is_asks s"
      "match_ordered_levels (in_levels s (in_side res s)) (nx (is_index s)) ctx = (in_levels s1 levels, nx (is_index s1), c)"
    using in_match_levels_sim [OF in_side_cells(1) [OF wf(2) res] wf(4,3) _ m] by simp_all
  have "in_match_opposite side ctx s = (in_set_side res levels s1, c)"
    using m by (simp add: in_match_opposite_def res_def in_side_def in_set_side_def split: if_splits)
  then have out: "s' = in_set_side res levels s1" "ctx' = c" using assms(2) by simp_all
  note st = in_set_side_sim [OF wf(2) res sim(2) _ sim(3-5,1)]
  show "in_sides s'" using st(1) by (simp add: out)
  show "match_baseline side ctx (in_bl s) = (in_bl s', ctx')"
    using st(2) sim(6)
    by (cases "side = Buy") (simp_all add: out match_baseline_def match_against_def bl_set_side_def res_def in_side_def)
qed

subsection \<open>Level maps\<close>

lemma map_of_in_levels: "map_of (in_levels s levels) p = map_option (level_orders s) (map_of levels p)"
  by (induction levels) auto

lemma in_levels_erase [simp]: "in_levels s (std_map_erase p levels) = std_map_erase p (in_levels s levels)"
  by (induction levels) auto

lemma cells_erase [simp]: "cells s side levels \<Longrightarrow> cells s side (std_map_erase p levels)"
  by (auto simp: cells_def std_map_erase_def)

lemma level_orders_empty [simp]: "level_orders s empty_level = []"
  using cell_rep_orders [of s _ _ empty_level "[]"] level_rep_empty by (simp add: cell_rep_def)

lemma in_levels_try_emplace:
  "in_levels s (std_map_try_emplace before p empty_level levels) = std_map_try_emplace before p [] (in_levels s levels)"
  by (induction levels) auto

lemma cells_try_emplace: "cells s side levels \<Longrightarrow> cells s side (std_map_try_emplace before p empty_level levels)"
proof -
  assume c: "cells s side levels"
  have "cell_ok s side p empty_level" using level_rep_empty by (auto simp: cell_ok_def cell_rep_def intro!: exI [of _ "[]"])
  with c show ?thesis using set_std_map_try_emplace [of before p empty_level levels] by (fastforce simp: cells_def)
qed

lemma in_levels_set:
  assumes "keeps (at_cell side p) s s'" "cells s side levels"
  shows "in_levels s' (std_map_set p l levels) = std_map_set p (level_orders s' l) (in_levels s levels)"
    "cell_ok s' side p l \<Longrightarrow> cells s' side (std_map_set p l levels)"
proof -
  have k: "cell_ok s' side p' l' \<and> level_orders s' l' = level_orders s l'" if "cell_ok s side p' l'" "p' \<noteq> p" for p' l'
    using that keeps_cell [OF assms(1)] by (fastforce simp: cell_ok_def)
  show "in_levels s' (std_map_set p l levels) = std_map_set p (level_orders s' l) (in_levels s levels)"
    using assms(2) by (induction levels) (auto simp: k)
  show "cell_ok s' side p l \<Longrightarrow> cells s' side (std_map_set p l levels)"
    using assms(2) by (induction levels) (auto simp: k)
qed

subsection \<open>Resting\<close>

lemma in_rest_sim:
  assumes "in_wf s" "is_valid_side side" "is_index s i = None" "in_order_count s < kIntrusivePoolCapacity"
  shows "in_sides (fst (in_rest i side p q s))" "in_bl (fst (in_rest i side p q s)) = bl_rest i side p q (in_bl s)"
    "snd (in_rest i side p q s)"
proof -
  note wf = in_wfD [OF assms(1)]
  let ?ord = "\<lparr>o_id = i, o_side = side, o_price = p, o_quantity = q\<rparr>"
  have free: "pl_free_count (is_orders s) \<noteq> 0" "pl_free_count (is_nodes s) \<noteq> 0"
      and ok: "pool_ok kIntrusivePoolCapacity (is_orders s)" "pool_ok kIntrusivePoolCapacity (is_nodes s)"
    using wf(3) assms(4) by (auto simp: pools_ok_def)
  obtain po k where ao: "try_acquire ?ord (is_orders s) = (po, Some k)"
    using try_acquire_ok(2) [OF ok(1)] free(1) by (metis option.exhaust surj_pair)
  obtain pn n where an: "try_acquire \<lparr>nd_order = k, nd_prev = None, nd_next = None\<rparr> (is_nodes s) = (pn, Some n)"
    using try_acquire_ok(2) [OF ok(2)] free(2) by (metis option.exhaust surj_pair)
  define levels where "levels = std_map_try_emplace (price_before (side = Buy)) p empty_level (in_side side s)"
  define l where "l = the (map_of levels p)"
  note cs = in_side_cells [OF wf(2) assms(2)]
  have cl: "cells s side levels" unfolding levels_def by (rule cells_try_emplace [OF cs(1)])
  have lv: "in_levels s levels = std_map_try_emplace (price_before (side = Buy)) p [] (in_levels s (in_side side s))"
    by (simp add: levels_def in_levels_try_emplace)
  have "p \<in> fst ` set levels" unfolding levels_def side_map.set_try_emplace by simp
  then have ml: "map_of levels p = Some l" unfolding l_def using weak_map_of_SomeI by fastforce
  then obtain ns where ns: "cell_rep s side p l ns" using cl by (auto simp: cells_def cell_ok_def dest!: map_of_SomeD)
  obtain l' s2 where app: "in_append_node l n (s\<lparr>is_orders := po, is_nodes := pn\<rparr>) = (l', s2)"
    by (cases "in_append_node l n (s\<lparr>is_orders := po, is_nodes := pn\<rparr>)")
  define s' where "s' = s2\<lparr>is_index := (is_index s)(o_id ?ord \<mapsto> \<lparr>nl_side = side, nl_price = p, nl_node = n\<rparr>)\<rparr>"
  have "is_index s (o_id ?ord) = None" using assms(3) by simp
  note st = append_node_step [OF ns wf(3) this ao an app s'_def]
  let ?levels = "std_map_set p l' levels"
  have "append_resting (side = Buy) (in_side side s) \<lparr>rn_id = i, rn_side = side, rn_price = p, rn_node = n\<rparr> (s\<lparr>is_orders := po, is_nodes := pn\<rparr>) =
      (?levels, s', True)"
    using app assms(3) st(7)
    by (simp add: append_resting_def levels_def [symmetric] l_def [symmetric] s'_def)
  then have out: "in_rest i side p q s = (in_set_side side ?levels s', True)"
    using ao by (cases "side = Buy") (simp_all add: in_rest_def order_try_acquire_def an in_side_def in_set_side_def)
  have cok: "cell_ok s' side p l'" using st(1) by (auto simp: cell_ok_def)
  note sets = in_levels_set [OF st(2) cl, of l']
  note res = in_set_side_sim [OF wf(2) assms(2) st(2) _ st(4-6) sets(2) [OF cok]]
  show "snd (in_rest i side p q s)" by (simp add: out)
  show "in_sides (fst (in_rest i side p q s))" using res(1) by (simp add: out)
  have "level_orders s' l' = level_orders s l @ [?ord]" using cell_rep_orders [OF st(1)] cell_rep_orders [OF ns] st(3) by simp
  then have "in_levels s' ?levels = rest_levels (side = Buy) ?ord (in_levels s (in_side side s))"
    using ml map_of_in_levels [of s levels p] by (simp add: sets(1) rest_levels_def push_back_def lv [symmetric])
  then show "in_bl (fst (in_rest i side p q s)) = bl_rest i side p q (in_bl s)"
    using res(2) by (simp add: out bl_rest_set_side [OF assms(2) refl] cs(2) locate_def s'_def)
qed

subsection \<open>Locating, cancelling and reducing\<close>

text \<open>A locator found in the index leads to a live node whose order has that id.\<close>

lemma cells_mem:
  assumes "cells s side levels" "map_of levels p = Some l" "ord \<in> set (level_orders s l)"
  obtains a n b where "cell_rep s side p l (a @ n # b)" "ord = order_at s n"
    "is_index s (o_id ord) = Some \<lparr>nl_side = side, nl_price = p, nl_node = n\<rparr>"
proof -
  obtain ns where ns: "cell_rep s side p l ns" using assms(1,2) by (auto simp: cells_def cell_ok_def dest!: map_of_SomeD)
  obtain n where n: "n \<in> set ns" "ord = order_at s n" using assms(3) cell_rep_orders [OF ns] by auto
  then obtain a b where "ns = a @ n # b" by (meson split_list)
  then show thesis using that ns n cell_rep_located [OF ns n(1)] by (auto simp: located_def)
qed

lemma in_locate:
  assumes "in_wf s" "is_index s i = Some loc"
  obtains l a b where "is_valid_side (nl_side loc)" "map_of (in_side (nl_side loc) s) (nl_price loc) = Some l"
    "cell_rep s (nl_side loc) (nl_price loc) l (a @ nl_node loc # b)" "o_id (order_at s (nl_node loc)) = i"
    "loc_order \<lparr>loc_side = nl_side loc, loc_price = nl_price loc, loc_it = i\<rparr> (in_bl s) = Some (order_at s (nl_node loc))"
proof -
  note wf = in_wfD [OF assms(1)]
  let ?loc = "\<lparr>loc_side = nl_side loc, loc_price = nl_price loc, loc_it = i\<rparr>"
  have "index (in_bl s) i = Some ?loc" using assms(2) by (simp add: nx_def)
  then obtain ord where o: "loc_order ?loc (in_bl s) = Some ord" "o_id ord = i"
    by (rule bl_locate [OF wf(1)])
  define res where "res = (if nl_side loc = Buy then Buy else Sell)"
  have res: "is_valid_side res" "in_side (nl_side loc) s = in_side res s" by (simp_all add: res_def is_valid_side_def in_side_def)
  have "find_level (nl_side loc) (nl_price loc) (in_bl s) = map_option (level_orders s) (map_of (in_side (nl_side loc) s) (nl_price loc))"
    by (simp add: find_level_def in_side_def map_of_in_levels)
  then obtain l where l: "map_of (in_side (nl_side loc) s) (nl_price loc) = Some l" "ord \<in> set (level_orders s l)"
    using o(1) by (auto simp: loc_order_def dest!: find_SomeD split: option.splits)
  obtain a n b where n: "cell_rep s res (nl_price loc) l (a @ n # b)" "ord = order_at s n"
      "is_index s (o_id ord) = Some \<lparr>nl_side = res, nl_price = nl_price loc, nl_node = n\<rparr>"
    by (rule cells_mem [OF in_side_cells(1) [OF wf(2) res(1)] l(1) [unfolded res(2)] l(2)])
  have "nl_side loc = res" "nl_node loc = n" using n(3) assms(2) o(2) by (metis IntrusiveLocator.select_convs option.sel)+
  then show thesis using that [of l a b] n o l res(1) by simp
qed

lemma cell_remove_orders:
  assumes "cell_rep s side p l (a @ n # b)"
  shows "map (order_at s) (a @ b) = filter (\<lambda>ord. o_id ord \<noteq> o_id (order_at s n)) (level_orders s l)"
proof -
  have "n \<notin> set (a @ b)" using assms by (auto simp: cell_rep_def level_rep_def)
  then have "o_id (order_at s x) \<noteq> o_id (order_at s n)" if "x \<in> set (a @ b)" for x
    using that located_id_inj [of s side p x side p n] cell_rep_located [OF assms] by auto
  then have "filter (\<lambda>ord. o_id ord \<noteq> o_id (order_at s n)) (map (order_at s) (a @ b)) = map (order_at s) (a @ b)"
    by (intro filter_True) auto
  then show ?thesis using cell_rep_orders [OF assms] by simp
qed

lemma in_erase_level_if_empty_sim:
  assumes "cells s side levels"
  shows "in_levels s (in_erase_level_if_empty p levels) = erase_level_if_empty p (in_levels s levels)"
    "cells s side (in_erase_level_if_empty p levels)"
proof -
  have "level_orders s l = [] \<longleftrightarrow> il_size l = 0" if "map_of levels p = Some l" for l
    using assms that cell_rep_empty(2) by (auto simp: cells_def cell_ok_def dest!: map_of_SomeD)
  then show "in_levels s (in_erase_level_if_empty p levels) = erase_level_if_empty p (in_levels s levels)"
    by (auto simp: in_erase_level_if_empty_def erase_level_if_empty_def map_of_in_levels split: option.splits)
  show "cells s side (in_erase_level_if_empty p levels)" using assms by (simp add: in_erase_level_if_empty_def split: option.splits)
qed

lemma erase_indexed_order_sim:
  assumes "in_wf s" "is_index s i = Some loc" "s' = erase_indexed_order i loc s"
  shows "in_wf s'" "in_bl s' = fst (bl_cancel i (in_bl s))" "in_order_count s = Suc (in_order_count s')"
proof -
  note wf = in_wfD [OF assms(1)]
  let ?side = "nl_side loc" and ?p = "nl_price loc" and ?n = "nl_node loc"
  obtain l a b where l: "is_valid_side ?side" "map_of (in_side ?side s) ?p = Some l" "cell_rep s ?side ?p l (a @ ?n # b)" "o_id (order_at s ?n) = i"
    by (rule in_locate [OF assms(1,2)])
  let ?s0 = "s\<lparr>is_index := (is_index s)(i := None)\<rparr>"
  obtain l' s2 where u: "in_unlink_node l ?n ?s0 = (l', s2)" by (cases "in_unlink_node l ?n ?s0")
  define s3 where "s3 = destroy_node ?n s2"
  note r = remove_node_step [OF l(3) wf(3) u [folded l(4)] s3_def]
  note cs = in_side_cells [OF wf(2) l(1)]
  let ?levels = "in_erase_level_if_empty ?p (std_map_set ?p l' (in_side ?side s))"
  have out: "s' = in_set_side ?side ?levels s3"
    using u l(2) by (simp add: assms(3) erase_indexed_order_def in_erase_resting_order_def erase_from_def in_side_def in_set_side_def
        s3_def split: if_splits)
  have cok: "cell_ok s3 ?side ?p l'" using r(1) by (auto simp: cell_ok_def)
  note sets = in_levels_set [OF r(2) cs(1), of l']
  note er = in_erase_level_if_empty_sim [OF sets(2) [OF cok], of ?p]
  note res = in_set_side_sim [OF wf(2) l(1) r(2) _ r(4,6,7) er(2)]
  have lo: "level_orders s3 l' = filter (\<lambda>ord. o_id ord \<noteq> i) (level_orders s l)"
    using cell_remove_orders [OF l(3)] r(3) cell_rep_orders [OF r(1)] l(4) by simp
  have idx: "index (in_bl s) i = Some \<lparr>loc_side = ?side, loc_price = ?p, loc_it = i\<rparr>" using assms(2) by (simp add: nx_def)
  have "in_levels s3 ?levels = erase_from_side \<lparr>loc_side = ?side, loc_price = ?p, loc_it = i\<rparr> (in_levels s (in_side ?side s))"
    by (simp add: er(1) sets(1) lo erase_from_side_def map_of_in_levels l(2))
  then show bl: "in_bl s' = fst (bl_cancel i (in_bl s))"
    using res(2) r(5) by (simp add: out bl_cancel_set_side [OF idx] cs(2) l(4))
  show "in_wf s'" unfolding in_wf_def bl using bl_cancel_spec [OF wf(1), of i] res(1) by (simp add: out)
  show "in_order_count s = Suc (in_order_count s')"
    using r(8) by (simp add: out in_set_side_def in_order_count_def)
qed

lemma in_cancel_sim:
  assumes "in_wf s"
  shows "in_wf (fst (in_cancel i s)) \<and> (in_bl (fst (in_cancel i s)), snd (in_cancel i s)) = bl_cancel i (in_bl s)"
proof (cases "is_index s i")
  case None
  then show ?thesis using assms by (simp add: in_cancel_def bl_cancel_def nx_def)
next
  case (Some loc)
  have "snd (bl_cancel i (in_bl s))" using Some by (simp add: bl_cancel_def nx_def)
  then show ?thesis
    using erase_indexed_order_sim(1,2) [OF assms Some refl] Some by (cases "bl_cancel i (in_bl s)") (simp add: in_cancel_def)
qed

lemma in_reduce_sim:
  assumes "in_wf s" "is_index s i = Some loc" "q \<noteq> 0" "s' = set_order_quantity (nl_node loc) q s"
  shows "in_wf s' \<and> in_bl s' = set_loc_quantity \<lparr>loc_side = nl_side loc, loc_price = nl_price loc, loc_it = i\<rparr> q (in_bl s)"
proof -
  note wf = in_wfD [OF assms(1)]
  let ?side = "nl_side loc" and ?p = "nl_price loc" and ?n = "nl_node loc"
  let ?loc = "\<lparr>loc_side = ?side, loc_price = ?p, loc_it = i\<rparr>"
  obtain l a b where l: "is_valid_side ?side" "map_of (in_side ?side s) ?p = Some l" "cell_rep s ?side ?p l (a @ ?n # b)" "o_id (order_at s ?n) = i"
    by (rule in_locate [OF assms(1,2)])
  note q = set_quantity_step [OF l(3) _ assms(4)]
  note cs = in_side_cells [OF wf(2) l(1)]
  have pools: "pools_ok s'" unfolding assms(4) by (rule set_quantity_pools [OF wf(3) cell_rep_located [OF l(3)]]) simp
  have sel: "is_bids s' = is_bids s" "is_asks s' = is_asks s" "is_index s' = is_index s" by (simp_all add: assms(4))
  have same: "std_map_set ?p l (in_side ?side s) = in_side ?side s"
    using map_of_is_SomeI [OF wf(4), of ?p _ ?side] l(2) by (fastforce simp: std_map_set_def intro!: map_idI)
  have keep: "keeps (at_cell ?side ?p) s s'" and rep: "cell_rep s' ?side ?p l (a @ ?n # b)" using q(1,2) by simp_all
  then have cok: "cell_ok s' ?side ?p l" by (auto simp: cell_ok_def)
  note sets = in_levels_set [OF keep cs(1), of l, unfolded same]
  note res = in_set_side_sim [OF wf(2) l(1) keep _ pools sel(1,2) sets(2) [OF cok]]
  have out: "s' = in_set_side ?side (in_side ?side s) s'" using sel by (simp add: in_set_side_def in_side_def)
  have eq: "o_id (order_at s k) = i \<longleftrightarrow> k = ?n" if "k \<in> set (a @ ?n # b)" for k
    using located_id_inj [OF cell_rep_located [OF l(3) that] cell_rep_located [OF l(3), of ?n]] l(4) by auto
  have "level_orders s' l = set_qty i q (level_orders s l)"
    unfolding cell_rep_orders [OF rep] cell_rep_orders [OF l(3)] set_qty_def map_map
    by (subst q(3)) (use eq in \<open>auto simp del: map_append intro!: map_cong\<close>)
  then have bl: "in_bl s' = set_loc_quantity ?loc q (in_bl s)"
    unfolding set_loc_quantity_set_side using res(2) sets(1) l(2)
    by (subst out) (simp add: bl_reduce_def cs(2) map_of_in_levels sel)
  obtain ord where o: "?loc = locate ord" "ord \<in> set (spec_orders (bl_abs (in_bl s)))"
    by (rule bl_locate [OF wf(1), of i ?loc]) (use assms(2) in \<open>auto simp: nx_def\<close>)
  have "bl_wf (in_bl s')" unfolding bl o(1) using set_loc_quantity_spec [OF wf(1) o(2) assms(3)] by blast
  moreover have "in_sides s'" by (subst out) (use res(1) in blast)
  ultimately show ?thesis using bl by (simp add: in_wf_def)
qed

subsection \<open>Queries\<close>

lemma in_count_orders_eq: "in_count_orders os n q = (let (k, r) = count_level_matches os q in (n + k, r))"
  by (induction os arbitrary: n q) (auto simp: Let_def split: prod.splits)

lemma in_count_levels_eq:
  "in_count_levels levels buy limit mkt s n q =
     n + count_matches (in_levels s levels) \<lparr>mq_taker_is_buy = buy, mq_limit = limit, mq_is_market = mkt, mq_quantity = q\<rparr>"
proof (induction levels arbitrary: n q)
  case (Cons x levels)
  then show ?case by (cases x) (simp add: in_count_orders_eq case_prod_unfold Let_def)
qed simp

lemma in_queries_sim:
  "in_contains i s = bl_contains i (in_bl s)"
  "in_fill_count side p mkt q s = bl_fill_count side p mkt q (in_bl s)"
  "in_best_bid s = bl_best_bid (in_bl s)" "in_best_ask s = bl_best_ask (in_bl s)"
  "in_quantity_at side p s = bl_quantity_at side p (in_bl s)"
  "in_bid_levels s = bl_bid_levels (in_bl s)" "in_ask_levels s = bl_ask_levels (in_bl s)"
  "in_resting_orders s = bl_resting_orders (in_bl s)"
proof -
  have best: "best_price (in_levels s levels) = (case levels of [] \<Rightarrow> None | (p, _) # _ \<Rightarrow> Some p)" for levels
    by (cases levels) (auto simp: best_price_def in_levels_def)
  show "in_contains i s = bl_contains i (in_bl s)" by (simp add: in_contains_def bl_contains_def)
  show "in_fill_count side p mkt q s = bl_fill_count side p mkt q (in_bl s)"
    by (simp add: in_fill_count_def bl_fill_count_def in_count_levels_eq)
  show "in_best_bid s = bl_best_bid (in_bl s)" "in_best_ask s = bl_best_ask (in_bl s)"
    by (simp_all add: in_best_bid_def in_best_ask_def bl_best_bid_def bl_best_ask_def best)
  show "in_quantity_at side p s = bl_quantity_at side p (in_bl s)"
    by (auto simp: in_quantity_at_def bl_quantity_at_def find_level_def in_find_level_def map_of_in_levels in_level_quantity_def level_quantity_def
        split: option.splits)
  show "in_bid_levels s = bl_bid_levels (in_bl s)" "in_ask_levels s = bl_ask_levels (in_bl s)" "in_resting_orders s = bl_resting_orders (in_bl s)"
    by (simp_all add: in_bid_levels_def in_ask_levels_def bl_bid_levels_def bl_ask_levels_def in_collect_levels_def collect_levels_def
        in_resting_orders_def bl_resting_orders_def in_append_orders_def append_orders_def in_levels_def in_level_quantity_def level_quantity_def
        case_prod_unfold comp_def)
qed

subsection \<open>Capacity\<close>

text \<open>The dry run predicts the remainder and how many resting orders the match takes out.\<close>

lemma simulate_level_match_spec:
  "spec_match (\<lambda>_. True) t q os = (ts, r, os') \<Longrightarrow> length os' \<le> length os \<and>
     simulate_level_match os \<lparr>mo_remainder = q, mo_makers_freed = f\<rparr> =
       \<lparr>mo_remainder = r, mo_makers_freed = f + (length os - length os')\<rparr>"
proof (induction arbitrary: f rule: spec_match_induct)
  case (stop q os)
  then show ?case by (cases os) auto
next
  case (fill q m os ts r os')
  then show ?case
    using word_neq_0_conv [of q] by (simp add: simulate_node_match_def min_def Let_def Suc_diff_le le_SucI)
next
  case (part q m os)
  have "simulate_level_match os \<lparr>mo_remainder = 0, mo_makers_freed = f\<rparr> = \<lparr>mo_remainder = 0, mo_makers_freed = f\<rparr>"
    by (cases os) simp_all
  then show ?case using part word_neq_0_conv [of q] by (auto simp: simulate_node_match_def min_def Let_def)
qed

lemma simulate_match_levels_stop:
  "mo_remainder outcome = 0 \<Longrightarrow> simulate_match_levels levels buy limit mkt s outcome = outcome"
  by (cases levels) auto

lemma simulate_match_levels_spec:
  assumes "levels_wf is_bid (in_levels s levels)"
    and "spec_match (can_match_level buy mkt limit) t q (flatten (in_levels s levels)) = (ts, r, os')"
  shows "simulate_match_levels levels buy limit mkt s \<lparr>mo_remainder = q, mo_makers_freed = f\<rparr> =
    \<lparr>mo_remainder = r, mo_makers_freed = f + (length (flatten (in_levels s levels)) - length os')\<rparr>"
  using assms
proof (induction levels arbitrary: q f ts r os')
  case (Cons x levels)
  obtain p l where x: "x = (p, l)" by (cases x)
  let ?acc = "can_match_level buy mkt limit" and ?os = "level_orders s l"
  have ne: "?os \<noteq> []" and price: "\<forall>ord\<in>set ?os. o_price ord = p" and wf: "levels_wf is_bid (in_levels s levels)"
    using Cons.prems(1) by (auto simp: x level_ok_def)
  consider "q = 0" | "q \<noteq> 0" "\<not> ?acc p" | "q \<noteq> 0" "?acc p" by blast
  then show ?case
  proof cases
    case 1
    then show ?thesis using Cons.prems(2) by (auto simp: simulate_match_levels_stop)
  next
    case 2
    then show ?thesis using Cons.prems(2) ne price word_neq_0_conv [of q] by (cases ?os) (auto simp: x)
  next
    case 3
    obtain us u xs where m: "spec_match (\<lambda>_. True) t q ?os = (us, u, xs)" by (cases "spec_match (\<lambda>_. True) t q ?os")
    have acc: "spec_match ?acc t q ?os = (us, u, xs)" using spec_match_level [of ?os ?acc t q] price 3 m by simp
    note lv = simulate_level_match_spec [OF m, of f, THEN conjunct2] and len = spec_match_length [OF m]
    have step: "simulate_match_levels (x # levels) buy limit mkt s \<lparr>mo_remainder = q, mo_makers_freed = f\<rparr> =
        simulate_match_levels levels buy limit mkt s \<lparr>mo_remainder = u, mo_makers_freed = f + (length ?os - length xs)\<rparr>"
      using 3 word_neq_0_conv [of q] by (simp add: x lv)
    show ?thesis
    proof (cases "xs = []")
      case True
      obtain vs v ys where m2: "spec_match ?acc t u (flatten (in_levels s levels)) = (vs, v, ys)"
        by (cases "spec_match ?acc t u (flatten (in_levels s levels))")
      have "r = v" "os' = ys" using Cons.prems(2) acc m2 True by (simp_all add: x spec_match_append)
      then show ?thesis unfolding step using Cons.IH [OF wf m2] spec_match_length [OF m2] True by (simp add: x)
    next
      case False
      then have "u = 0" using spec_match_stops [OF m] by auto
      moreover have "r = u" "os' = xs @ flatten (in_levels s levels)" using Cons.prems(2) acc False by (simp_all add: x spec_match_append)
      ultimately show ?thesis unfolding step by (simp add: simulate_match_levels_stop x)
    qed
  qed
qed simp

lemma simulate_match_take:
  assumes "in_wf s" "spec_take i side p False q (bl_abs (in_bl s)) = (ts, r, b)"
  shows "mo_remainder (simulate_match side p False q s) = r"
    "length (spec_orders b) + mo_makers_freed (simulate_match side p False q s) = length (spec_orders (bl_abs (in_bl s)))"
proof -
  note wf = bl_wf_sides [OF in_wfD(1) [OF assms(1)]]
  define opp where "opp = (if side = Buy then is_asks s else is_bids s)"
  have opp: "spec_opposite side (bl_abs (in_bl s)) = flatten (in_levels s opp)" "levels_wf (side \<noteq> Buy) (in_levels s opp)"
    using wf by (simp_all add: opp_def spec_opposite_def bl_abs_def)
  obtain os' where m: "spec_match (can_match_level (side = Buy) False p) i q (flatten (in_levels s opp)) = (ts, r, os')"
      and b: "b = spec_set_opposite side os' (bl_abs (in_bl s))"
    using assms(2) by (auto simp: spec_take_def opp split: prod.splits)
  have sim: "simulate_match side p False q s = \<lparr>mo_remainder = r, mo_makers_freed = length (flatten (in_levels s opp)) - length os'\<rparr>"
    using simulate_match_levels_spec [OF opp(2) m, of 0] by (cases "side = Buy") (simp_all add: simulate_match_def opp_def)
  show "mo_remainder (simulate_match side p False q s) = r" by (simp add: sim)
  show "length (spec_orders b) + mo_makers_freed (simulate_match side p False q s) = length (spec_orders (bl_abs (in_bl s)))"
    using spec_match_length [OF m] by (simp add: sim b spec_orders_def spec_set_opposite_def bl_abs_def opp_def split: if_splits)
qed

subsection \<open>Adding\<close>

lemma in_cross:
  assumes "in_wf s" "\<not> in_contains i s" "spec_take i side p mkt q (bl_abs (in_bl s)) = (ts, r, b)"
    and "ctx = \<lparr>mc_taker_id = i, mc_taker_is_buy = (side = Buy), mc_limit = p, mc_is_market = mkt, mc_quantity = q, mc_trades = []\<rparr>"
  obtains s' where "in_match_opposite side ctx s = (s', mc_after ctx ts r)"
    "match_baseline side ctx (in_bl s) = (in_bl s', mc_after ctx ts r)"
    "in_wf s'" "bl_abs (in_bl s') = b" "is_index s' i = None"
proof -
  note wf = in_wfD [OF assms(1)]
  obtain b1 where b1: "match_baseline side ctx (in_bl s) = (b1, mc_after ctx ts r)" "bl_wf b1" "bl_abs b1 = b"
    using match_baseline_spec [OF wf(1), of ctx side] assms(3) by (auto simp: assms(4))
  obtain s' c where m: "in_match_opposite side ctx s = (s', c)" by (cases "in_match_opposite side ctx s")
  note sim = in_match_opposite_sim [OF assms(1) m]
  have eq: "in_bl s' = b1" "c = mc_after ctx ts r" using sim(2) b1(1) by simp_all
  have "i \<notin> o_id ` set (spec_orders b)"
    using assms(2) bl_contains_spec [OF wf(1), of i] spec_take_ids [OF assms(3)]
    by (auto simp: in_queries_sim(1) spec_contains_def)
  then have "\<not> bl_contains i b1" using bl_contains_spec [OF b1(2), of i] b1(3) by (simp add: spec_contains_def)
  then have "is_index s' i = None" using in_queries_sim(1) [of i s'] by (simp add: eq in_contains_def)
  moreover have "in_wf s'" using sim(1) b1(2) by (simp add: in_wf_def eq)
  ultimately show thesis using that m b1 eq by simp
qed

lemma in_add_market_sim:
  assumes "in_wf s"
  shows "in_wf (fst (in_add_market i side q s)) \<and>
    (in_bl (fst (in_add_market i side q s)), snd (in_add_market i side q s)) = bl_add_market i side q (in_bl s)"
proof (cases "in_contains i s")
  case True
  then show ?thesis using assms by (simp add: in_add_market_def bl_add_market_def match_incoming_def in_queries_sim(1))
next
  case False
  obtain ts r b where t: "spec_take i side (Ticks 0) True q (bl_abs (in_bl s)) = (ts, r, b)"
    by (cases "spec_take i side (Ticks 0) True q (bl_abs (in_bl s))")
  show ?thesis
    by (rule in_cross [OF assms False t refl])
      (use False in \<open>simp add: in_add_market_def bl_add_market_def match_incoming_def in_queries_sim(1)\<close>)
qed

text \<open>A remainder that passed \<^verbatim>\<open>can_store_limit\<close> finds a free slot in both pools.\<close>

lemma in_add_limit_sim:
  assumes "in_wf s" "is_valid_side side" "in_can_store_limit side p q tif s"
    and "inp = \<lparr>li_id = i, li_side = side, li_price = p, li_quantity = q, li_tif = tif\<rparr>"
  shows "in_wf (fst (in_add_limit inp s)) \<and>
    (in_bl (fst (in_add_limit inp s)), snd (in_add_limit inp s)) = bl_add_limit i side p q tif (in_bl s)"
proof (cases "in_contains i s")
  case True
  then show ?thesis
    using assms by (simp add: in_add_limit_def bl_add_limit_def match_incoming_def in_queries_sim(1) should_rest_limit_def)
next
  case False
  note wf = in_wfD [OF assms(1)]
  let ?ctx = "\<lparr>mc_taker_id = i, mc_taker_is_buy = (side = Buy), mc_limit = p, mc_is_market = False, mc_quantity = q, mc_trades = []\<rparr>"
  obtain ts r b where t: "spec_take i side p False q (bl_abs (in_bl s)) = (ts, r, b)"
    by (cases "spec_take i side p False q (bl_abs (in_bl s))")
  obtain s' where x: "in_match_opposite side ?ctx s = (s', mc_after ?ctx ts r)"
      "match_baseline side ?ctx (in_bl s) = (in_bl s', mc_after ?ctx ts r)"
      "in_wf s'" "bl_abs (in_bl s') = b" "is_index s' i = None"
    by (rule in_cross [OF assms(1) False t refl])
  have add: "in_add_limit inp s = (if r \<noteq> 0 \<and> tif = GTC then fst (in_rest i side p r s') else s', ts)"
    using x(1) False assms(3,4) by (simp add: in_add_limit_def match_incoming_def should_rest_limit_def)
  have base: "bl_add_limit i side p q tif (in_bl s) = (if r \<noteq> 0 \<and> tif = GTC then bl_rest i side p r (in_bl s') else in_bl s', ts)"
    using x(2) False by (simp add: bl_add_limit_def match_incoming_def should_rest_limit_def in_queries_sim(1))
  show ?thesis
  proof (cases "r \<noteq> 0 \<and> tif = GTC")
    case True
    note sm = simulate_match_take [OF assms(1) t]
    have cnt: "in_order_count s' + mo_makers_freed (simulate_match side p False q s) = in_order_count s"
      using sm(2) bl.order_count_spec [OF wf(1)] bl.order_count_spec [OF in_wfD(1) [OF x(3)]] x(4) by (simp add: in_order_count_bl)
    have room: "in_order_count s' < kIntrusivePoolCapacity"
    proof (cases "has_capacity s")
      case True
      then show ?thesis using wf(3) cnt by (simp add: has_capacity_def pool_available_def pools_ok_def)
    next
      case False
      then have "mo_makers_freed (simulate_match side p False q s) > 0"
        using assms(3) True sm(1) by (auto simp: in_can_store_limit_def Let_def)
      then show ?thesis using wf(3) cnt by (simp add: pools_ok_def)
    qed
    note rest = in_rest_sim [OF x(3) assms(2) x(5) room, of p r]
    have "bl_wf (in_bl (fst (in_rest i side p r s')))"
      using bl_add_limit_spec [OF wf(1), of i side p q tif] base True rest(2) by simp
    then show ?thesis unfolding add base using rest True by (simp add: in_wf_def)
  next
    case False
    then show ?thesis using x(3) by (auto simp: add base)
  qed
qed

subsection \<open>Modifying\<close>

text \<open>Replacing an order frees the two slots the replacement may need.\<close>

lemma in_modify_sim:
  assumes "in_wf s"
  shows "in_wf (fst (in_modify i p q s)) \<and>
    (in_bl (fst (in_modify i p q s)), snd (in_modify i p q s)) = bl_modify i p q (in_bl s)"
proof (cases "is_index s i")
  case None
  then show ?thesis using assms by (simp add: in_modify_def bl_modify_def nx_def)
next
  case (Some loc)
  let ?loc = "\<lparr>loc_side = nl_side loc, loc_price = nl_price loc, loc_it = i\<rparr>" and ?ord = "order_at s (nl_node loc)"
  have loc: "is_valid_side (nl_side loc)" "loc_order ?loc (in_bl s) = Some ?ord" by (rule in_locate [OF assms Some], assumption)+
  have idx: "index (in_bl s) i = Some ?loc" using Some by (simp add: nx_def)
  note e = erase_indexed_order_sim [OF assms Some refl]
  consider "q = 0" | (reduce) "q \<noteq> 0" "p = nl_price loc \<and> q \<le> o_quantity ?ord" | (replace) "q \<noteq> 0" "\<not> (p = nl_price loc \<and> q \<le> o_quantity ?ord)"
    by blast
  then show ?thesis
  proof cases
    case 1
    then show ?thesis using e(1,2) Some idx by (simp add: in_modify_def bl_modify_def)
  next
    case reduce
    then show ?thesis
      using in_reduce_sim [OF assms Some reduce(1) refl] Some idx loc(2) by (simp add: in_modify_def bl_modify_def)
  next
    case replace
    let ?s = "erase_indexed_order i loc s"
    have "has_capacity ?s"
      using in_wfD(3) [OF e(1)] in_wfD(3) [OF assms] e(3) by (simp add: has_capacity_def pool_available_def pools_ok_def)
    then have "in_can_store_limit (nl_side loc) p q GTC ?s" by (simp add: in_can_store_limit_def)
    note a = in_add_limit_sim [OF e(1) loc(1) this refl, of i]
    have "bl_modify i p q (in_bl s) = bl_add_limit i (nl_side loc) p q GTC (in_bl ?s)"
      using replace idx loc(2) by (auto simp: bl_modify_def e(2))
    then show ?thesis using a replace Some by (auto simp: in_modify_def)
  qed
qed

lemma in_wf_empty [simp]: "in_wf in_empty" "in_bl in_empty = bl_empty"
proof -
  show bl: "in_bl in_empty = bl_empty" by (simp add: in_bl_def in_empty_def bl_empty_def nx_def)
  have "pools_ok in_empty" by (simp add: pools_ok_def in_empty_def in_order_count_def) (simp add: pool_new_def reset_free_list_def)
  then show "in_wf in_empty" unfolding in_wf_def bl by (simp add: in_sides_def in_empty_def)
qed

section \<open>The contract\<close>

definition in_limit :: "OrderId \<Rightarrow> Side \<Rightarrow> Price \<Rightarrow> Quantity \<Rightarrow> TimeInForce \<Rightarrow> IntrusiveStore \<Rightarrow> IntrusiveStore \<times> Trade list" where
  "in_limit i side price quantity tif =
     in_add_limit \<lparr>li_id = i, li_side = side, li_price = price, li_quantity = quantity, li_tif = tif\<rparr>"

interpretation pooled: storage_simulation in_bl in_wf "\<lambda>_. True" in_contains in_can_store_limit in_can_apply_modify
    in_limit in_add_market in_cancel in_modify in_fill_count in_resting_orders in_best_bid in_best_ask
    in_quantity_at in_order_count in_bid_levels in_ask_levels
proof unfold_locales
  show "in_can_store_limit side p q IOC s" for side p q s by (simp add: in_can_store_limit_def)
  show "in_can_apply_modify i p 0 s" for i p s by (simp add: in_can_apply_modify_def)
qed (simp_all only: in_limit_def in_wfD in_queries_sim in_order_count_bl in_add_limit_sim [OF _ _ _ refl] in_add_market_sim in_cancel_sim in_modify_sim)

end
