(* ===== verification/Order_Book.thy ===== *)
theory Order_Book
  imports Contiguous_Refine Intrusive_Refine
begin

text \<open>
  \<^verbatim>\<open>OrderBook\<close> itself: the storage chosen at construction and \<^verbatim>\<open>dispatch_storage\<close>, which sends every
  public operation to it. The class keeps all three representations as members, of which the
  constructor fills one; the model is the one that is filled. It satisfies the contract of
  \<^verbatim>\<open>Book_Store\<close>, which is all the engine uses, whichever storage was chosen.
\<close>

datatype OrderBook = BaselineStorage BaselineBook | IntrusiveStorage IntrusiveStore | ContiguousStorage ContiguousStore

fun ob_new :: "Storage \<Rightarrow> OrderBook" where
  "ob_new IntrusivePooled = IntrusiveStorage in_empty"
| "ob_new Contiguous = ContiguousStorage ct_empty"
| "ob_new Baseline = BaselineStorage bl_empty"
| "ob_new Pooled = BaselineStorage bl_empty"

fun ob_add_limit :: "OrderId \<Rightarrow> Side \<Rightarrow> Price \<Rightarrow> Quantity \<Rightarrow> TimeInForce \<Rightarrow> OrderBook \<Rightarrow> OrderBook \<times> Trade list" where
  "ob_add_limit i side price quantity tif (BaselineStorage b) =
     (let (b', ts) = bl_add_limit i side price quantity tif b in (BaselineStorage b', ts))"
| "ob_add_limit i side price quantity tif (IntrusiveStorage s) =
     (let (s', ts) = in_add_limit \<lparr>li_id = i, li_side = side, li_price = price, li_quantity = quantity, li_tif = tif\<rparr> s in (IntrusiveStorage s', ts))"
| "ob_add_limit i side price quantity tif (ContiguousStorage s) =
     (let (s', ts) = ct_add_limit \<lparr>li_id = i, li_side = side, li_price = price, li_quantity = quantity, li_tif = tif\<rparr> s in (ContiguousStorage s', ts))"

fun ob_add_market :: "OrderId \<Rightarrow> Side \<Rightarrow> Quantity \<Rightarrow> OrderBook \<Rightarrow> OrderBook \<times> Trade list" where
  "ob_add_market i side quantity (BaselineStorage b) =
     (let (b', ts) = bl_add_market i side quantity b in (BaselineStorage b', ts))"
| "ob_add_market i side quantity (IntrusiveStorage s) =
     (let (s', ts) = in_add_market i side quantity s in (IntrusiveStorage s', ts))"
| "ob_add_market i side quantity (ContiguousStorage s) =
     (let (s', ts) = ct_add_market i side quantity s in (ContiguousStorage s', ts))"

fun ob_cancel :: "OrderId \<Rightarrow> OrderBook \<Rightarrow> OrderBook \<times> bool" where
  "ob_cancel i (BaselineStorage b) =
     (let (b', c) = bl_cancel i b in (BaselineStorage b', c))"
| "ob_cancel i (IntrusiveStorage s) =
     (let (s', c) = in_cancel i s in (IntrusiveStorage s', c))"
| "ob_cancel i (ContiguousStorage s) =
     (let (s', c) = ct_cancel i s in (ContiguousStorage s', c))"

fun ob_modify :: "OrderId \<Rightarrow> Price \<Rightarrow> Quantity \<Rightarrow> OrderBook \<Rightarrow> OrderBook \<times> Trade list" where
  "ob_modify i new_price new_quantity (BaselineStorage b) =
     (let (b', ts) = bl_modify i new_price new_quantity b in (BaselineStorage b', ts))"
| "ob_modify i new_price new_quantity (IntrusiveStorage s) =
     (let (s', ts) = in_modify i new_price new_quantity s in (IntrusiveStorage s', ts))"
| "ob_modify i new_price new_quantity (ContiguousStorage s) =
     (let (s', ts) = ct_modify i new_price new_quantity s in (ContiguousStorage s', ts))"

fun ob_contains :: "OrderId \<Rightarrow> OrderBook \<Rightarrow> bool" where
  "ob_contains i (BaselineStorage b) = bl_contains i b"
| "ob_contains i (IntrusiveStorage s) = in_contains i s"
| "ob_contains i (ContiguousStorage s) = ct_contains i s"

fun ob_can_store_limit :: "Side \<Rightarrow> Price \<Rightarrow> Quantity \<Rightarrow> TimeInForce \<Rightarrow> OrderBook \<Rightarrow> bool" where
  "ob_can_store_limit side price quantity tif (BaselineStorage b) = bl_can_store_limit side price quantity tif b"
| "ob_can_store_limit side price quantity tif (IntrusiveStorage s) = in_can_store_limit side price quantity tif s"
| "ob_can_store_limit side price quantity tif (ContiguousStorage s) =
     ct_can_store_limit side price quantity tif s"

fun ob_can_apply_modify :: "OrderId \<Rightarrow> Price \<Rightarrow> Quantity \<Rightarrow> OrderBook \<Rightarrow> bool" where
  "ob_can_apply_modify i new_price new_quantity (BaselineStorage b) =
     bl_can_apply_modify i new_price new_quantity b"
| "ob_can_apply_modify i new_price new_quantity (IntrusiveStorage s) =
     in_can_apply_modify i new_price new_quantity s"
| "ob_can_apply_modify i new_price new_quantity (ContiguousStorage s) =
     ct_can_apply_modify i new_price new_quantity s"

fun ob_fill_count :: "Side \<Rightarrow> Price \<Rightarrow> bool \<Rightarrow> Quantity \<Rightarrow> OrderBook \<Rightarrow> nat" where
  "ob_fill_count taker_side limit is_market quantity (BaselineStorage b) =
     bl_fill_count taker_side limit is_market quantity b"
| "ob_fill_count taker_side limit is_market quantity (IntrusiveStorage s) =
     in_fill_count taker_side limit is_market quantity s"
| "ob_fill_count taker_side limit is_market quantity (ContiguousStorage s) =
     ct_fill_count taker_side limit is_market quantity s"

fun ob_resting_orders :: "OrderBook \<Rightarrow> Order list" where
  "ob_resting_orders (BaselineStorage b) = bl_resting_orders b"
| "ob_resting_orders (IntrusiveStorage s) = in_resting_orders s"
| "ob_resting_orders (ContiguousStorage s) = ct_resting_orders s"

fun ob_best_bid :: "OrderBook \<Rightarrow> Price option" where
  "ob_best_bid (BaselineStorage b) = bl_best_bid b"
| "ob_best_bid (IntrusiveStorage s) = in_best_bid s"
| "ob_best_bid (ContiguousStorage s) = ct_best_bid s"

fun ob_best_ask :: "OrderBook \<Rightarrow> Price option" where
  "ob_best_ask (BaselineStorage b) = bl_best_ask b"
| "ob_best_ask (IntrusiveStorage s) = in_best_ask s"
| "ob_best_ask (ContiguousStorage s) = ct_best_ask s"

fun ob_quantity_at :: "Side \<Rightarrow> Price \<Rightarrow> OrderBook \<Rightarrow> QuantityTotal" where
  "ob_quantity_at side price (BaselineStorage b) = bl_quantity_at side price b"
| "ob_quantity_at side price (IntrusiveStorage s) = in_quantity_at side price s"
| "ob_quantity_at side price (ContiguousStorage s) = ct_quantity_at side price s"

fun ob_order_count :: "OrderBook \<Rightarrow> nat" where
  "ob_order_count (BaselineStorage b) = bl_order_count b"
| "ob_order_count (IntrusiveStorage s) = in_order_count s"
| "ob_order_count (ContiguousStorage s) = ct_order_count s"

fun ob_bid_levels :: "OrderBook \<Rightarrow> LevelView list" where
  "ob_bid_levels (BaselineStorage b) = bl_bid_levels b"
| "ob_bid_levels (IntrusiveStorage s) = in_bid_levels s"
| "ob_bid_levels (ContiguousStorage s) = ct_bid_levels s"

fun ob_ask_levels :: "OrderBook \<Rightarrow> LevelView list" where
  "ob_ask_levels (BaselineStorage b) = bl_ask_levels b"
| "ob_ask_levels (IntrusiveStorage s) = in_ask_levels s"
| "ob_ask_levels (ContiguousStorage s) = ct_ask_levels s"

section \<open>The contract\<close>

fun ob_abs :: "OrderBook \<Rightarrow> SpecBook" where
  "ob_abs (BaselineStorage b) = bl_abs b"
| "ob_abs (IntrusiveStorage s) = bl_abs (in_bl s)"
| "ob_abs (ContiguousStorage s) = bl_abs (ct_bl s)"

fun ob_wf :: "OrderBook \<Rightarrow> bool" where
  "ob_wf (BaselineStorage b) = bl_wf b"
| "ob_wf (IntrusiveStorage s) = in_wf s"
| "ob_wf (ContiguousStorage s) = ct_wf s"

fun ob_room :: "OrderBook \<Rightarrow> bool" where
  "ob_room (BaselineStorage b) = True"
| "ob_room (IntrusiveStorage s) = True"
| "ob_room (ContiguousStorage s) = ct_room s"

interpretation ob: book_store ob_abs ob_wf ob_room ob_contains ob_can_store_limit ob_can_apply_modify
    ob_add_limit ob_add_market ob_cancel ob_modify ob_fill_count ob_resting_orders ob_best_bid ob_best_ask
    ob_quantity_at ob_order_count ob_bid_levels ob_ask_levels
proof unfold_locales
  fix s i side p q tif
  assume "ob_wf s" "ob_room s" "is_valid_side side" "ob_can_store_limit side p q tif s"
  then show "ob_wf (fst (ob_add_limit i side p q tif s)) \<and>
      (ob_abs (fst (ob_add_limit i side p q tif s)), snd (ob_add_limit i side p q tif s)) =
        spec_add_limit i side p q tif (ob_abs s)"
    using bl.add_limit_spec pooled.store.add_limit_spec ct.store.add_limit_spec unfolding in_limit_def ct_limit_def
    by (cases s) (simp_all add: Let_def case_prod_unfold)
next
  fix s i side q assume "ob_wf s"
  then show "ob_wf (fst (ob_add_market i side q s)) \<and>
      (ob_abs (fst (ob_add_market i side q s)), snd (ob_add_market i side q s)) = spec_add_market i side q (ob_abs s)"
    by (cases s) (simp_all add: Let_def case_prod_unfold bl.add_market_spec pooled.store.add_market_spec ct.store.add_market_spec)
next
  fix s i assume "ob_wf s"
  then show "ob_wf (fst (ob_cancel i s)) \<and> (ob_abs (fst (ob_cancel i s)), snd (ob_cancel i s)) = spec_cancel i (ob_abs s)"
    by (cases s) (simp_all add: Let_def case_prod_unfold bl.cancel_spec pooled.store.cancel_spec ct.store.cancel_spec)
next
  fix s i p q assume "ob_wf s" "ob_room s" "ob_can_apply_modify i p q s"
  then show "ob_wf (fst (ob_modify i p q s)) \<and>
      (ob_abs (fst (ob_modify i p q s)), snd (ob_modify i p q s)) = spec_modify i p q (ob_abs s)"
    by (cases s) (simp_all add: Let_def case_prod_unfold bl.modify_spec pooled.store.modify_spec ct.store.modify_spec)
next
  fix s assume wf: "ob_wf s"
  show "spec_wf (ob_abs s)"
    using wf bl.wf_spec pooled.store.wf_spec ct.store.wf_spec by (cases s) simp_all
  show "ob_contains i s = spec_contains i (ob_abs s)" for i
    using wf bl.contains_spec pooled.store.contains_spec ct.store.contains_spec by (cases s) simp_all
  show "ob_can_store_limit side p q IOC s" for side p q
    using wf bl.can_store_ioc pooled.store.can_store_ioc ct.store.can_store_ioc by (cases s) simp_all
  show "ob_can_apply_modify i p 0 s" for i p
    using wf bl.can_apply_zero pooled.store.can_apply_zero ct.store.can_apply_zero by (cases s) simp_all
  show "ob_fill_count side p mkt q s = spec_fill_count side p mkt q (ob_abs s)" for side p mkt q
    using wf bl.fill_count_spec pooled.store.fill_count_spec ct.store.fill_count_spec by (cases s) simp_all
  show "ob_resting_orders s = spec_orders (ob_abs s)"
    using wf bl.resting_orders_spec pooled.store.resting_orders_spec ct.store.resting_orders_spec by (cases s) simp_all
  show "ob_best_bid s = spec_best (s_bids (ob_abs s))"
    using wf bl.best_bid_spec pooled.store.best_bid_spec ct.store.best_bid_spec by (cases s) simp_all
  show "ob_best_ask s = spec_best (s_asks (ob_abs s))"
    using wf bl.best_ask_spec pooled.store.best_ask_spec ct.store.best_ask_spec by (cases s) simp_all
  show "ob_quantity_at side p s = spec_quantity_at side p (ob_abs s)" for side p
    using wf bl.quantity_at_spec pooled.store.quantity_at_spec ct.store.quantity_at_spec by (cases s) simp_all
  show "ob_order_count s = length (spec_orders (ob_abs s))"
    using wf bl.order_count_spec pooled.store.order_count_spec ct.store.order_count_spec by (cases s) simp_all
  show "ob_bid_levels s = spec_levels (s_bids (ob_abs s))"
    using wf bl.bid_levels_spec pooled.store.bid_levels_spec ct.store.bid_levels_spec by (cases s) simp_all
  show "ob_ask_levels s = spec_levels (s_asks (ob_abs s))"
    using wf bl.ask_levels_spec pooled.store.ask_levels_spec ct.store.ask_levels_spec by (cases s) simp_all
qed

lemma ob_new_spec [simp]: "ob_wf (ob_new storage)" "ob_abs (ob_new storage) = spec_empty"
  by (cases storage; simp) (cases storage; simp add: bl_abs_def bl_empty_def spec_empty_def)

lemma ob_room_small: "ob_wf b \<Longrightarrow> ob_order_count b < 2 ^ 31 \<Longrightarrow> ob_room b"
  by (cases b) (simp_all add: ct_room_def)

end
