(* ===== verification/Book_Properties.thy ===== *)
theory Book_Properties
  imports Order_Book
begin

text \<open>
  Correctness of the order book, for whichever storage it was built with: statements over the
  public operations of \<^verbatim>\<open>OrderBook\<close>, proved from the contract of \<^verbatim>\<open>Book_Store\<close>.
\<close>

section \<open>A small book\<close>

definition sample_book :: OrderBook where
  "sample_book =
     fst (ob_add_limit 3 Buy (Ticks 99) 4 GTC
       (fst (ob_add_limit 2 Sell (Ticks 101) 5 GTC
         (fst (ob_add_limit 1 Sell (Ticks 100) 3 GTC (ob_new Baseline))))))"

lemma sample_book_wf: "ob_wf sample_book"
proof -
  have 0: "ob_wf (ob_new Baseline)" by simp
  have 1: "ob_wf (fst (ob_add_limit 1 Sell (Ticks 100) 3 GTC (ob_new Baseline)))"
    by (rule ob.add_limit_spec [OF 0, THEN conjunct1]; code_simp)
  have 2: "ob_wf (fst (ob_add_limit 2 Sell (Ticks 101) 5 GTC
      (fst (ob_add_limit 1 Sell (Ticks 100) 3 GTC (ob_new Baseline)))))"
    by (rule ob.add_limit_spec [OF 1, THEN conjunct1]; code_simp)
  show ?thesis
    unfolding sample_book_def by (rule ob.add_limit_spec [OF 2, THEN conjunct1]; code_simp)
qed

lemma sample_facts:
  "ob_room sample_book" "is_valid_side Buy" "\<not> ob_contains 7 sample_book"
  "ob_can_store_limit Buy (Ticks 101) 5 GTC sample_book" "ob_can_store_limit Buy (Ticks 100) 5 GTC sample_book"
  by code_simp+

section \<open>Refinement\<close>

text \<open>C1: On a well-formed book, a limit order that storage accepts has exactly the specified
  effect: the same trades in the same order, the same resting orders in the same priority, and
  a well-formed book again.\<close>

theorem add_limit_refines:
  assumes "ob_wf b" "ob_room b" "is_valid_side side" "ob_can_store_limit side p q tif b"
  shows "ob_wf (fst (ob_add_limit i side p q tif b)) \<and>
    (ob_abs (fst (ob_add_limit i side p q tif b)), snd (ob_add_limit i side p q tif b)) =
      spec_add_limit i side p q tif (ob_abs b)"
  by (rule ob.add_limit_spec [OF assms])

theorem add_limit_refines_witness:
  "(ob_abs (fst (ob_add_limit 7 Buy (Ticks 101) 5 GTC sample_book)),
    snd (ob_add_limit 7 Buy (Ticks 101) 5 GTC sample_book)) =
      spec_add_limit 7 Buy (Ticks 101) 5 GTC (ob_abs sample_book)"
  by (rule add_limit_refines [OF sample_book_wf, THEN conjunct2]; code_simp)

text \<open>C2: A modify that storage accepts has exactly the specified effect: in place when it
  only reduces, otherwise a cancel and a new order at the back of the queue, and a cancel when
  the new quantity is zero.\<close>

theorem modify_refines:
  assumes "ob_wf b" "ob_room b" "ob_can_apply_modify i p q b"
  shows "ob_wf (fst (ob_modify i p q b)) \<and>
    (ob_abs (fst (ob_modify i p q b)), snd (ob_modify i p q b)) = spec_modify i p q (ob_abs b)"
  by (rule ob.modify_spec [OF assms])

theorem modify_refines_witness:
  "(ob_abs (fst (ob_modify 2 (Ticks 98) 6 sample_book)), snd (ob_modify 2 (Ticks 98) 6 sample_book)) =
      spec_modify 2 (Ticks 98) 6 (ob_abs sample_book)"
  by (rule modify_refines [OF sample_book_wf, THEN conjunct2]; code_simp)

section \<open>Matching\<close>

text \<open>C3: Price-time priority. The makers of a limit order are the front of the opposite side
  in its priority order, at their own prices; every maker but the last is filled whole; no
  fill is worse than the limit; and that side is sorted best price first.\<close>

theorem price_time_priority:
  assumes "ob_wf b" "ob_room b" "is_valid_side side" "ob_can_store_limit side p q tif b" "\<not> ob_contains i b"
    and "ob_add_limit i side p q tif b = (b', ts)"
    and "queue = filter (\<lambda>ord. (o_side ord = Buy) \<noteq> (side = Buy)) (ob_resting_orders b)"
  shows "map (\<lambda>t. (t_maker_id t, t_price t)) ts = map (\<lambda>ord. (o_id ord, o_price ord)) (take (length ts) queue) \<and>
    (\<forall>k. k + 1 < length ts \<longrightarrow> t_quantity (ts ! k) = o_quantity (queue ! k)) \<and>
    (\<forall>t\<in>set ts. t_taker_id t = i \<and> (if side = Buy then t_price t \<le> p else p \<le> t_price t)) \<and>
    prio_sorted (side \<noteq> Buy) queue"
  using ob.add_limit_priority [OF assms] by (auto simp: can_match_level_def)

theorem price_time_priority_witness:
  "map (\<lambda>t. (t_maker_id t, t_price t)) (snd (ob_add_limit 7 Buy (Ticks 101) 5 GTC sample_book)) =
     map (\<lambda>ord. (o_id ord, o_price ord))
       (take 2 (filter (\<lambda>ord. (o_side ord = Buy) \<noteq> (Buy = Buy)) (ob_resting_orders sample_book)))"
proof -
  have n: "length (snd (ob_add_limit 7 Buy (Ticks 101) 5 GTC sample_book)) = 2" by code_simp
  show ?thesis
    using price_time_priority [OF sample_book_wf sample_facts(1,2,4,3) prod.collapse [symmetric] refl, THEN conjunct1]
    unfolding n .
qed

text \<open>C4: Quantity is conserved. A new order trades at most its quantity; what it trades leaves
  the other side; and what it does not trade rests if it is good-till-cancel and is dropped
  otherwise.\<close>

theorem add_limit_conserves_quantity:
  assumes "ob_wf b" "ob_room b" "is_valid_side side" "ob_can_store_limit side p q tif b" "\<not> ob_contains i b"
    and "ob_add_limit i side p q tif b = (b', ts)"
  shows "trade_qty ts \<le> unat q \<and>
    order_qty (ob_resting_orders b') + 2 * trade_qty ts =
      order_qty (ob_resting_orders b) + (if tif = GTC then unat q else trade_qty ts)"
  using ob.add_limit_conserves [OF assms] by blast

theorem add_limit_conserves_quantity_witness:
  "order_qty (ob_resting_orders (fst (ob_add_limit 7 Buy (Ticks 100) 5 GTC sample_book))) +
     2 * trade_qty (snd (ob_add_limit 7 Buy (Ticks 100) 5 GTC sample_book)) = 17"
  using add_limit_conserves_quantity [OF sample_book_wf, of Buy "Ticks 100" 5 GTC 7, OF _ _ _ _ prod.collapse [symmetric]]
  by code_simp

text \<open>C5: An order that does not trade completely rests behind every order of its side with an
  equal or better price and ahead of every worse one, with the untraded quantity.\<close>

theorem remainder_rests_behind:
  assumes "ob_wf b" "ob_room b" "is_valid_side side" "ob_can_store_limit side p q GTC b" "\<not> ob_contains i b"
    and "ob_add_limit i side p q GTC b = (b', ts)" "trade_qty ts < unat q"
  shows "\<exists>xs ys ord. filter (\<lambda>ord. (o_side ord = Buy) = (side = Buy)) (ob_resting_orders b) = xs @ ys \<and>
    filter (\<lambda>ord. (o_side ord = Buy) = (side = Buy)) (ob_resting_orders b') = xs @ ord # ys \<and>
    o_id ord = i \<and> o_side ord = side \<and> o_price ord = p \<and> unat (o_quantity ord) = unat q - trade_qty ts \<and>
    (\<forall>x\<in>set xs. \<not> price_before (side = Buy) p (o_price x)) \<and> (\<forall>y\<in>set ys. price_before (side = Buy) p (o_price y))"
  by (rule ob.add_limit_rests_behind [OF assms])

theorem remainder_rests_behind_witness:
  "\<exists>xs ys ord. filter (\<lambda>ord. (o_side ord = Buy) = (Buy = Buy))
      (ob_resting_orders (fst (ob_add_limit 7 Buy (Ticks 100) 5 GTC sample_book))) = xs @ ord # ys \<and>
    o_id ord = 7 \<and> unat (o_quantity ord) = unat (5 :: Quantity) - 3"
proof -
  have t: "trade_qty (snd (ob_add_limit 7 Buy (Ticks 100) 5 GTC sample_book)) = 3" by code_simp
  then have "trade_qty (snd (ob_add_limit 7 Buy (Ticks 100) 5 GTC sample_book)) < unat (5 :: Quantity)" by simp
  from remainder_rests_behind [OF sample_book_wf sample_facts(1,2,5,3) prod.collapse [symmetric] this]
  show ?thesis unfolding t by blast
qed

section \<open>Cancel, modify and the queries\<close>

text \<open>C6: Cancel answers whether the order was resting, removes exactly that order, and leaves
  every other order where it was in the queue.\<close>

theorem cancel_removes_only:
  assumes "ob_wf b" "ob_cancel i b = (b', canceled)"
  shows "canceled = ob_contains i b \<and> ob_wf b' \<and>
    ob_resting_orders b' = filter (\<lambda>ord. o_id ord \<noteq> i) (ob_resting_orders b)"
  using ob.cancel_exact [OF assms] by blast

theorem cancel_removes_only_witness:
  "snd (ob_cancel 2 sample_book) = ob_contains 2 sample_book \<and>
   map o_id (ob_resting_orders (fst (ob_cancel 2 sample_book))) = [3, 1]"
proof -
  have "map o_id (filter (\<lambda>ord. o_id ord \<noteq> 2) (ob_resting_orders sample_book)) = [3, 1]" by code_simp
  with cancel_removes_only [OF sample_book_wf prod.collapse [symmetric], of 2] show ?thesis by simp
qed

text \<open>C7: A modify that keeps the price and does not raise the quantity makes no trade and keeps
  every order, the modified one included, at its place in the queue.\<close>

theorem reduction_keeps_priority:
  assumes "ob_wf b" "ob_room b" "ob_can_apply_modify i p q b" "ob_modify i p q b = (b', ts)"
    and "ord \<in> set (ob_resting_orders b)" "o_id ord = i" "q \<noteq> 0" "p = o_price ord" "q \<le> o_quantity ord"
  shows "ts = [] \<and> map o_id (ob_resting_orders b') = map o_id (ob_resting_orders b) \<and>
    ob_resting_orders b' =
      map (\<lambda>x. if o_id x = i then x\<lparr>o_quantity := q\<rparr> else x) (ob_resting_orders b)"
  using ob.modify_in_place [OF assms] by (simp add: set_qty_def)

lemma sample_modify: "ob_can_apply_modify 2 (Ticks 101) 4 sample_book"
  by code_simp

theorem reduction_keeps_priority_witness:
  "snd (ob_modify 2 (Ticks 101) 4 sample_book) = [] \<and>
   map o_id (ob_resting_orders (fst (ob_modify 2 (Ticks 101) 4 sample_book))) = map o_id (ob_resting_orders sample_book)"
proof -
  have "\<lparr>o_id = 2, o_side = Sell, o_price = Ticks 101, o_quantity = 5\<rparr> \<in> set (ob_resting_orders sample_book)"
    by code_simp
  from reduction_keeps_priority [OF sample_book_wf sample_facts(1) _ prod.collapse [symmetric] this]
  show ?thesis using sample_modify by simp
qed

text \<open>C8: The number of fills previewed for an order is the number of trades it then makes, for
  limit and for market orders.\<close>

theorem fill_count_is_exact:
  assumes "ob_wf b" "ob_room b" "is_valid_side side" "\<not> ob_contains i b"
  shows "(ob_can_store_limit side p q tif b \<longrightarrow>
      ob_fill_count side p False q b = length (snd (ob_add_limit i side p q tif b))) \<and>
    ob_fill_count side p True q b = length (snd (ob_add_market i side q b))"
  using ob.fill_count_limit [OF assms(1-3) _ assms(4)] ob.fill_count_market [OF assms(1,3,4)] by blast

theorem fill_count_is_exact_witness:
  "ob_fill_count Buy (Ticks 100) False 5 sample_book = 1 \<and> ob_fill_count Buy (Ticks 100) True 5 sample_book = 2"
proof -
  have "length (snd (ob_add_limit 7 Buy (Ticks 100) 5 GTC sample_book)) = 1"
      "length (snd (ob_add_market 7 Buy 5 sample_book)) = 2"
    by code_simp+
  with fill_count_is_exact [OF sample_book_wf sample_facts(1-3), of "Ticks 100" 5 GTC] sample_facts(5)
  show ?thesis by simp
qed

text \<open>C9: The 64-bit total at a price never wraps while the book holds fewer than 2^32 orders: it
  is the sum of the resting quantities at that price and side.\<close>

theorem quantity_at_never_wraps:
  assumes "ob_wf b" "ob_order_count b < 2 ^ 32"
  shows "unat (ob_quantity_at side p b) =
    order_qty (filter (\<lambda>ord. (o_side ord = Buy) = (side = Buy) \<and> o_price ord = p) (ob_resting_orders b))"
  by (rule ob.quantity_at_exact [OF assms])

theorem quantity_at_never_wraps_witness: "unat (ob_quantity_at Sell (Ticks 101) sample_book) = 5"
proof -
  have "length (ob_resting_orders sample_book) = 3" by code_simp
  then have "ob_order_count sample_book < 2 ^ 32"
    using ob.order_count_spec [OF sample_book_wf] ob.resting_orders_spec [OF sample_book_wf] by simp
  moreover have "order_qty (filter (\<lambda>ord. (o_side ord = Buy) = (Sell = Buy) \<and>
      o_price ord = Ticks 101) (ob_resting_orders sample_book)) = 5"
    by code_simp
  ultimately show ?thesis
    using quantity_at_never_wraps [OF sample_book_wf, of Sell "Ticks 101"] by simp
qed

end
