(* ===== verification/Matching_Engine.thy ===== *)
theory Matching_Engine
  imports Order_Book
begin

text \<open>
  \<^verbatim>\<open>src/engine/matching_engine.cpp\<close>: the symbol registry, one order book per symbol and the
  sequenced event stream. A mutator returns a reference to the scratch buffer \<^verbatim>\<open>events_\<close>; in the
  model it returns the engine, whose field \<open>me_events\<close> is that buffer.
\<close>

section \<open>State and operations\<close>

record SymbolRegistry =
  reg_ids :: "string \<rightharpoonup> SymbolId"
  reg_next :: SymbolId

definition reg_intern :: "string \<Rightarrow> SymbolRegistry \<Rightarrow> SymbolRegistry \<times> SymbolId" where
  "reg_intern name reg =
     (case reg_ids reg name of
        Some i \<Rightarrow> (reg, i)
      | None \<Rightarrow>
          let i = reg_next reg
          in (reg\<lparr>reg_next := i + 1, reg_ids := (reg_ids reg)(name \<mapsto> i)\<rparr>, i))"

definition reg_find :: "string \<Rightarrow> SymbolRegistry \<Rightarrow> SymbolId option" where
  "reg_find name reg = reg_ids reg name"

record SymbolSnapshot =
  ss_symbol :: SymbolId
  ss_best_bid :: "Price option"
  ss_best_ask :: "Price option"
  ss_order_count :: nat
  ss_bids :: "LevelView list"
  ss_asks :: "LevelView list"

record EngineSnapshot =
  es_last_seq :: SeqNo
  es_symbols :: "SymbolSnapshot list"

record MatchingEngine =
  me_registry :: SymbolRegistry
  me_books :: "(SymbolId \<times> OrderBook) list"
  me_seq :: SeqNo
  me_storage :: Storage
  me_events :: "EngineEvent list"

definition me_new :: "Storage \<Rightarrow> MatchingEngine" where
  "me_new storage =
     \<lparr>me_registry = \<lparr>reg_ids = Map.empty, reg_next = 0\<rparr>, me_books = [], me_seq = 0,
      me_storage = storage, me_events = []\<rparr>"

definition register_symbol :: "string \<Rightarrow> MatchingEngine \<Rightarrow> MatchingEngine \<times> SymbolId" where
  "register_symbol name e =
     (let (reg, i) = reg_intern name (me_registry e)
      in (e\<lparr>me_registry := reg,
            me_books := std_map_try_emplace (<) i (ob_new (me_storage e)) (me_books e)\<rparr>, i))"

definition me_symbol_id :: "string \<Rightarrow> MatchingEngine \<Rightarrow> SymbolId option" where
  "me_symbol_id name e = reg_find name (me_registry e)"

definition find_book :: "SymbolId \<Rightarrow> MatchingEngine \<Rightarrow> OrderBook option" where
  "find_book symbol e = map_of (me_books e) symbol"

text \<open>A write through the pointer \<^verbatim>\<open>find_book\<close> returned.\<close>

definition set_book :: "SymbolId \<Rightarrow> OrderBook \<Rightarrow> MatchingEngine \<Rightarrow> MatchingEngine" where
  "set_book symbol book e = e\<lparr>me_books := std_map_set symbol book (me_books e)\<rparr>"

definition reset_events :: "MatchingEngine \<Rightarrow> MatchingEngine" where
  "reset_events e = e\<lparr>me_events := []\<rparr>"

definition next_seq :: "MatchingEngine \<Rightarrow> MatchingEngine \<times> SeqNo" where
  "next_seq e = (e\<lparr>me_seq := me_seq e + 1\<rparr>, me_seq e + 1)"

definition push_event :: "(SeqNo \<Rightarrow> EngineEvent) \<Rightarrow> MatchingEngine \<Rightarrow> MatchingEngine" where
  "push_event ev e = (let (e', s) = next_seq e in e'\<lparr>me_events := me_events e' @ [ev s]\<rparr>)"

definition trade_event :: "SymbolId \<Rightarrow> Trade \<Rightarrow> SeqNo \<Rightarrow> EngineEvent" where
  "trade_event symbol t s =
     TradeEvent s symbol (t_taker_id t) (t_maker_id t) (t_price t) (t_quantity t)"

definition push_trades :: "SymbolId \<Rightarrow> Trade list \<Rightarrow> MatchingEngine \<Rightarrow> MatchingEngine" where
  "push_trades symbol ts e = foldl (\<lambda>e t. push_event (trade_event symbol t) e) e ts"

definition me_new_limit :: "SymbolId \<Rightarrow> OrderId \<Rightarrow> Side \<Rightarrow> Price \<Rightarrow> Quantity \<Rightarrow> TimeInForce
    \<Rightarrow> MatchingEngine \<Rightarrow> MatchingEngine" where
  "me_new_limit symbol i side price quantity tif e =
     (let e = reset_events e
      in case find_book symbol e of
           None \<Rightarrow> e
         | Some book \<Rightarrow>
             if ob_contains i book then e
             else if \<not> ob_can_store_limit side price quantity tif book then e
             else
               let e = push_event (\<lambda>s. OrderAccepted s symbol i) e;
                   (book', ts) = ob_add_limit i side price quantity tif book
               in push_trades symbol ts (set_book symbol book' e))"

definition me_new_market :: "SymbolId \<Rightarrow> OrderId \<Rightarrow> Side \<Rightarrow> Quantity \<Rightarrow> MatchingEngine \<Rightarrow> MatchingEngine" where
  "me_new_market symbol i side quantity e =
     (let e = reset_events e
      in case find_book symbol e of
           None \<Rightarrow> e
         | Some book \<Rightarrow>
             if ob_contains i book then e
             else
               let e = push_event (\<lambda>s. OrderAccepted s symbol i) e;
                   (book', ts) = ob_add_market i side quantity book
               in push_trades symbol ts (set_book symbol book' e))"

definition me_cancel :: "SymbolId \<Rightarrow> OrderId \<Rightarrow> MatchingEngine \<Rightarrow> MatchingEngine" where
  "me_cancel symbol i e =
     (let e = reset_events e
      in case find_book symbol e of
           None \<Rightarrow> e
         | Some book \<Rightarrow>
             let (book', canceled) = ob_cancel i book; e = set_book symbol book' e
             in if canceled then push_event (\<lambda>s. OrderCanceled s symbol i) e else e)"

definition me_modify :: "SymbolId \<Rightarrow> OrderId \<Rightarrow> Price \<Rightarrow> Quantity \<Rightarrow> MatchingEngine \<Rightarrow> MatchingEngine" where
  "me_modify symbol i new_price new_quantity e =
     (let e = reset_events e
      in case find_book symbol e of
           None \<Rightarrow> e
         | Some book \<Rightarrow>
             if \<not> ob_contains i book then e
             else if \<not> ob_can_apply_modify i new_price new_quantity book then e
             else
               let e = push_event (\<lambda>s. OrderModified s symbol i) e;
                   (book', ts) = ob_modify i new_price new_quantity book
               in push_trades symbol ts (set_book symbol book' e))"

definition last_seq :: "MatchingEngine \<Rightarrow> SeqNo" where
  "last_seq e = me_seq e"

definition has_symbol :: "SymbolId \<Rightarrow> MatchingEngine \<Rightarrow> bool" where
  "has_symbol symbol e \<longleftrightarrow> find_book symbol e \<noteq> None"

definition me_resting_orders :: "SymbolId \<Rightarrow> MatchingEngine \<Rightarrow> Order list" where
  "me_resting_orders symbol e = (case find_book symbol e of None \<Rightarrow> [] | Some book \<Rightarrow> ob_resting_orders book)"

definition me_contains :: "SymbolId \<Rightarrow> OrderId \<Rightarrow> MatchingEngine \<Rightarrow> bool" where
  "me_contains symbol i e = (case find_book symbol e of None \<Rightarrow> False | Some book \<Rightarrow> ob_contains i book)"

definition me_best_bid :: "SymbolId \<Rightarrow> MatchingEngine \<Rightarrow> Price option" where
  "me_best_bid symbol e = (case find_book symbol e of None \<Rightarrow> None | Some book \<Rightarrow> ob_best_bid book)"

definition me_best_ask :: "SymbolId \<Rightarrow> MatchingEngine \<Rightarrow> Price option" where
  "me_best_ask symbol e = (case find_book symbol e of None \<Rightarrow> None | Some book \<Rightarrow> ob_best_ask book)"

definition me_fill_count :: "SymbolId \<Rightarrow> Side \<Rightarrow> Price \<Rightarrow> OrderType \<Rightarrow> Quantity \<Rightarrow> MatchingEngine \<Rightarrow> nat" where
  "me_fill_count symbol side price type quantity e =
     (case find_book symbol e of
        None \<Rightarrow> 0
      | Some book \<Rightarrow> ob_fill_count side price (type = Market) quantity book)"

definition me_can_store_limit :: "SymbolId \<Rightarrow> Side \<Rightarrow> Price \<Rightarrow> Quantity \<Rightarrow> TimeInForce \<Rightarrow> MatchingEngine \<Rightarrow> bool" where
  "me_can_store_limit symbol side price quantity tif e =
     (case find_book symbol e of
        None \<Rightarrow> False
      | Some book \<Rightarrow> ob_can_store_limit side price quantity tif book)"

definition me_can_apply_modify :: "SymbolId \<Rightarrow> OrderId \<Rightarrow> Price \<Rightarrow> Quantity \<Rightarrow> MatchingEngine \<Rightarrow> bool" where
  "me_can_apply_modify symbol i new_price new_quantity e =
     (case find_book symbol e of
        None \<Rightarrow> False
      | Some book \<Rightarrow> ob_can_apply_modify i new_price new_quantity book)"

definition me_snapshot :: "MatchingEngine \<Rightarrow> EngineSnapshot" where
  "me_snapshot e =
     \<lparr>es_last_seq = me_seq e,
      es_symbols = map (\<lambda>(i, book).
        \<lparr>ss_symbol = i, ss_best_bid = ob_best_bid book, ss_best_ask = ob_best_ask book,
         ss_order_count = ob_order_count book, ss_bids = ob_bid_levels book, ss_asks = ob_ask_levels book\<rparr>)
        (me_books e)\<rparr>"

section \<open>Numbered events\<close>

fun stamp :: "SeqNo \<Rightarrow> (SeqNo \<Rightarrow> EngineEvent) list \<Rightarrow> EngineEvent list" where
  "stamp s [] = []"
| "stamp s (f # fs) = f (s + 1) # stamp (s + 1) fs"

lemma length_stamp [simp]: "length (stamp s fs) = length fs"
  by (induction fs arbitrary: s) auto

lemma stamp_append: "stamp s (fs @ gs) = stamp s fs @ stamp (s + of_nat (length fs)) gs"
  by (induction fs arbitrary: s) (auto simp: add.assoc)

definition stampable :: "SymbolId \<Rightarrow> (SeqNo \<Rightarrow> EngineEvent) \<Rightarrow> bool" where
  "stampable symbol f \<longleftrightarrow> (\<forall>s. seq_of (f s) = s \<and> symbol_of (f s) = symbol)"

lemma stampable_events [simp]:
  "stampable symbol (\<lambda>s. OrderAccepted s symbol i)" "stampable symbol (\<lambda>s. OrderCanceled s symbol i)"
  "stampable symbol (\<lambda>s. OrderModified s symbol i)" "stampable symbol (trade_event symbol t)"
  by (simp_all add: stampable_def trade_event_def)

lemma seq_stamp:
  "\<forall>f\<in>set fs. stampable symbol f \<Longrightarrow>
     map seq_of (stamp s fs) = map (\<lambda>k. s + of_nat k) [1..<Suc (length fs)]"
proof (induction fs arbitrary: s)
  case (Cons f fs)
  have "map seq_of (stamp (s + 1) fs) = map (\<lambda>k. s + 1 + of_nat k) [1..<Suc (length fs)]"
    using Cons by simp
  also have "\<dots> = map (\<lambda>k. s + of_nat k) (map Suc [1..<Suc (length fs)])"
    by (simp add: add.assoc)
  also have "map Suc [1..<Suc (length fs)] = [2..<Suc (Suc (length fs))]"
    by (simp add: map_Suc_upt numeral_2_eq_2 del: upt_Suc)
  finally show ?case
    using Cons.prems by (simp add: stampable_def upt_conv_Cons [of "Suc 0"] numeral_2_eq_2 del: upt_Suc)
qed simp

lemma symbol_stamp: "\<forall>f\<in>set fs. stampable symbol f \<Longrightarrow> ev \<in> set (stamp s fs) \<Longrightarrow> symbol_of ev = symbol"
  by (induction fs arbitrary: s) (auto simp: stampable_def)

section \<open>What an operation does to the engine\<close>

lemma push_event_simp:
  "push_event f e = e\<lparr>me_seq := me_seq e + 1, me_events := me_events e @ [f (me_seq e + 1)]\<rparr>"
  by (simp add: push_event_def next_seq_def)

lemma push_trades_simp:
  "push_trades symbol ts e =
     e\<lparr>me_seq := me_seq e + of_nat (length ts),
       me_events := me_events e @ stamp (me_seq e) (map (trade_event symbol) ts)\<rparr>"
  unfolding push_trades_def
  by (induction ts arbitrary: e) (simp_all add: push_event_simp add.assoc)

text \<open>An operation either only clears the buffer or replaces one book and emits numbered events.\<close>

definition me_apply :: "SymbolId \<Rightarrow> OrderBook \<Rightarrow> (SeqNo \<Rightarrow> EngineEvent) list \<Rightarrow> MatchingEngine \<Rightarrow> MatchingEngine" where
  "me_apply symbol book fs e =
     e\<lparr>me_books := std_map_set symbol book (me_books e), me_seq := me_seq e + of_nat (length fs),
       me_events := stamp (me_seq e) fs\<rparr>"

lemma me_new_limit_apply:
  "me_new_limit symbol i side price q tif e =
     (case find_book symbol e of
        None \<Rightarrow> reset_events e
      | Some b \<Rightarrow>
          if ob_contains i b \<or> \<not> ob_can_store_limit side price q tif b then reset_events e
          else me_apply symbol (fst (ob_add_limit i side price q tif b))
                 ((\<lambda>s. OrderAccepted s symbol i) # map (trade_event symbol) (snd (ob_add_limit i side price q tif b))) e)"
  by (simp add: me_new_limit_def me_apply_def reset_events_def find_book_def set_book_def push_event_simp
      push_trades_simp Let_def case_prod_unfold add.assoc split: option.split)

lemma me_new_market_apply:
  "me_new_market symbol i side q e =
     (case find_book symbol e of
        None \<Rightarrow> reset_events e
      | Some b \<Rightarrow>
          if ob_contains i b then reset_events e
          else me_apply symbol (fst (ob_add_market i side q b))
                 ((\<lambda>s. OrderAccepted s symbol i) # map (trade_event symbol) (snd (ob_add_market i side q b))) e)"
  by (simp add: me_new_market_def me_apply_def reset_events_def find_book_def set_book_def push_event_simp
      push_trades_simp Let_def case_prod_unfold add.assoc split: option.split)

lemma me_cancel_apply:
  "me_cancel symbol i e =
     (case find_book symbol e of
        None \<Rightarrow> reset_events e
      | Some b \<Rightarrow> me_apply symbol (fst (ob_cancel i b))
                   (if snd (ob_cancel i b) then [\<lambda>s. OrderCanceled s symbol i] else []) e)"
  by (simp add: me_cancel_def me_apply_def reset_events_def find_book_def set_book_def push_event_simp
      Let_def case_prod_unfold split: option.split)

lemma me_modify_apply:
  "me_modify symbol i price q e =
     (case find_book symbol e of
        None \<Rightarrow> reset_events e
      | Some b \<Rightarrow>
          if \<not> ob_contains i b \<or> \<not> ob_can_apply_modify i price q b then reset_events e
          else me_apply symbol (fst (ob_modify i price q b))
                 ((\<lambda>s. OrderModified s symbol i) # map (trade_event symbol) (snd (ob_modify i price q b))) e)"
  by (simp add: me_modify_def me_apply_def reset_events_def find_book_def set_book_def push_event_simp
      push_trades_simp Let_def case_prod_unfold add.assoc split: option.split)

lemmas me_apply_ops = me_new_limit_apply me_new_market_apply me_cancel_apply me_modify_apply

lemma find_book_apply:
  "find_book symbol e \<noteq> None \<Longrightarrow>
     find_book y (me_apply symbol book fs e) = (if y = symbol then Some book else find_book y e)"
  by (auto simp: find_book_def me_apply_def map_of_std_map_set map_of_eq_None_iff)

lemma find_book_reset [simp]: "find_book y (reset_events e) = find_book y e"
  by (simp add: find_book_def reset_events_def)

lemma reset_events_sel [simp]:
  "me_seq (reset_events e) = me_seq e" "me_events (reset_events e) = []" "me_books (reset_events e) = me_books e"
  "me_registry (reset_events e) = me_registry e" "me_storage (reset_events e) = me_storage e"
  by (simp_all add: reset_events_def)

lemma me_apply_sel [simp]:
  "me_seq (me_apply symbol book fs e) = me_seq e + of_nat (length fs)"
  "me_events (me_apply symbol book fs e) = stamp (me_seq e) fs"
  "me_registry (me_apply symbol book fs e) = me_registry e"
  "me_storage (me_apply symbol book fs e) = me_storage e"
  by (simp_all add: me_apply_def)

section \<open>Invariant\<close>

interpretation sym_map: std_map_order "(<) :: SymbolId \<Rightarrow> SymbolId \<Rightarrow> bool"
  by unfold_locales auto

definition me_wf :: "MatchingEngine \<Rightarrow> bool" where
  "me_wf e \<longleftrightarrow> std_map_sorted (<) (me_books e) \<and> (\<forall>(y, book)\<in>set (me_books e). ob_wf book)"

lemma me_wf_find: "me_wf e \<Longrightarrow> find_book y e = Some b \<Longrightarrow> ob_wf b"
  by (auto simp: me_wf_def find_book_def dest: map_of_SomeD)

lemma me_wf_new [simp]: "me_wf (me_new storage)"
  by (simp add: me_wf_def me_new_def)

lemma me_wf_reset [simp]: "me_wf (reset_events e) = me_wf e"
  by (simp add: me_wf_def)

lemma me_wf_apply: "me_wf e \<Longrightarrow> ob_wf book \<Longrightarrow> me_wf (me_apply symbol book fs e)"
  by (auto simp: me_wf_def me_apply_def dest!: mem_std_map_set)

lemma me_wf_register: "me_wf e \<Longrightarrow> me_wf (fst (register_symbol name e))"
  using set_std_map_try_emplace [of "(<)" "snd (reg_intern name (me_registry e))" "ob_new (me_storage e)" "me_books e"]
  by (auto simp: me_wf_def register_symbol_def Let_def case_prod_unfold sym_map.sorted_try_emplace)

end
