(* ===== verification/Risk.thy ===== *)
theory Risk
  imports Core_Types
begin

text \<open>
  Pre-trade checks of \<^verbatim>\<open>src/engine/risk.cpp\<close>. The notional check divides instead of multiplying;
  the lemmas show that it decides \<^verbatim>\<open>price * quantity <= max_notional\<close> over unbounded integers.
\<close>

record RiskConfig =
  max_order_quantity :: Quantity
  max_notional :: QuantityTotal

definition check_limit_values :: "RiskConfig \<Rightarrow> Price \<Rightarrow> Quantity \<Rightarrow> RejectReason" where
  "check_limit_values config price quantity =
     (if \<not> is_valid_price price then InvalidPrice
      else if \<not> is_valid_quantity quantity then InvalidQuantity
      else if quantity > max_order_quantity config then MaxQuantityExceeded
      else if (ucast quantity :: QuantityTotal) > max_notional config div ticks price then MaxNotionalExceeded
      else NoReason)"

definition check_limit :: "RiskConfig \<Rightarrow> Side \<Rightarrow> Price \<Rightarrow> Quantity \<Rightarrow> RejectReason" where
  "check_limit config side price quantity =
     (if \<not> is_valid_side side then InvalidSide else check_limit_values config price quantity)"

definition check_market :: "RiskConfig \<Rightarrow> Side \<Rightarrow> Quantity \<Rightarrow> RejectReason" where
  "check_market config side quantity =
     (if \<not> is_valid_side side then InvalidSide
      else if \<not> is_valid_quantity quantity then InvalidQuantity
      else if quantity > max_order_quantity config then MaxQuantityExceeded
      else NoReason)"

section \<open>The notional check\<close>

lemma ucast_quantity_less:
  fixes w :: QuantityTotal
  shows "(ucast (q :: Quantity) > w div p) \<longleftrightarrow> unat w div unat p < unat q"
  by (simp add: word_less_nat_alt unat_div unsigned_ucast_eq take_bit_nat_eq_self
      unsigned_less [of q, THEN less_trans])

lemma notional_check:
  fixes quantity :: Quantity
  assumes "is_valid_price price"
  shows "(ucast quantity > max_notional config div ticks price) \<longleftrightarrow>
    unat (max_notional config) < unat (ticks price) * unat quantity"
proof -
  have "0 < unat (ticks price)"
    using assms by (auto simp: is_valid_price_iff unat_gt_0)
  then show ?thesis
    by (simp add: ucast_quantity_less div_less_iff_less_mult mult.commute)
qed

lemma check_limit_values_None:
  "check_limit_values config price quantity = NoReason \<longleftrightarrow>
     0 < sint (ticks price) \<and> 0 < quantity \<and> quantity \<le> max_order_quantity config \<and>
     sint (ticks price) * uint quantity \<le> uint (max_notional config)"
proof (cases "is_valid_price price")
  case True
  have "sint (ticks price) * uint quantity \<le> uint (max_notional config) \<longleftrightarrow>
      unat (ticks price) * unat quantity \<le> unat (max_notional config)"
    unfolding valid_price_unat [OF True, symmetric] uint_nat of_nat_mult [symmetric] zle_int ..
  then show ?thesis
    using True is_valid_price_iff [of price] notional_check [OF True, of config quantity]
    by (auto simp: check_limit_values_def is_valid_quantity_def not_less word_neq_0_conv)
next
  case False
  then show ?thesis using is_valid_price_iff [of price] by (simp add: check_limit_values_def)
qed

end
