(* ===== verification/Order_Gateway.thy ===== *)
theory Order_Gateway
  imports Matching_Engine Risk
begin

text \<open>
  \<^verbatim>\<open>src/gateway/order_gateway.cpp\<close>: risk checks in front of the engine. The gateway holds a
  reference to the engine and a configuration, so its operations take both and return the
  engine with the result.
\<close>

record GatewayResult =
  gr_accepted :: bool
  gr_reason :: RejectReason
  gr_events :: "EngineEvent list"

definition gr_reject :: "RejectReason \<Rightarrow> GatewayResult" where
  "gr_reject r = \<lparr>gr_accepted = False, gr_reason = r, gr_events = []\<rparr>"

definition gr_accept :: "EngineEvent list \<Rightarrow> GatewayResult" where
  "gr_accept evs = \<lparr>gr_accepted = True, gr_reason = NoReason, gr_events = evs\<rparr>"

record NewOrderPreview =
  nop_accepted :: bool
  nop_fill_count :: nat

definition gw_new_limit :: "RiskConfig \<Rightarrow> SymbolId \<Rightarrow> OrderId \<Rightarrow> Side \<Rightarrow> Price \<Rightarrow> Quantity \<Rightarrow> TimeInForce
    \<Rightarrow> MatchingEngine \<Rightarrow> MatchingEngine \<times> GatewayResult" where
  "gw_new_limit config symbol i side price quantity tif e =
     (if \<not> has_symbol symbol e then (e, gr_reject UnknownSymbol)
      else if me_contains symbol i e then (e, gr_reject DuplicateOrderId)
      else
        let r = check_limit config side price quantity
        in if r \<noteq> NoReason then (e, gr_reject r)
           else if \<not> me_can_store_limit symbol side price quantity tif e then (e, gr_reject StorageExhausted)
           else let e' = me_new_limit symbol i side price quantity tif e in (e', gr_accept (me_events e')))"

definition gw_new_market :: "RiskConfig \<Rightarrow> SymbolId \<Rightarrow> OrderId \<Rightarrow> Side \<Rightarrow> Quantity
    \<Rightarrow> MatchingEngine \<Rightarrow> MatchingEngine \<times> GatewayResult" where
  "gw_new_market config symbol i side quantity e =
     (if \<not> has_symbol symbol e then (e, gr_reject UnknownSymbol)
      else if me_contains symbol i e then (e, gr_reject DuplicateOrderId)
      else
        let r = check_market config side quantity
        in if r \<noteq> NoReason then (e, gr_reject r)
           else let e' = me_new_market symbol i side quantity e in (e', gr_accept (me_events e')))"

definition gw_cancel :: "SymbolId \<Rightarrow> OrderId \<Rightarrow> MatchingEngine \<Rightarrow> MatchingEngine \<times> GatewayResult" where
  "gw_cancel symbol i e =
     (if \<not> has_symbol symbol e then (e, gr_reject UnknownSymbol)
      else if \<not> me_contains symbol i e then (e, gr_reject UnknownOrder)
      else let e' = me_cancel symbol i e in (e', gr_accept (me_events e')))"

definition gw_modify :: "RiskConfig \<Rightarrow> SymbolId \<Rightarrow> OrderId \<Rightarrow> Price \<Rightarrow> Quantity
    \<Rightarrow> MatchingEngine \<Rightarrow> MatchingEngine \<times> GatewayResult" where
  "gw_modify config symbol i new_price new_quantity e =
     (if \<not> has_symbol symbol e then (e, gr_reject UnknownSymbol)
      else if \<not> me_contains symbol i e then (e, gr_reject UnknownOrder)
      else if new_quantity = 0 then
        let e' = me_modify symbol i new_price new_quantity e in (e', gr_accept (me_events e'))
      else
        let r = check_limit_values config new_price new_quantity
        in if r \<noteq> NoReason then (e, gr_reject r)
           else if \<not> me_can_apply_modify symbol i new_price new_quantity e then (e, gr_reject StorageExhausted)
           else let e' = me_modify symbol i new_price new_quantity e in (e', gr_accept (me_events e')))"

definition preview_new_order :: "RiskConfig \<Rightarrow> SymbolId \<Rightarrow> OrderId \<Rightarrow> Side \<Rightarrow> Price \<Rightarrow> Quantity \<Rightarrow> OrderType
    \<Rightarrow> TimeInForce \<Rightarrow> MatchingEngine \<Rightarrow> NewOrderPreview" where
  "preview_new_order config symbol i side price quantity type tif e =
     (if \<not> has_symbol symbol e \<or> me_contains symbol i e then \<lparr>nop_accepted = False, nop_fill_count = 0\<rparr>
      else
        let reason = (if type = Market then check_market config side quantity
                      else check_limit config side price quantity)
        in if reason \<noteq> NoReason then \<lparr>nop_accepted = False, nop_fill_count = 0\<rparr>
           else if type = Limit \<and> \<not> me_can_store_limit symbol side price quantity tif e
           then \<lparr>nop_accepted = False, nop_fill_count = 0\<rparr>
           else \<lparr>nop_accepted = True, nop_fill_count = me_fill_count symbol side price type quantity e\<rparr>)"

section \<open>Facts\<close>

lemma gr_sel [simp]:
  "gr_accepted (gr_reject r) = False" "gr_reason (gr_reject r) = r" "gr_events (gr_reject r) = []"
  "gr_accepted (gr_accept evs) = True" "gr_reason (gr_accept evs) = NoReason" "gr_events (gr_accept evs) = evs"
  by (simp_all add: gr_reject_def gr_accept_def)

lemma check_limit_side: "check_limit config side p q = NoReason \<Longrightarrow> is_valid_side side"
  by (simp add: check_limit_def split: if_splits)

lemma check_market_side: "check_market config side q = NoReason \<Longrightarrow> is_valid_side side"
  by (simp add: check_market_def split: if_splits)

text \<open>A refused command leaves the engine untouched and carries no events.\<close>

lemma gw_reject_unchanged:
  "\<not> gr_accepted (snd (gw_new_limit config symbol i side p q tif e)) \<Longrightarrow>
     fst (gw_new_limit config symbol i side p q tif e) = e \<and> gr_events (snd (gw_new_limit config symbol i side p q tif e)) = []"
  "\<not> gr_accepted (snd (gw_new_market config symbol i side q e)) \<Longrightarrow>
     fst (gw_new_market config symbol i side q e) = e \<and> gr_events (snd (gw_new_market config symbol i side q e)) = []"
  "\<not> gr_accepted (snd (gw_cancel symbol i e)) \<Longrightarrow>
     fst (gw_cancel symbol i e) = e \<and> gr_events (snd (gw_cancel symbol i e)) = []"
  "\<not> gr_accepted (snd (gw_modify config symbol i p q e)) \<Longrightarrow>
     fst (gw_modify config symbol i p q e) = e \<and> gr_events (snd (gw_modify config symbol i p q e)) = []"
  by (auto simp: gw_new_limit_def gw_new_market_def gw_cancel_def gw_modify_def Let_def split: if_splits)

end
