(* ===== verification/Command_Model.thy ===== *)
theory Command_Model
  imports Order_Gateway
begin

text \<open>
  The recordable commands of \<^verbatim>\<open>include/qsl/replay/command.hpp\<close> and their dispatch to the gateway in
  \<^verbatim>\<open>include/qsl/replay/dispatch.hpp\<close>. Runs of commands are the setting for the properties of
  whole executions.
\<close>

datatype Command =
    RegisterSymbol string
  | NewLimit SymbolId OrderId Side Price Quantity TimeInForce
  | NewMarket SymbolId OrderId Side Quantity
  | Cancel SymbolId OrderId
  | Modify SymbolId OrderId Price Quantity

fun apply_command :: "RiskConfig \<Rightarrow> Command \<Rightarrow> MatchingEngine \<Rightarrow> MatchingEngine \<times> GatewayResult" where
  "apply_command config (RegisterSymbol name) e = (fst (register_symbol name e), gr_accept [])"
| "apply_command config (NewLimit symbol i side price quantity tif) e =
     gw_new_limit config symbol i side price quantity tif e"
| "apply_command config (NewMarket symbol i side quantity) e = gw_new_market config symbol i side quantity e"
| "apply_command config (Cancel symbol i) e = gw_cancel symbol i e"
| "apply_command config (Modify symbol i price quantity) e = gw_modify config symbol i price quantity e"

fun run_commands :: "RiskConfig \<Rightarrow> Command list \<Rightarrow> MatchingEngine \<Rightarrow> MatchingEngine \<times> GatewayResult list" where
  "run_commands config [] e = (e, [])"
| "run_commands config (c # cs) e =
     (let (e', r) = apply_command config c e; (e'', rs) = run_commands config cs e' in (e'', r # rs))"

end
