(* ===== verification/Engine_Spec.thy ===== *)
theory Engine_Spec
  imports Command_Model
begin

text \<open>
  The exchange as a specification: a map from symbols to the abstract books of
  \<^verbatim>\<open>Book_Spec\<close>, a registry and a sequence counter, with one transition per command. The engine
  behind the gateway implements it for every storage, as long as storage does not refuse; a
  step relation captures the numbering and routing of events, and both are lifted to runs.
\<close>

section \<open>The specified exchange\<close>

record SpecEngine =
  sp_registry :: SymbolRegistry
  sp_books :: "SymbolId \<rightharpoonup> SpecBook"
  sp_seq :: SeqNo

definition sp_new :: SpecEngine where
  "sp_new = \<lparr>sp_registry = \<lparr>reg_ids = Map.empty, reg_next = 0\<rparr>, sp_books = Map.empty, sp_seq = 0\<rparr>"

definition sp_emit :: "SymbolId \<Rightarrow> SpecBook \<Rightarrow> (SeqNo \<Rightarrow> EngineEvent) list \<Rightarrow> SpecEngine \<Rightarrow> SpecEngine \<times> GatewayResult" where
  "sp_emit symbol b fs s =
     (s\<lparr>sp_books := (sp_books s)(symbol \<mapsto> b), sp_seq := sp_seq s + of_nat (length fs)\<rparr>,
      gr_accept (stamp (sp_seq s) fs))"

fun spec_command :: "RiskConfig \<Rightarrow> Command \<Rightarrow> SpecEngine \<Rightarrow> SpecEngine \<times> GatewayResult" where
  "spec_command config (RegisterSymbol name) s =
     (let (reg, i) = reg_intern name (sp_registry s)
      in (s\<lparr>sp_registry := reg,
            sp_books := (if sp_books s i = None then (sp_books s)(i \<mapsto> spec_empty) else sp_books s)\<rparr>,
          gr_accept []))"
| "spec_command config (NewLimit symbol i side price quantity tif) s =
     (case sp_books s symbol of
        None \<Rightarrow> (s, gr_reject UnknownSymbol)
      | Some b \<Rightarrow>
          if spec_contains i b then (s, gr_reject DuplicateOrderId)
          else if check_limit config side price quantity \<noteq> NoReason
          then (s, gr_reject (check_limit config side price quantity))
          else let (b', ts) = spec_add_limit i side price quantity tif b
               in sp_emit symbol b' ((\<lambda>n. OrderAccepted n symbol i) # map (trade_event symbol) ts) s)"
| "spec_command config (NewMarket symbol i side quantity) s =
     (case sp_books s symbol of
        None \<Rightarrow> (s, gr_reject UnknownSymbol)
      | Some b \<Rightarrow>
          if spec_contains i b then (s, gr_reject DuplicateOrderId)
          else if check_market config side quantity \<noteq> NoReason
          then (s, gr_reject (check_market config side quantity))
          else let (b', ts) = spec_add_market i side quantity b
               in sp_emit symbol b' ((\<lambda>n. OrderAccepted n symbol i) # map (trade_event symbol) ts) s)"
| "spec_command config (Cancel symbol i) s =
     (case sp_books s symbol of
        None \<Rightarrow> (s, gr_reject UnknownSymbol)
      | Some b \<Rightarrow>
          if \<not> spec_contains i b then (s, gr_reject UnknownOrder)
          else sp_emit symbol (spec_remove i b) [\<lambda>n. OrderCanceled n symbol i] s)"
| "spec_command config (Modify symbol i price quantity) s =
     (case sp_books s symbol of
        None \<Rightarrow> (s, gr_reject UnknownSymbol)
      | Some b \<Rightarrow>
          if \<not> spec_contains i b then (s, gr_reject UnknownOrder)
          else if quantity \<noteq> 0 \<and> check_limit_values config price quantity \<noteq> NoReason
          then (s, gr_reject (check_limit_values config price quantity))
          else let (b', ts) = spec_modify i price quantity b
               in sp_emit symbol b' ((\<lambda>n. OrderModified n symbol i) # map (trade_event symbol) ts) s)"

section \<open>The engine implements it\<close>

definition me_abs :: "MatchingEngine \<Rightarrow> SpecEngine" where
  "me_abs e = \<lparr>sp_registry = me_registry e, sp_books = (\<lambda>y. map_option ob_abs (find_book y e)), sp_seq = me_seq e\<rparr>"

definition me_room :: "MatchingEngine \<Rightarrow> bool" where
  "me_room e \<longleftrightarrow> (\<forall>(y, b)\<in>set (me_books e). ob_room b)"

lemma me_room_find: "me_room e \<Longrightarrow> find_book y e = Some b \<Longrightarrow> ob_room b"
  by (auto simp: me_room_def find_book_def dest: map_of_SomeD)

lemma me_abs_sel [simp]:
  "sp_registry (me_abs e) = me_registry e" "sp_seq (me_abs e) = me_seq e"
  "sp_books (me_abs e) y = map_option ob_abs (find_book y e)"
  by (simp_all add: me_abs_def)

lemma me_abs_apply:
  assumes "find_book symbol e = Some b"
  shows "(me_abs (me_apply symbol b' fs e), gr_accept (me_events (me_apply symbol b' fs e))) =
    sp_emit symbol (ob_abs b') fs (me_abs e)"
  using assms by (auto simp: sp_emit_def me_abs_def find_book_apply fun_eq_iff)

lemma sp_emit_eqI:
  "find_book symbol e = Some b \<Longrightarrow> ob_abs b' = sb \<Longrightarrow> fs = gs \<Longrightarrow>
     (me_abs (me_apply symbol b' fs e), gr_accept (me_events (me_apply symbol b' fs e))) = sp_emit symbol sb gs (me_abs e)"
  using me_abs_apply [of symbol e b b' fs] by simp

lemma gw_new_limit_spec:
  assumes "me_wf e" "me_room e" "gw_new_limit config symbol i side p q tif e = (e', r)" "gr_reason r \<noteq> StorageExhausted"
  shows "me_wf e' \<and> (me_abs e', r) = spec_command config (NewLimit symbol i side p q tif) (me_abs e)"
proof (cases "find_book symbol e")
  case None
  with assms show ?thesis by (auto simp: gw_new_limit_def has_symbol_def)
next
  case (Some b)
  note wf = me_wf_find [OF assms(1) Some] and room = me_room_find [OF assms(2) Some]
  have c: "me_contains symbol i e = spec_contains i (ob_abs b)"
    by (simp add: me_contains_def Some ob.contains_spec [OF wf])
  show ?thesis
  proof (cases "\<not> spec_contains i (ob_abs b) \<and> check_limit config side p q = NoReason")
    case True
    then have can: "ob_can_store_limit side p q tif b"
      using assms(3,4) Some c
      by (auto simp: gw_new_limit_def has_symbol_def me_can_store_limit_def split: if_splits)
    have e': "e' = me_new_limit symbol i side p q tif e" "r = gr_accept (me_events e')"
      using assms(3) Some c can True by (auto simp: gw_new_limit_def has_symbol_def me_can_store_limit_def Let_def)
    have vs: "is_valid_side side" using True check_limit_side by blast
    note spec = ob.add_limit_spec [OF wf room vs can, of i]
    have n: "me_new_limit symbol i side p q tif e =
        me_apply symbol (fst (ob_add_limit i side p q tif b))
          ((\<lambda>s. OrderAccepted s symbol i) # map (trade_event symbol) (snd (ob_add_limit i side p q tif b))) e"
      using True can by (simp add: me_new_limit_apply Some ob.contains_spec [OF wf])
    have "(me_abs e', r) = sp_emit symbol (fst (spec_add_limit i side p q tif (ob_abs b)))
        ((\<lambda>s. OrderAccepted s symbol i) # map (trade_event symbol) (snd (spec_add_limit i side p q tif (ob_abs b)))) (me_abs e)"
      unfolding e' n by (rule sp_emit_eqI [OF Some]) (use spec in \<open>simp_all add: prod_eq_iff\<close>)
    then show ?thesis
      using True spec me_wf_apply [OF assms(1)] e' n by (simp add: Some Let_def case_prod_unfold)
  next
    case False
    then show ?thesis using assms Some c by (auto simp: gw_new_limit_def has_symbol_def Let_def)
  qed
qed

lemma gw_new_market_spec:
  assumes "me_wf e" "gw_new_market config symbol i side q e = (e', r)"
  shows "me_wf e' \<and> (me_abs e', r) = spec_command config (NewMarket symbol i side q) (me_abs e)"
proof (cases "find_book symbol e")
  case None
  with assms show ?thesis by (auto simp: gw_new_market_def has_symbol_def)
next
  case (Some b)
  note wf = me_wf_find [OF assms(1) Some]
  have c: "me_contains symbol i e = spec_contains i (ob_abs b)"
    by (simp add: me_contains_def Some ob.contains_spec [OF wf])
  show ?thesis
  proof (cases "\<not> spec_contains i (ob_abs b) \<and> check_market config side q = NoReason")
    case True
    have e': "e' = me_new_market symbol i side q e" "r = gr_accept (me_events e')"
      using assms(2) Some c True by (auto simp: gw_new_market_def has_symbol_def Let_def)
    note spec = ob.add_market_spec [OF wf, of i side q]
    have n: "me_new_market symbol i side q e =
        me_apply symbol (fst (ob_add_market i side q b))
          ((\<lambda>s. OrderAccepted s symbol i) # map (trade_event symbol) (snd (ob_add_market i side q b))) e"
      using True by (simp add: me_new_market_apply Some ob.contains_spec [OF wf])
    have "(me_abs e', r) = sp_emit symbol (fst (spec_add_market i side q (ob_abs b)))
        ((\<lambda>s. OrderAccepted s symbol i) # map (trade_event symbol) (snd (spec_add_market i side q (ob_abs b)))) (me_abs e)"
      unfolding e' n by (rule sp_emit_eqI [OF Some]) (use spec in \<open>simp_all add: prod_eq_iff\<close>)
    then show ?thesis
      using True spec me_wf_apply [OF assms(1)] e' n by (simp add: Some Let_def case_prod_unfold)
  next
    case False
    then show ?thesis using assms Some c by (auto simp: gw_new_market_def has_symbol_def Let_def)
  qed
qed

lemma gw_cancel_spec:
  assumes "me_wf e" "gw_cancel symbol i e = (e', r)"
  shows "me_wf e' \<and> (me_abs e', r) = spec_command config (Cancel symbol i) (me_abs e)"
proof (cases "find_book symbol e")
  case None
  with assms show ?thesis by (auto simp: gw_cancel_def has_symbol_def)
next
  case (Some b)
  note wf = me_wf_find [OF assms(1) Some]
  have c: "me_contains symbol i e = spec_contains i (ob_abs b)"
    by (simp add: me_contains_def Some ob.contains_spec [OF wf])
  show ?thesis
  proof (cases "spec_contains i (ob_abs b)")
    case True
    have e': "e' = me_cancel symbol i e" "r = gr_accept (me_events e')"
      using assms(2) Some c True by (auto simp: gw_cancel_def has_symbol_def Let_def)
    have spec: "ob_wf (fst (ob_cancel i b))" "snd (ob_cancel i b)"
        "ob_abs (fst (ob_cancel i b)) = spec_remove i (ob_abs b)"
      using ob.cancel_spec [OF wf, of i] True by (simp_all add: spec_cancel_def)
    have n: "me_cancel symbol i e = me_apply symbol (fst (ob_cancel i b)) [\<lambda>s. OrderCanceled s symbol i] e"
      using spec by (simp add: me_cancel_apply Some)
    have "(me_abs e', r) = sp_emit symbol (spec_remove i (ob_abs b)) [\<lambda>s. OrderCanceled s symbol i] (me_abs e)"
      unfolding e' n by (rule sp_emit_eqI [OF Some]) (use spec in simp_all)
    then show ?thesis using True spec me_wf_apply [OF assms(1)] e' n by (simp add: Some)
  next
    case False
    then show ?thesis using assms Some c by (auto simp: gw_cancel_def has_symbol_def)
  qed
qed

lemma gw_modify_spec:
  assumes "me_wf e" "me_room e" "gw_modify config symbol i p q e = (e', r)" "gr_reason r \<noteq> StorageExhausted"
  shows "me_wf e' \<and> (me_abs e', r) = spec_command config (Modify symbol i p q) (me_abs e)"
proof (cases "find_book symbol e")
  case None
  with assms show ?thesis by (auto simp: gw_modify_def has_symbol_def)
next
  case (Some b)
  note wf = me_wf_find [OF assms(1) Some] and room = me_room_find [OF assms(2) Some]
  have c: "me_contains symbol i e = spec_contains i (ob_abs b)"
    by (simp add: me_contains_def Some ob.contains_spec [OF wf])
  show ?thesis
  proof (cases "spec_contains i (ob_abs b) \<and> (q = 0 \<or> check_limit_values config p q = NoReason)")
    case True
    then have can: "ob_can_apply_modify i p q b"
      using assms(3,4) Some c ob.can_apply_zero [OF wf]
      by (auto simp: gw_modify_def has_symbol_def me_can_apply_modify_def split: if_splits)
    have e': "e' = me_modify symbol i p q e" "r = gr_accept (me_events e')"
      using assms(3) Some c can True
      by (auto simp: gw_modify_def has_symbol_def me_can_apply_modify_def Let_def split: if_splits)
    note spec = ob.modify_spec [OF wf room can]
    have n: "me_modify symbol i p q e =
        me_apply symbol (fst (ob_modify i p q b))
          ((\<lambda>s. OrderModified s symbol i) # map (trade_event symbol) (snd (ob_modify i p q b))) e"
      using True can by (simp add: me_modify_apply Some ob.contains_spec [OF wf])
    have "(me_abs e', r) = sp_emit symbol (fst (spec_modify i p q (ob_abs b)))
        ((\<lambda>s. OrderModified s symbol i) # map (trade_event symbol) (snd (spec_modify i p q (ob_abs b)))) (me_abs e)"
      unfolding e' n by (rule sp_emit_eqI [OF Some]) (use spec in \<open>simp_all add: prod_eq_iff\<close>)
    then show ?thesis
      using True spec me_wf_apply [OF assms(1)] e' n by (auto simp: Some Let_def case_prod_unfold)
  next
    case False
    then show ?thesis using assms Some c by (auto simp: gw_modify_def has_symbol_def Let_def)
  qed
qed

lemma register_symbol_spec:
  assumes "me_wf e"
  shows "me_wf (fst (register_symbol name e)) \<and>
    (me_abs (fst (register_symbol name e)), gr_accept []) = spec_command config (RegisterSymbol name) (me_abs e)"
proof -
  have "std_map_sorted (<) (me_books e)" using assms by (simp add: me_wf_def)
  note f = sym_map.find_try_emplace [OF this]
  show ?thesis
    using me_wf_register [OF assms]
    by (auto simp: register_symbol_def me_abs_def find_book_def f Let_def case_prod_unfold fun_eq_iff
        split: option.split)
qed

text \<open>Every command that storage does not refuse does what the specification says.\<close>

lemma apply_command_spec:
  assumes "me_wf e" "me_room e" "apply_command config c e = (e', r)" "gr_reason r \<noteq> StorageExhausted"
  shows "me_wf e' \<and> (me_abs e', r) = spec_command config c (me_abs e)"
proof (cases c)
  case (RegisterSymbol name)
  with register_symbol_spec [OF assms(1), of name config] assms(3) show ?thesis by auto
next
  case (NewLimit symbol i side p q tif)
  with gw_new_limit_spec [OF assms(1,2) _ assms(4)] assms(3) show ?thesis by simp
next
  case (NewMarket symbol i side q)
  with gw_new_market_spec [OF assms(1)] assms(3) show ?thesis by simp
next
  case (Cancel symbol i)
  with gw_cancel_spec [OF assms(1)] assms(3) show ?thesis by simp
next
  case (Modify symbol i p q)
  with gw_modify_spec [OF assms(1,2) _ assms(4)] assms(3) show ?thesis by simp
qed

lemma apply_command_reject:
  assumes "apply_command config c e = (e', r)" "\<not> gr_accepted r"
  shows "e' = e \<and> gr_events r = []"
proof (cases c)
  case (RegisterSymbol name)
  with assms show ?thesis by auto
next
  case (NewLimit symbol i side p q tif)
  with gw_reject_unchanged(1) assms show ?thesis by (metis apply_command.simps(2) fst_conv snd_conv)
next
  case (NewMarket symbol i side q)
  with gw_reject_unchanged(2) assms show ?thesis by (metis apply_command.simps(3) fst_conv snd_conv)
next
  case (Cancel symbol i)
  with gw_reject_unchanged(3) assms show ?thesis by (metis apply_command.simps(4) fst_conv snd_conv)
next
  case (Modify symbol i p q)
  with gw_reject_unchanged(4) assms show ?thesis by (metis apply_command.simps(5) fst_conv snd_conv)
qed

lemma apply_command_accept_reason:
  "apply_command config c e = (e', r) \<Longrightarrow> gr_accepted r \<Longrightarrow> gr_reason r = NoReason"
  by (cases c)
    (auto simp: gw_new_limit_def gw_new_market_def gw_cancel_def gw_modify_def Let_def split: if_splits)

lemma apply_command_wf:
  assumes "me_wf e" "me_room e" "apply_command config c e = (e', r)"
  shows "me_wf e'"
proof (cases "gr_accepted r")
  case True
  then have "gr_reason r \<noteq> StorageExhausted" using apply_command_accept_reason [OF assms(3)] by simp
  with apply_command_spec [OF assms] show ?thesis by simp
next
  case False
  with apply_command_reject [OF assms(3)] assms(1) show ?thesis by simp
qed

subsection \<open>Book sizes\<close>

definition sp_small :: "nat \<Rightarrow> SpecEngine \<Rightarrow> bool" where
  "sp_small n s \<longleftrightarrow> (\<forall>y b. sp_books s y = Some b \<longrightarrow> length (spec_orders b) \<le> n)"

lemma sp_small_emit:
  "sp_small n s \<Longrightarrow> length (spec_orders b) \<le> Suc n \<Longrightarrow> sp_small (Suc n) (fst (sp_emit symbol b fs s))"
  by (auto simp: sp_small_def sp_emit_def le_SucI)

lemma sp_small_Suc: "sp_small n s \<Longrightarrow> sp_small (Suc n) s"
  by (auto simp: sp_small_def le_SucI)

lemma sp_small_command:
  assumes "sp_small n s"
  shows "sp_small (Suc n) (fst (spec_command config c s))"
proof -
  have le: "length (spec_orders b) \<le> n" if "sp_books s y = Some b" for y b
    using assms that by (simp add: sp_small_def)
  note Suc = sp_small_Suc [OF assms]
  show ?thesis
  proof (cases c)
    case (RegisterSymbol name)
    with Suc show ?thesis
      by (auto simp: sp_small_def case_prod_unfold Let_def spec_empty_def spec_orders_def)
  next
    case (NewLimit symbol i side p q tif)
    then show ?thesis
      using Suc le [of symbol] spec_add_limit_length [of i side p q tif]
      by (auto simp: case_prod_unfold Let_def split: option.split intro!: sp_small_emit [OF assms])
        (meson le_trans Suc_le_mono)
  next
    case (NewMarket symbol i side q)
    then show ?thesis
      using Suc le [of symbol] spec_add_market_length [of i side q]
      by (auto simp: case_prod_unfold Let_def split: option.split intro!: sp_small_emit [OF assms])
        (meson le_trans le_SucI)
  next
    case (Cancel symbol i)
    then show ?thesis
      using Suc le [of symbol] spec_remove_length [of i]
      by (auto split: option.split intro!: sp_small_emit [OF assms]) (meson le_trans le_SucI)
  next
    case (Modify symbol i p q)
    then show ?thesis
      using Suc le [of symbol] spec_modify_length [of i p q]
      by (auto simp: case_prod_unfold Let_def split: option.split intro!: sp_small_emit [OF assms])
        (meson le_trans Suc_le_mono)+
  qed
qed

lemma sp_small_room:
  assumes "me_wf e" "sp_small n (me_abs e)" "n < 2 ^ 31"
  shows "me_room e"
proof -
  have "distinct (map fst (me_books e))"
    using assms(1) sym_map.sorted_distinct by (auto simp: me_wf_def)
  then have "ob_wf b \<and> length (spec_orders (ob_abs b)) \<le> n" if "(y, b) \<in> set (me_books e)" for y b
    using assms(1,2) that by (auto simp: me_wf_def sp_small_def find_book_def)
  then show ?thesis
    unfolding me_room_def using ob_room_small ob.order_count_spec assms(3) by fastforce
qed

section \<open>Event numbering and routing\<close>

definition command_symbol :: "Command \<Rightarrow> SymbolId option" where
  "command_symbol c =
     (case c of RegisterSymbol _ \<Rightarrow> None | NewLimit y _ _ _ _ _ \<Rightarrow> Some y | NewMarket y _ _ _ \<Rightarrow> Some y
      | Cancel y _ \<Rightarrow> Some y | Modify y _ _ _ \<Rightarrow> Some y)"

text \<open>
  What one command does to the engine, whatever the storage: nothing, a registration, or one
  book replaced and events stamped with the next sequence numbers.
\<close>

inductive engine_step :: "SymbolId option \<Rightarrow> MatchingEngine \<Rightarrow> EngineEvent list \<Rightarrow> MatchingEngine \<Rightarrow> bool" where
  refuse: "engine_step y e [] e"
| clear: "engine_step y e [] (reset_events e)"
| register: "engine_step None e [] (fst (register_symbol name e))"
| emit: "find_book symbol e \<noteq> None \<Longrightarrow> \<forall>f\<in>set fs. stampable symbol f \<Longrightarrow>
    engine_step (Some symbol) e (stamp (me_seq e) fs) (me_apply symbol b fs e)"

inductive_cases engine_stepE: "engine_step y e evs e'"

lemma engine_step_ops:
  "engine_step (Some symbol) e (me_events (me_new_limit symbol i side p q tif e)) (me_new_limit symbol i side p q tif e)"
  "engine_step (Some symbol) e (me_events (me_new_market symbol i side q e)) (me_new_market symbol i side q e)"
  "engine_step (Some symbol) e (me_events (me_cancel symbol i e)) (me_cancel symbol i e)"
  "engine_step (Some symbol) e (me_events (me_modify symbol i p q e)) (me_modify symbol i p q e)"
proof -
  have emit: "engine_step (Some symbol) e (me_events (me_apply symbol b fs e)) (me_apply symbol b fs e)"
    if "find_book symbol e = Some b'" "\<forall>f\<in>set fs. stampable symbol f" for b b' fs
    using engine_step.emit [of symbol e fs b] that by simp
  have clear: "engine_step (Some symbol) e (me_events (reset_events e)) (reset_events e)"
    using engine_step.clear [of "Some symbol" e] by simp
  note [simp del] = me_apply_sel(2) reset_events_sel(2)
  show "engine_step (Some symbol) e (me_events (me_new_limit symbol i side p q tif e)) (me_new_limit symbol i side p q tif e)"
    "engine_step (Some symbol) e (me_events (me_new_market symbol i side q e)) (me_new_market symbol i side q e)"
    "engine_step (Some symbol) e (me_events (me_cancel symbol i e)) (me_cancel symbol i e)"
    "engine_step (Some symbol) e (me_events (me_modify symbol i p q e)) (me_modify symbol i p q e)"
    by (auto simp: me_apply_ops split: option.split intro!: emit clear)
qed

lemma apply_command_step:
  assumes "apply_command config c e = (e', r)"
  shows "engine_step (command_symbol c) e (gr_events r) e'"
  using assms engine_step_ops engine_step.refuse engine_step.register
  by (cases c)
    (auto simp: command_symbol_def gw_new_limit_def gw_new_market_def gw_cancel_def gw_modify_def Let_def
      split: if_splits)

lemma engine_step_seq:
  assumes "engine_step y e evs e'"
  shows "map seq_of evs = map (\<lambda>k. me_seq e + of_nat k) [1..<Suc (length evs)]"
    and "me_seq e' = me_seq e + of_nat (length evs)"
  using assms
  by (auto elim!: engine_stepE simp: seq_stamp register_symbol_def case_prod_unfold Let_def simp del: upt_Suc)

lemma engine_step_isolated:
  assumes "engine_step (Some y) e evs e'"
  shows "y' \<noteq> y \<Longrightarrow> find_book y' e' = find_book y' e"
    and "ev \<in> set evs \<Longrightarrow> symbol_of ev = y"
  using assms symbol_stamp by (auto elim!: engine_stepE simp: find_book_apply)

section \<open>Runs\<close>

fun spec_run :: "RiskConfig \<Rightarrow> Command list \<Rightarrow> SpecEngine \<Rightarrow> SpecEngine \<times> GatewayResult list" where
  "spec_run config [] s = (s, [])"
| "spec_run config (c # cs) s =
     (let (s', r) = spec_command config c s; (s'', rs) = spec_run config cs s' in (s'', r # rs))"

lemma sp_small_apply:
  assumes "me_wf e" "me_room e" "sp_small n (me_abs e)" "apply_command config c e = (e', r)"
  shows "sp_small (Suc n) (me_abs e')"
proof (cases "gr_accepted r")
  case True
  then have "gr_reason r \<noteq> StorageExhausted" using apply_command_accept_reason [OF assms(4)] by simp
  then have "me_abs e' = fst (spec_command config c (me_abs e))"
    using apply_command_spec [OF assms(1,2,4)] by (metis fst_conv)
  with sp_small_command [OF assms(3)] show ?thesis by simp
next
  case False
  with apply_command_reject [OF assms(4)] sp_small_Suc [OF assms(3)] show ?thesis by simp
qed

lemma run_commands_wf:
  assumes "me_wf e" "sp_small n (me_abs e)" "n + length cs < 2 ^ 31"
    "run_commands config cs e = (e', rs)"
  shows "me_wf e' \<and> sp_small (n + length cs) (me_abs e')"
  using assms
proof (induction cs arbitrary: e n rs)
  case (Cons c cs)
  obtain e1 r where a: "apply_command config c e = (e1, r)" by (cases "apply_command config c e")
  obtain rs' where run: "run_commands config cs e1 = (e', rs')"
    using Cons.prems(4) a by (auto split: prod.splits)
  have room: "me_room e" using sp_small_room [OF Cons.prems(1,2)] Cons.prems(3) by simp
  have "me_wf e1" by (rule apply_command_wf [OF Cons.prems(1) room a])
  moreover have "sp_small (Suc n) (me_abs e1)" by (rule sp_small_apply [OF Cons.prems(1) room Cons.prems(2) a])
  ultimately show ?case using Cons.IH [of e1 "Suc n" rs'] Cons.prems(3) run by simp
qed simp

lemma run_commands_spec:
  assumes "me_wf e" "sp_small n (me_abs e)" "n + length cs < 2 ^ 31"
    "run_commands config cs e = (e', rs)" "\<forall>r\<in>set rs. gr_reason r \<noteq> StorageExhausted"
  shows "(me_abs e', rs) = spec_run config cs (me_abs e)"
  using assms
proof (induction cs arbitrary: e n rs)
  case (Cons c cs)
  obtain e1 r where a: "apply_command config c e = (e1, r)" by (cases "apply_command config c e")
  obtain rs' where run: "run_commands config cs e1 = (e', rs')" and rs: "rs = r # rs'"
    using Cons.prems(4) a by (auto split: prod.splits)
  have room: "me_room e" using sp_small_room [OF Cons.prems(1,2)] Cons.prems(3) by simp
  have s: "me_wf e1" "(me_abs e1, r) = spec_command config c (me_abs e)"
    using apply_command_spec [OF Cons.prems(1) room a] Cons.prems(5) rs by simp_all
  have "sp_small (Suc n) (me_abs e1)" by (rule sp_small_apply [OF Cons.prems(1) room Cons.prems(2) a])
  then have "(me_abs e', rs') = spec_run config cs (me_abs e1)"
    using Cons.IH [OF s(1), of "Suc n" rs'] Cons.prems(3,5) run rs by simp
  then have "spec_run config cs (me_abs e1) = (me_abs e', rs')" by (rule sym)
  moreover have "spec_command config c (me_abs e) = (me_abs e1, r)" using s(2) by (rule sym)
  ultimately show ?case by (simp add: rs)
qed simp

lemma run_commands_seq:
  assumes "run_commands config cs e = (e', rs)"
  shows "map seq_of (concat (map gr_events rs)) =
      map (\<lambda>k. me_seq e + of_nat k) [1..<Suc (length (concat (map gr_events rs)))] \<and>
    me_seq e' = me_seq e + of_nat (length (concat (map gr_events rs)))"
  using assms
proof (induction cs arbitrary: e rs)
  case (Cons c cs)
  obtain e1 r where a: "apply_command config c e = (e1, r)" by (cases "apply_command config c e")
  obtain rs' where run: "run_commands config cs e1 = (e', rs')" and rs: "rs = r # rs'"
    using Cons.prems a by (auto split: prod.splits)
  note step = engine_step_seq [OF apply_command_step [OF a]]
  let ?n = "length (gr_events r)" and ?m = "length (concat (map gr_events rs'))"
  have "map (\<lambda>k. me_seq e1 + of_nat k) [1..<Suc ?m] = map (\<lambda>k. me_seq e + of_nat k) (map (\<lambda>k. k + ?n) [1..<Suc ?m])"
    by (simp add: step(2) ac_simps del: upt_Suc)
  also have "map (\<lambda>k. k + ?n) [1..<Suc ?m] = [Suc ?n..<Suc (?n + ?m)]"
    using map_plus_upt [of ?n 1 "Suc ?m"] by (simp add: add.commute del: upt_Suc)
  finally have "map seq_of (concat (map gr_events rs)) =
      map (\<lambda>k. me_seq e + of_nat k) ([1..<Suc ?n] @ [Suc ?n..<Suc (?n + ?m)])"
    using Cons.IH [OF run] step(1) by (simp add: rs del: upt_Suc)
  also have "[1..<Suc ?n] @ [Suc ?n..<Suc (?n + ?m)] = [1..<Suc (?n + ?m)]"
    using upt_add_eq_append [of 1 "Suc ?n" ?m] by simp
  finally show ?case using Cons.IH [OF run] step(2) by (simp add: rs add.assoc del: upt_Suc)
qed simp

lemma me_abs_new [simp]: "me_abs (me_new storage) = sp_new"
  by (simp add: me_abs_def me_new_def sp_new_def find_book_def)

lemma sp_small_new [simp]: "sp_small 0 sp_new"
  by (simp add: sp_small_def sp_new_def)

section \<open>Snapshots\<close>

definition spec_snapshot :: "SpecEngine \<Rightarrow> EngineSnapshot" where
  "spec_snapshot s =
     \<lparr>es_last_seq = sp_seq s,
      es_symbols = map (\<lambda>y. let b = the (sp_books s y) in
        \<lparr>ss_symbol = y, ss_best_bid = spec_best (s_bids b), ss_best_ask = spec_best (s_asks b),
         ss_order_count = length (spec_orders b), ss_bids = spec_levels (s_bids b), ss_asks = spec_levels (s_asks b)\<rparr>)
        (sorted_list_of_set (dom (sp_books s)))\<rparr>"

lemma me_snapshot_spec:
  assumes "me_wf e"
  shows "me_snapshot e = spec_snapshot (me_abs e)"
proof -
  have srt: "sorted_wrt (<) (map fst (me_books e))" using assms by (simp add: me_wf_def std_map_sorted_def)
  then have dist: "distinct (map fst (me_books e))" by (simp add: strict_sorted_iff)
  have "dom (sp_books (me_abs e)) = set (map fst (me_books e))"
    by (auto simp: dom_def find_book_def map_of_eq_None_iff image_iff me_abs_def)
  then have keys: "sorted_list_of_set (dom (sp_books (me_abs e))) = map fst (me_books e)"
    using srt by (metis strict_sorted_equal sorted_list_of_set.sorted_key_list_of_set_unique strict_sorted_iff sorted_list_of_set.idem_if_sorted_distinct)
  have "map_of (me_books e) y = Some b \<and> ob_wf b" if "(y, b) \<in> set (me_books e)" for y b
    using that assms dist by (auto simp: me_wf_def)
  then show ?thesis
    unfolding me_snapshot_def spec_snapshot_def keys
    by (auto simp: find_book_def ob.best_bid_spec ob.best_ask_spec ob.order_count_spec ob.bid_levels_spec
        ob.ask_levels_spec Let_def)
qed

end
