(* ===== verification/Engine_Properties.thy ===== *)
theory Engine_Properties
  imports Engine_Spec
begin

text \<open>
  Correctness of the engine behind its gateway: statements over runs of commands, for any
  storage, proved from the simulation of \<^verbatim>\<open>Engine_Spec\<close>.
\<close>

section \<open>A small run\<close>

definition sample_config :: RiskConfig where
  "sample_config = \<lparr>max_order_quantity = 1000, max_notional = 1000000\<rparr>"

definition sample_flow :: "Command list" where
  "sample_flow =
     [RegisterSymbol ''ABC'', RegisterSymbol ''XYZ'', NewLimit 0 1 Sell (Ticks 100) 5 GTC,
      NewLimit 1 2 Sell (Ticks 90) 5 GTC, NewLimit 0 3 Buy (Ticks 101) 3 GTC, Modify 0 1 (Ticks 99) 2,
      NewMarket 1 4 Buy 9, Cancel 0 8, NewLimit 0 5 Buy (Ticks 98) 7 GTC]"

definition sample_result :: "MatchingEngine \<times> GatewayResult list" where
  "sample_result = run_commands sample_config sample_flow (me_new Baseline)"

lemma sample_reasons:
  "map gr_reason (snd sample_result) =
     [NoReason, NoReason, NoReason, NoReason, NoReason, NoReason, NoReason, UnknownOrder, NoReason]"
  by code_simp

lemma sample_stored: "\<forall>r\<in>set (snd sample_result). gr_reason r \<noteq> StorageExhausted"
proof -
  have "StorageExhausted \<notin> set (map gr_reason (snd sample_result))" by (simp add: sample_reasons)
  then show ?thesis by (metis imageI list.set_map)
qed

lemma sample_run: "run_commands sample_config sample_flow (me_new Baseline) = (fst sample_result, snd sample_result)"
  by (simp add: sample_result_def)

lemma sample_length: "length sample_flow < 2 ^ 31"
  by (simp add: sample_flow_def)

section \<open>Runs of the engine\<close>

text \<open>C10: A run of fewer than 2^31 commands from a new engine, in which storage never ran out,
  answers every command exactly as the specification does and ends in the specified state; the
  engine is well-formed, and its snapshot is the specified one.\<close>

theorem engine_run_refines:
  assumes "length cs < 2 ^ 31" "run_commands config cs (me_new storage) = (e, rs)"
    and "\<forall>r\<in>set rs. gr_reason r \<noteq> StorageExhausted"
  shows "me_wf e \<and> (me_abs e, rs) = spec_run config cs sp_new \<and>
    me_snapshot e = spec_snapshot (fst (spec_run config cs sp_new))"
proof -
  have wf: "me_wf e"
    using run_commands_wf [of "me_new storage" 0 cs config e rs] assms(1,2) by simp
  have run: "(me_abs e, rs) = spec_run config cs sp_new"
    using run_commands_spec [of "me_new storage" 0 cs config e rs] assms by simp
  show ?thesis using wf run me_snapshot_spec [OF wf] by (metis fst_conv)
qed

theorem engine_run_refines_witness:
  "me_snapshot (fst sample_result) = spec_snapshot (fst (spec_run sample_config sample_flow sp_new))"
  using engine_run_refines [OF sample_length sample_run sample_stored] by blast

text \<open>C11: No book is ever crossed: after any run of fewer than 2^31 commands, for every symbol,
  the best bid is below the best ask, the resting order ids are distinct and every resting
  quantity is positive.\<close>

theorem books_never_crossed:
  assumes "length cs < 2 ^ 31" "run_commands config cs (me_new storage) = (e, rs)"
  shows "(\<forall>p q. me_best_bid symbol e = Some p \<longrightarrow> me_best_ask symbol e = Some q \<longrightarrow> p < q) \<and>
    distinct (map o_id (me_resting_orders symbol e)) \<and>
    (\<forall>ord\<in>set (me_resting_orders symbol e). 0 < o_quantity ord)"
proof (cases "find_book symbol e")
  case None
  then show ?thesis by (simp add: me_best_bid_def me_resting_orders_def)
next
  case (Some b)
  have "me_wf e" using run_commands_wf [of "me_new storage" 0 cs config e rs] assms by simp
  then have wf: "ob_wf b" using Some by (rule me_wf_find)
  have "spec_wf (ob_abs b)" by (rule ob.wf_spec [OF wf])
  then show ?thesis
    using ob.best_prices_uncrossed [OF wf] Some
    by (auto simp: me_best_bid_def me_best_ask_def me_resting_orders_def ob.resting_orders_spec [OF wf]
        spec_wf_def word_neq_0_conv)
qed

theorem books_never_crossed_witness:
  "me_best_bid 0 (fst sample_result) = Some (Ticks 98) \<and> me_best_ask 0 (fst sample_result) = Some (Ticks 99) \<and>
   Ticks 98 < Ticks 99"
proof -
  have "me_best_bid 0 (fst sample_result) = Some (Ticks 98)" "me_best_ask 0 (fst sample_result) = Some (Ticks 99)"
    by code_simp+
  with books_never_crossed [OF sample_length sample_run, of 0] show ?thesis by blast
qed

text \<open>C12: Events are numbered without gaps or repeats: the events of a run, over all symbols,
  carry the consecutive sequence numbers that follow the engine's last one.\<close>

theorem event_numbers_contiguous:
  assumes "run_commands config cs e = (e', rs)" "n = length (concat (map gr_events rs))"
  shows "map seq_of (concat (map gr_events rs)) = map (\<lambda>k. last_seq e + of_nat k) [1..<Suc n] \<and>
    last_seq e' = last_seq e + of_nat n"
  using run_commands_seq [OF assms(1)] by (simp add: assms(2) last_seq_def del: upt_Suc)

theorem event_numbers_contiguous_witness:
  "map seq_of (concat (map gr_events (snd sample_result))) = [1, 2, 3, 4, 5, 6, 7, 8]"
proof -
  have "8 = length (concat (map gr_events (snd sample_result)))" by code_simp
  note event_numbers_contiguous [OF sample_run this]
  then show ?thesis by (simp add: me_new_def last_seq_def upt_rec)
qed

text \<open>C13: Symbols are isolated: a command for one symbol leaves the book of every other symbol as
  it was, and every event it emits carries its own symbol.\<close>

theorem symbol_isolation:
  assumes "apply_command config c e = (e', r)" "command_symbol c = Some y"
  shows "(\<forall>y'. y' \<noteq> y \<longrightarrow> find_book y' e' = find_book y' e) \<and> (\<forall>ev\<in>set (gr_events r). symbol_of ev = y)"
  using engine_step_isolated [of y e "gr_events r" e'] apply_command_step [OF assms(1)] assms(2) by simp

theorem symbol_isolation_witness:
  "find_book 0 (fst (apply_command sample_config (NewLimit 1 9 Buy (Ticks 5) 1 GTC) (fst sample_result))) =
     find_book 0 (fst sample_result)"
  using symbol_isolation [OF prod.collapse [symmetric], of "NewLimit 1 9 Buy (Ticks 5) 1 GTC" 1 sample_config "fst sample_result"]
  by (simp add: command_symbol_def)

text \<open>C14: A refused command has no effect: the engine is untouched, no event is emitted, and the
  answer names a reason.\<close>

theorem refused_command_no_effect:
  assumes "apply_command config c e = (e', r)" "\<not> gr_accepted r"
  shows "e' = e \<and> gr_events r = [] \<and> gr_reason r \<noteq> NoReason"
proof -
  have "gr_reason r \<noteq> NoReason"
    using assms
    by (cases c)
      (auto simp: gw_new_limit_def gw_new_market_def gw_cancel_def gw_modify_def Let_def split: if_splits)
  with apply_command_reject [OF assms] show ?thesis by blast
qed

theorem refused_command_no_effect_witness:
  "fst (apply_command sample_config (Cancel 0 8) (fst sample_result)) = fst sample_result"
proof -
  have "\<not> gr_accepted (snd (apply_command sample_config (Cancel 0 8) (fst sample_result)))" by code_simp
  from refused_command_no_effect [OF prod.collapse [symmetric] this] show ?thesis by blast
qed

text \<open>C15: The pre-trade check of a limit order accepts exactly the orders with a valid side, a
  positive price, a positive quantity within the cap and price times quantity within the
  notional cap, over unbounded integers: the 64-bit arithmetic never overflows.\<close>

theorem limit_check_exact:
  "check_limit config side price quantity = NoReason \<longleftrightarrow>
     is_valid_side side \<and> 0 < sint (ticks price) \<and> 0 < quantity \<and> quantity \<le> max_order_quantity config \<and>
     sint (ticks price) * uint quantity \<le> uint (max_notional config)"
  unfolding check_limit_values_None [symmetric] by (simp add: check_limit_def)

end
