(* ===== verification/Endian.thy ===== *)
theory Endian
  imports Qsl_Prelude
begin

text \<open>
  \<^verbatim>\<open>include/qsl/protocol/endian.hpp\<close>: big-endian stores and loads by byte shifts. A buffer is a
  list of bytes and a pointer into it an offset; a store outside the buffer has no defined
  result, so the lemmas that read back carry the bound.
\<close>

unbundle bit_operations_syntax

section \<open>Definitions\<close>

definition write_at :: "nat \<Rightarrow> bytes \<Rightarrow> bytes \<Rightarrow> bytes" where
  "write_at off bs buf = take off buf @ bs @ drop (off + length bs) buf"

definition read_at :: "nat \<Rightarrow> nat \<Rightarrow> bytes \<Rightarrow> bytes" where
  "read_at off n buf = take n (drop off buf)"

text \<open>The store loop: the low byte goes last, the rest of the value is shifted right.\<close>

fun be_bytes :: "nat \<Rightarrow> 'a::len word \<Rightarrow> bytes" where
  "be_bytes 0 v = []"
| "be_bytes (Suc n) v = be_bytes n (drop_bit 8 v) @ [ucast v]"

definition store_be :: "nat \<Rightarrow> nat \<Rightarrow> 'a::len word \<Rightarrow> bytes \<Rightarrow> bytes" where
  "store_be sz off v buf = write_at off (be_bytes sz v) buf"

definition load_be_bytes :: "bytes \<Rightarrow> 'a::len word" where
  "load_be_bytes bs = foldl (\<lambda>v b. push_bit 8 v OR ucast b) 0 bs"

definition load_be :: "nat \<Rightarrow> nat \<Rightarrow> bytes \<Rightarrow> 'a::len word" where
  "load_be sz off buf = load_be_bytes (read_at off sz buf)"

definition store_byte :: "nat \<Rightarrow> byte \<Rightarrow> bytes \<Rightarrow> bytes" where
  "store_byte off b buf = buf[off := b]"

section \<open>Buffers\<close>

lemma length_be_bytes [simp]: "length (be_bytes n v) = n"
  by (induction n arbitrary: v) auto

lemma length_write_at [simp]: "off + length bs \<le> length buf \<Longrightarrow> length (write_at off bs buf) = length buf"
  by (simp add: write_at_def)

lemma length_store_be [simp]: "off + n \<le> length buf \<Longrightarrow> length (store_be n off v buf) = length buf"
  by (simp add: store_be_def)

lemma length_store_byte [simp]: "length (store_byte off b buf) = length buf"
  by (simp add: store_byte_def)

lemma read_write_same:
  "off + length bs \<le> length buf \<Longrightarrow> n = length bs \<Longrightarrow> read_at off n (write_at off bs buf) = bs"
  by (simp add: read_at_def write_at_def)

lemma nth_write_at:
  "off + length bs \<le> length buf \<Longrightarrow> i < length buf \<Longrightarrow>
     write_at off bs buf ! i = (if off \<le> i \<and> i < off + length bs then bs ! (i - off) else buf ! i)"
  by (auto simp: write_at_def nth_append)

lemma read_write_other:
  assumes "off' + n \<le> off \<or> off + length bs \<le> off'" "off + length bs \<le> length buf" "off' + n \<le> length buf"
  shows "read_at off' n (write_at off bs buf) = read_at off' n buf"
  using assms by (intro nth_equalityI) (auto simp: read_at_def nth_write_at)

lemma read_store_byte_other:
  assumes "off' + n \<le> off \<or> off < off'" "off' + n \<le> length buf"
  shows "read_at off' n (store_byte off b buf) = read_at off' n buf"
  using assms by (intro nth_equalityI) (auto simp: read_at_def store_byte_def nth_list_update)

lemma nth_store_byte_same [simp]: "off < length buf \<Longrightarrow> store_byte off b buf ! off = b"
  by (simp add: store_byte_def)

lemma nth_store_byte_other [simp]: "off \<noteq> i \<Longrightarrow> store_byte off b buf ! i = buf ! i"
  by (simp add: store_byte_def)

lemma nth_store_be_other:
  "i < off \<or> off + n \<le> i \<Longrightarrow> off + n \<le> length buf \<Longrightarrow> i < length buf \<Longrightarrow> store_be n off v buf ! i = buf ! i"
  by (auto simp: store_be_def nth_write_at)

section \<open>Round trip\<close>

lemma take_bit_step:
  fixes v :: "'a::len word"
  shows "push_bit 8 (take_bit n (drop_bit 8 v)) OR take_bit 8 v = take_bit (n + 8) v"
  by (rule bit_eqI) (auto simp: bit_simps)

lemma load_be_bytes_acc:
  fixes v acc :: "'a::len word"
  shows "foldl (\<lambda>v b. push_bit 8 v OR ucast b) acc (be_bytes n v) =
    push_bit (8 * n) acc OR take_bit (8 * n) v"
proof (induction n arbitrary: v)
  case (Suc n)
  have "ucast (ucast v :: byte) = take_bit 8 v"
    by (rule bit_eqI) (auto simp: bit_simps)
  then show ?case
    using take_bit_step [of "8 * n" v]
    by (simp add: Suc push_bit_or push_bit_push_bit or.assoc add.commute)
qed simp

lemma load_be_bytes_be_bytes:
  fixes v :: "'a::len word"
  assumes "LENGTH('a) = 8 * n"
  shows "load_be_bytes (be_bytes n v) = v"
  using load_be_bytes_acc [of 0 n v] assms by (simp add: load_be_bytes_def take_bit_word_eq_self)

lemma load_store_same [simp]:
  fixes v :: "'a::len word"
  assumes "LENGTH('a) = 8 * n" "off + n \<le> length buf"
  shows "load_be n off (store_be n off v buf) = v"
  using assms by (simp add: load_be_def store_be_def read_write_same load_be_bytes_be_bytes)

lemma load_store_other:
  assumes "off' + n' \<le> off \<or> off + n \<le> off'" "off + n \<le> length buf" "off' + n' \<le> length buf"
  shows "load_be n' off' (store_be n off v buf) = load_be n' off' buf"
  using assms by (simp add: load_be_def store_be_def read_write_other)

lemma load_store_byte_other:
  assumes "off' + n' \<le> off \<or> off < off'" "off' + n' \<le> length buf"
  shows "load_be n' off' (store_byte off b buf) = load_be n' off' buf"
  using assms by (simp add: load_be_def read_store_byte_other)

lemmas codec_simps = load_store_other load_store_byte_other nth_store_be_other

text \<open>Loads read only their own bytes.\<close>

lemma load_be_append: "off + n \<le> length xs \<Longrightarrow> load_be n off (xs @ ys) = load_be n off xs"
  by (simp add: load_be_def read_at_def)

lemma load_be_take: "off + n \<le> m \<Longrightarrow> load_be n off (take m xs) = load_be n off xs"
  by (simp add: load_be_def read_at_def drop_take take_take min_def)

end
