(* ===== verification/Codec.thy ===== *)
theory Codec
  imports Endian Core_Types
begin

text \<open>
  \<^verbatim>\<open>include/qsl/protocol/messages.hpp\<close> and \<^verbatim>\<open>src/protocol/codec.cpp\<close>: the wire messages, the 16-byte
  frame header and one encoder and decoder per message. The overloaded \<^verbatim>\<open>encode\<close> has one name per
  message here. A \<^verbatim>\<open>DecodeResult\<close> keeps a default-initialised value beside its error.
\<close>

section \<open>Messages (messages.hpp)\<close>

definition kProtocolVersion :: "16 word" where "kProtocolVersion = 1"
definition kHeaderSize :: nat where "kHeaderSize = 16"
definition kMaxBodyLen :: "32 word" where "kMaxBodyLen = 4096"

datatype MsgType =
    MT_NewOrder | MT_CancelOrder | MT_MdTrade | MT_MdTopOfBook | MT_Heartbeat | MT_HeartbeatAck
  | MT_Ack | MT_Reject | MT_Fill | OtherMsgType "16 word"

fun code_of_msg_type :: "MsgType \<Rightarrow> 16 word" where
  "code_of_msg_type MT_NewOrder = 1"
| "code_of_msg_type MT_CancelOrder = 2"
| "code_of_msg_type MT_MdTrade = 3"
| "code_of_msg_type MT_MdTopOfBook = 4"
| "code_of_msg_type MT_Heartbeat = 5"
| "code_of_msg_type MT_HeartbeatAck = 6"
| "code_of_msg_type MT_Ack = 7"
| "code_of_msg_type MT_Reject = 8"
| "code_of_msg_type MT_Fill = 9"
| "code_of_msg_type (OtherMsgType c) = c"

definition msg_type_of_code :: "16 word \<Rightarrow> MsgType" where
  "msg_type_of_code c =
     (if c = 1 then MT_NewOrder else if c = 2 then MT_CancelOrder else if c = 3 then MT_MdTrade
      else if c = 4 then MT_MdTopOfBook else if c = 5 then MT_Heartbeat else if c = 6 then MT_HeartbeatAck
      else if c = 7 then MT_Ack else if c = 8 then MT_Reject else if c = 9 then MT_Fill
      else OtherMsgType c)"

fun is_known :: "MsgType \<Rightarrow> bool" where
  "is_known (OtherMsgType _) = False"
| "is_known _ = True"

record MessageHeader =
  h_type :: MsgType
  h_version :: "16 word"
  h_body_len :: "32 word"
  h_seq_no :: SeqNo

record NewOrder =
  no_order_id :: OrderId
  no_symbol :: SymbolId
  no_price :: Price
  no_quantity :: Quantity
  no_side :: Side
  no_type :: OrderType
  no_tif :: TimeInForce

record CancelOrder =
  co_order_id :: OrderId
  co_symbol :: SymbolId

record Heartbeat = hb_token :: "64 word"
record HeartbeatAck = ha_token :: "64 word"

record Ack =
  ack_order_id :: OrderId
  ack_seq :: SeqNo

record Reject =
  rej_order_id :: OrderId
  rej_reason :: RejectReason

record Fill =
  fill_taker_id :: OrderId
  fill_maker_id :: OrderId
  fill_price :: Price
  fill_quantity :: Quantity
  fill_seq :: SeqNo

definition kNewOrderBodySize :: nat where "kNewOrderBodySize = 27"
definition kCancelOrderBodySize :: nat where "kCancelOrderBodySize = 12"
definition kHeartbeatBodySize :: nat where "kHeartbeatBodySize = 8"
definition kAckBodySize :: nat where "kAckBodySize = 16"
definition kRejectBodySize :: nat where "kRejectBodySize = 9"
definition kFillBodySize :: nat where "kFillBodySize = 36"

datatype DecodeError =
    NoError | Truncated | UnsupportedVersion | UnknownType | BodyTooLarge | BodyLengthMismatch | InvalidEnumValue

fun decode_error_to_string :: "DecodeError \<Rightarrow> string" where
  "decode_error_to_string NoError = ''None''"
| "decode_error_to_string Truncated = ''Truncated''"
| "decode_error_to_string UnsupportedVersion = ''UnsupportedVersion''"
| "decode_error_to_string UnknownType = ''UnknownType''"
| "decode_error_to_string BodyTooLarge = ''BodyTooLarge''"
| "decode_error_to_string BodyLengthMismatch = ''BodyLengthMismatch''"
| "decode_error_to_string InvalidEnumValue = ''InvalidEnumValue''"

record 'a DecodeResult =
  dr_error :: DecodeError
  dr_value :: 'a

definition dr_ok :: "'a DecodeResult \<Rightarrow> bool" where
  "dr_ok r \<longleftrightarrow> dr_error r = NoError"

definition decoded :: "'a \<Rightarrow> 'a DecodeResult" where
  "decoded v = \<lparr>dr_error = NoError, dr_value = v\<rparr>"

text \<open>\<^verbatim>\<open>{error, {}}\<close>: the value is default-initialised, that is all zero.\<close>

definition header_zero :: MessageHeader where
  "header_zero = \<lparr>h_type = OtherMsgType 0, h_version = 0, h_body_len = 0, h_seq_no = 0\<rparr>"

definition new_order_zero :: NewOrder where
  "new_order_zero = \<lparr>no_order_id = 0, no_symbol = 0, no_price = Ticks 0, no_quantity = 0, no_side = Buy,
     no_type = Limit, no_tif = GTC\<rparr>"

definition cancel_order_zero :: CancelOrder where
  "cancel_order_zero = \<lparr>co_order_id = 0, co_symbol = 0\<rparr>"

section \<open>Encoders and decoders (codec.cpp)\<close>

definition write_header :: "nat \<Rightarrow> MessageHeader \<Rightarrow> bytes \<Rightarrow> bytes" where
  "write_header p h buf =
     store_be 8 (p + 8) (h_seq_no h)
       (store_be 4 (p + 4) (h_body_len h)
         (store_be 2 (p + 2) (h_version h)
           (store_be 2 (p + 0) (code_of_msg_type (h_type h)) buf)))"

definition encode_new_order :: "NewOrder \<Rightarrow> SeqNo \<Rightarrow> bytes" where
  "encode_new_order msg seq =
     (let buf = replicate (kHeaderSize + kNewOrderBodySize) 0;
          buf = write_header 0 \<lparr>h_type = MT_NewOrder, h_version = kProtocolVersion,
                  h_body_len = of_nat kNewOrderBodySize, h_seq_no = seq\<rparr> buf;
          b = kHeaderSize;
          buf = store_be 8 (b + 0) (no_order_id msg) buf;
          buf = store_be 4 (b + 8) (no_symbol msg) buf;
          buf = store_be 8 (b + 12) (ticks (no_price msg)) buf;
          buf = store_be 4 (b + 20) (no_quantity msg) buf;
          buf = store_byte (b + 24) (byte_of_side (no_side msg)) buf;
          buf = store_byte (b + 25) (byte_of_order_type (no_type msg)) buf
      in store_byte (b + 26) (byte_of_tif (no_tif msg)) buf)"

definition encode_cancel_order :: "CancelOrder \<Rightarrow> SeqNo \<Rightarrow> bytes" where
  "encode_cancel_order msg seq =
     (let buf = replicate (kHeaderSize + kCancelOrderBodySize) 0;
          buf = write_header 0 \<lparr>h_type = MT_CancelOrder, h_version = kProtocolVersion,
                  h_body_len = of_nat kCancelOrderBodySize, h_seq_no = seq\<rparr> buf;
          b = kHeaderSize;
          buf = store_be 8 (b + 0) (co_order_id msg) buf
      in store_be 4 (b + 8) (co_symbol msg) buf)"

definition decode_header :: "bytes \<Rightarrow> MessageHeader DecodeResult" where
  "decode_header bs =
     (if length bs < kHeaderSize then \<lparr>dr_error = Truncated, dr_value = header_zero\<rparr>
      else
        let h = \<lparr>h_type = msg_type_of_code (load_be 2 0 bs), h_version = load_be 2 2 bs,
                 h_body_len = load_be 4 4 bs, h_seq_no = load_be 8 8 bs\<rparr>
        in if h_version h \<noteq> kProtocolVersion then \<lparr>dr_error = UnsupportedVersion, dr_value = h\<rparr>
           else if \<not> is_known (h_type h) then \<lparr>dr_error = UnknownType, dr_value = h\<rparr>
           else if h_body_len h > kMaxBodyLen then \<lparr>dr_error = BodyTooLarge, dr_value = h\<rparr>
           else decoded h)"

definition decode_new_order :: "bytes \<Rightarrow> NewOrder DecodeResult" where
  "decode_new_order frame =
     (let hr = decode_header frame; err = \<lambda>e. \<lparr>dr_error = e, dr_value = new_order_zero\<rparr>
      in if \<not> dr_ok hr then err (dr_error hr)
         else if h_type (dr_value hr) \<noteq> MT_NewOrder then err UnknownType
         else if h_body_len (dr_value hr) \<noteq> of_nat kNewOrderBodySize then err BodyLengthMismatch
         else if length frame < kHeaderSize + kNewOrderBodySize then err Truncated
         else
           let b = kHeaderSize;
               side = side_of_byte (frame ! (b + 24));
               type = order_type_of_byte (frame ! (b + 25));
               tif = tif_of_byte (frame ! (b + 26))
           in if \<not> is_valid_side side \<or> \<not> is_valid_order_type type \<or> \<not> is_valid_tif tif
              then err InvalidEnumValue
              else decoded \<lparr>no_order_id = load_be 8 (b + 0) frame, no_symbol = load_be 4 (b + 8) frame,
                     no_price = Ticks (load_be 8 (b + 12) frame), no_quantity = load_be 4 (b + 20) frame,
                     no_side = side, no_type = type, no_tif = tif\<rparr>)"

definition decode_cancel_order :: "bytes \<Rightarrow> CancelOrder DecodeResult" where
  "decode_cancel_order frame =
     (let hr = decode_header frame; err = \<lambda>e. \<lparr>dr_error = e, dr_value = cancel_order_zero\<rparr>
      in if \<not> dr_ok hr then err (dr_error hr)
         else if h_type (dr_value hr) \<noteq> MT_CancelOrder then err UnknownType
         else if h_body_len (dr_value hr) \<noteq> of_nat kCancelOrderBodySize then err BodyLengthMismatch
         else if length frame < kHeaderSize + kCancelOrderBodySize then err Truncated
         else decoded \<lparr>co_order_id = load_be 8 (kHeaderSize + 0) frame,
                       co_symbol = load_be 4 (kHeaderSize + 8) frame\<rparr>)"

text \<open>\<^verbatim>\<open>validate_typed\<close> returns the body pointer or sets the error; here the error alone.\<close>

definition validate_typed :: "bytes \<Rightarrow> MsgType \<Rightarrow> nat \<Rightarrow> DecodeError" where
  "validate_typed frame expected body_size =
     (let hr = decode_header frame
      in if \<not> dr_ok hr then dr_error hr
         else if h_type (dr_value hr) \<noteq> expected then UnknownType
         else if unat (h_body_len (dr_value hr)) \<noteq> body_size then BodyLengthMismatch
         else if length frame < kHeaderSize + body_size then Truncated
         else NoError)"

definition framed :: "MsgType \<Rightarrow> nat \<Rightarrow> bytes" where
  "framed type body_size =
     write_header 0 \<lparr>h_type = type, h_version = kProtocolVersion, h_body_len = of_nat body_size, h_seq_no = 0\<rparr>
       (replicate (kHeaderSize + body_size) 0)"

definition encode_heartbeat :: "Heartbeat \<Rightarrow> bytes" where
  "encode_heartbeat msg = store_be 8 kHeaderSize (hb_token msg) (framed MT_Heartbeat kHeartbeatBodySize)"

definition encode_heartbeat_ack :: "HeartbeatAck \<Rightarrow> bytes" where
  "encode_heartbeat_ack msg = store_be 8 kHeaderSize (ha_token msg) (framed MT_HeartbeatAck kHeartbeatBodySize)"

definition encode_ack :: "Ack \<Rightarrow> bytes" where
  "encode_ack msg =
     store_be 8 (kHeaderSize + 8) (ack_seq msg)
       (store_be 8 (kHeaderSize + 0) (ack_order_id msg) (framed MT_Ack kAckBodySize))"

definition encode_reject :: "Reject \<Rightarrow> bytes" where
  "encode_reject msg =
     store_byte (kHeaderSize + 8) (byte_of_reason (rej_reason msg))
       (store_be 8 (kHeaderSize + 0) (rej_order_id msg) (framed MT_Reject kRejectBodySize))"

definition encode_fill :: "Fill \<Rightarrow> bytes" where
  "encode_fill msg =
     (let buf = framed MT_Fill kFillBodySize; b = kHeaderSize;
          buf = store_be 8 (b + 0) (fill_taker_id msg) buf;
          buf = store_be 8 (b + 8) (fill_maker_id msg) buf;
          buf = store_be 8 (b + 16) (ticks (fill_price msg)) buf;
          buf = store_be 4 (b + 24) (fill_quantity msg) buf
      in store_be 8 (b + 28) (fill_seq msg) buf)"

definition decode_heartbeat :: "bytes \<Rightarrow> Heartbeat DecodeResult" where
  "decode_heartbeat frame =
     (let err = validate_typed frame MT_Heartbeat kHeartbeatBodySize
      in if err \<noteq> NoError then \<lparr>dr_error = err, dr_value = \<lparr>hb_token = 0\<rparr>\<rparr>
         else decoded \<lparr>hb_token = load_be 8 kHeaderSize frame\<rparr>)"

definition decode_heartbeat_ack :: "bytes \<Rightarrow> HeartbeatAck DecodeResult" where
  "decode_heartbeat_ack frame =
     (let err = validate_typed frame MT_HeartbeatAck kHeartbeatBodySize
      in if err \<noteq> NoError then \<lparr>dr_error = err, dr_value = \<lparr>ha_token = 0\<rparr>\<rparr>
         else decoded \<lparr>ha_token = load_be 8 kHeaderSize frame\<rparr>)"

definition decode_ack :: "bytes \<Rightarrow> Ack DecodeResult" where
  "decode_ack frame =
     (let err = validate_typed frame MT_Ack kAckBodySize
      in if err \<noteq> NoError then \<lparr>dr_error = err, dr_value = \<lparr>ack_order_id = 0, ack_seq = 0\<rparr>\<rparr>
         else decoded \<lparr>ack_order_id = load_be 8 (kHeaderSize + 0) frame, ack_seq = load_be 8 (kHeaderSize + 8) frame\<rparr>)"

definition decode_reject :: "bytes \<Rightarrow> Reject DecodeResult" where
  "decode_reject frame =
     (let err = validate_typed frame MT_Reject kRejectBodySize;
          zero = \<lparr>rej_order_id = 0, rej_reason = NoReason\<rparr>
      in if err \<noteq> NoError then \<lparr>dr_error = err, dr_value = zero\<rparr>
         else
           let reason = reason_of_byte (frame ! (kHeaderSize + 8))
           in if \<not> is_valid_reason reason then \<lparr>dr_error = InvalidEnumValue, dr_value = zero\<rparr>
              else decoded \<lparr>rej_order_id = load_be 8 (kHeaderSize + 0) frame, rej_reason = reason\<rparr>)"

definition decode_fill :: "bytes \<Rightarrow> Fill DecodeResult" where
  "decode_fill frame =
     (let err = validate_typed frame MT_Fill kFillBodySize; b = kHeaderSize
      in if err \<noteq> NoError
         then \<lparr>dr_error = err, dr_value = \<lparr>fill_taker_id = 0, fill_maker_id = 0, fill_price = Ticks 0,
                 fill_quantity = 0, fill_seq = 0\<rparr>\<rparr>
         else decoded \<lparr>fill_taker_id = load_be 8 (b + 0) frame, fill_maker_id = load_be 8 (b + 8) frame,
                       fill_price = Ticks (load_be 8 (b + 16) frame), fill_quantity = load_be 4 (b + 24) frame,
                       fill_seq = load_be 8 (b + 28) frame\<rparr>)"

lemmas codec_consts = kHeaderSize_def kProtocolVersion_def kMaxBodyLen_def kNewOrderBodySize_def
  kCancelOrderBodySize_def kHeartbeatBodySize_def kAckBodySize_def kRejectBodySize_def kFillBodySize_def

lemma msg_type_round [simp]: "is_known t \<Longrightarrow> msg_type_of_code (code_of_msg_type t) = t"
  by (cases t) (simp_all add: msg_type_of_code_def)

lemma is_known_code: "is_known (msg_type_of_code c) \<Longrightarrow> code_of_msg_type (msg_type_of_code c) = c"
  by (auto simp: msg_type_of_code_def)

lemma dr_ok_decoded [simp]: "dr_ok (decoded v)" "dr_value (decoded v) = v" "dr_error (decoded v) = NoError"
  by (simp_all add: dr_ok_def decoded_def)

lemma length_write_header [simp]: "p + 16 \<le> length buf \<Longrightarrow> length (write_header p h buf) = length buf"
  by (simp add: write_header_def)

lemma write_header_0:
  "write_header 0 h buf =
     store_be 8 8 (h_seq_no h) (store_be 4 4 (h_body_len h)
       (store_be 2 2 (h_version h) (store_be 2 0 (code_of_msg_type (h_type h)) buf)))"
  unfolding write_header_def add_0 ..

text \<open>A header survives every later store behind it.\<close>

lemma load_header:
  assumes "16 \<le> length buf"
  shows "load_be 2 0 (write_header 0 h buf) = code_of_msg_type (h_type h)"
    "load_be 2 2 (write_header 0 h buf) = h_version h"
    "load_be 4 4 (write_header 0 h buf) = h_body_len h"
    "load_be 8 8 (write_header 0 h buf) = h_seq_no h"
  using assms by (simp_all add: write_header_0 load_store_other)

lemma decode_header_append:
  assumes "kHeaderSize \<le> length xs"
  shows "decode_header (xs @ ys) = decode_header xs"
  using assms by (simp add: decode_header_def load_be_append kHeaderSize_def)

definition header_ok :: "MsgType \<Rightarrow> nat \<Rightarrow> SeqNo \<Rightarrow> bytes \<Rightarrow> bool" where
  "header_ok t n seq bs \<longleftrightarrow>
     decode_header bs = decoded \<lparr>h_type = t, h_version = kProtocolVersion, h_body_len = of_nat n, h_seq_no = seq\<rparr>"

lemma header_okI:
  assumes "is_known t" "n \<le> 4096" "16 \<le> length bs" "load_be 2 0 bs = code_of_msg_type t" "load_be 2 2 bs = kProtocolVersion"
    "load_be 4 4 bs = (of_nat n :: 32 word)" "load_be 8 8 bs = seq"
  shows "header_ok t n seq bs"
proof -
  have "(of_nat n :: 32 word) \<le> 4096"
    using assms(2) by (simp add: word_le_nat_alt unsigned_of_nat take_bit_nat_eq_self)
  then show ?thesis
    using assms by (simp add: header_ok_def decode_header_def kHeaderSize_def kMaxBodyLen_def not_less Let_def)
qed

lemma encode_new_order_facts:
  "length (encode_new_order msg seq) = 43"
  "header_ok MT_NewOrder 27 seq (encode_new_order msg seq)"
  "load_be 8 16 (encode_new_order msg seq) = no_order_id msg"
  "load_be 4 24 (encode_new_order msg seq) = no_symbol msg"
  "load_be 8 28 (encode_new_order msg seq) = ticks (no_price msg)"
  "load_be 4 36 (encode_new_order msg seq) = no_quantity msg"
  "encode_new_order msg seq ! 40 = byte_of_side (no_side msg)"
  "encode_new_order msg seq ! 41 = byte_of_order_type (no_type msg)"
  "encode_new_order msg seq ! 42 = byte_of_tif (no_tif msg)"
  by (simp_all add: encode_new_order_def Let_def codec_consts codec_simps load_header header_okI)


lemma encode_cancel_order_facts:
  "length (encode_cancel_order msg seq) = 28"
  "header_ok MT_CancelOrder 12 seq (encode_cancel_order msg seq)"
  "load_be 8 16 (encode_cancel_order msg seq) = co_order_id msg"
  "load_be 4 24 (encode_cancel_order msg seq) = co_symbol msg"
  by (simp_all add: encode_cancel_order_def Let_def codec_consts codec_simps load_header header_okI)

lemma framed_facts:
  assumes "is_known t" "n \<le> 4096"
  shows "length (framed t n) = 16 + n" "header_ok t n 0 (framed t n)"
  using assms by (simp_all add: framed_def codec_consts load_header header_okI)

lemma header_ok_store:
  assumes "header_ok t n seq buf" "16 \<le> off" "off + k \<le> length buf"
  shows "header_ok t n seq (store_be k off v buf)"
proof -
  have "decode_header (store_be k off v buf) = decode_header buf"
    using assms(2,3) by (simp add: decode_header_def load_store_other kHeaderSize_def)
  with assms(1) show ?thesis by (simp add: header_ok_def)
qed

lemma header_ok_store_byte:
  assumes "header_ok t n seq buf" "16 \<le> off" "off < length buf"
  shows "header_ok t n seq (store_byte off v buf)"
proof -
  have "decode_header (store_byte off v buf) = decode_header buf"
    using assms(2,3) by (simp add: decode_header_def load_store_byte_other kHeaderSize_def)
  with assms(1) show ?thesis by (simp add: header_ok_def)
qed

lemmas header_ok_intros = header_ok_store header_ok_store_byte framed_facts

lemma encode_heartbeat_facts:
  "length (encode_heartbeat msg) = 24" "header_ok MT_Heartbeat 8 0 (encode_heartbeat msg)"
  "load_be 8 16 (encode_heartbeat msg) = hb_token msg"
  by (simp_all add: encode_heartbeat_def codec_consts codec_simps header_ok_intros)

lemma encode_heartbeat_ack_facts:
  "length (encode_heartbeat_ack msg) = 24" "header_ok MT_HeartbeatAck 8 0 (encode_heartbeat_ack msg)"
  "load_be 8 16 (encode_heartbeat_ack msg) = ha_token msg"
  by (simp_all add: encode_heartbeat_ack_def codec_consts codec_simps header_ok_intros)

lemma encode_ack_facts:
  "length (encode_ack msg) = 32" "header_ok MT_Ack 16 0 (encode_ack msg)"
  "load_be 8 16 (encode_ack msg) = ack_order_id msg" "load_be 8 24 (encode_ack msg) = ack_seq msg"
  by (simp_all add: encode_ack_def codec_consts codec_simps header_ok_intros)

lemma encode_reject_facts:
  "length (encode_reject msg) = 25" "header_ok MT_Reject 9 0 (encode_reject msg)"
  "load_be 8 16 (encode_reject msg) = rej_order_id msg" "encode_reject msg ! 24 = byte_of_reason (rej_reason msg)"
  by (simp_all add: encode_reject_def codec_consts codec_simps header_ok_intros)

lemma encode_fill_facts:
  "length (encode_fill msg) = 52" "header_ok MT_Fill 36 0 (encode_fill msg)"
  "load_be 8 16 (encode_fill msg) = fill_taker_id msg" "load_be 8 24 (encode_fill msg) = fill_maker_id msg"
  "load_be 8 32 (encode_fill msg) = ticks (fill_price msg)" "load_be 4 40 (encode_fill msg) = fill_quantity msg"
  "load_be 8 44 (encode_fill msg) = fill_seq msg"
  by (simp_all add: encode_fill_def Let_def codec_consts codec_simps header_ok_intros)

section \<open>The contract of a message codec\<close>

text \<open>
  What a stream reader needs from each message: its frames have one fixed size that the
  header announces, decoding gives the message back whatever follows the frame, and nothing
  shorter than a frame decodes.
\<close>

locale frame_codec =
  fixes encode :: "'m \<Rightarrow> bytes"
    and decode :: "bytes \<Rightarrow> 'm DecodeResult"
    and good :: "'m \<Rightarrow> bool"
    and kind :: MsgType
    and body :: nat
  assumes frame_length: "length (encode m) = kHeaderSize + body"
    and frame_header: "\<exists>seq. header_ok kind body seq (encode m)"
    and round_trip: "good m \<Longrightarrow> decode (encode m @ more_bytes) = decoded m"
    and decode_kind: "dr_ok (decode bs) \<Longrightarrow> dr_ok (decode_header bs) \<and> h_type (dr_value (decode_header bs)) = kind"
    and decode_short: "length bs < kHeaderSize + body \<Longrightarrow> \<not> dr_ok (decode bs)"
    and decode_good: "dr_ok (decode bs) \<Longrightarrow> good (dr_value (decode bs))"
begin

lemma decode_encode: "good m \<Longrightarrow> decode (encode m) = decoded m"
  using round_trip [of m "[]"] by simp

text \<open>Frames on a stream can be split in only one way.\<close>

lemma encode_inject:
  assumes "good m" "good m'" "encode m @ xs = encode m' @ ys"
  shows "m = m' \<and> xs = ys"
proof -
  have "encode m = encode m' \<and> xs = ys"
    using assms(3) frame_length by (auto dest: append_eq_append_conv [THEN iffD1, rotated])
  moreover from this have "decoded m = decoded m'"
    using decode_encode assms(1,2) by metis
  ultimately show ?thesis by (simp add: decoded_def)
qed

lemma truncated_frame: "k < kHeaderSize + body \<Longrightarrow> \<not> dr_ok (decode (take k (encode m)))"
  by (rule decode_short) (simp add: frame_length)

end

lemma validate_typed_append:
  "header_ok t n seq bs \<Longrightarrow> length bs = 16 + n \<Longrightarrow> n \<le> 4096 \<Longrightarrow> validate_typed (bs @ more_bytes) t n = NoError"
  by (simp add: validate_typed_def header_ok_def decode_header_append kHeaderSize_def Let_def
      unsigned_of_nat take_bit_nat_eq_self)

lemma validate_typed_ok:
  assumes "validate_typed bs t n = NoError"
  shows "dr_ok (decode_header bs)" "h_type (dr_value (decode_header bs)) = t" "16 + n \<le> length bs"
  using assms by (auto simp: validate_typed_def Let_def kHeaderSize_def dr_ok_def split: if_splits)

definition new_order_good :: "NewOrder \<Rightarrow> bool" where
  "new_order_good m \<longleftrightarrow> is_valid_side (no_side m) \<and> is_valid_order_type (no_type m) \<and> is_valid_tif (no_tif m)"

definition reject_good :: "Reject \<Rightarrow> bool" where
  "reject_good m \<longleftrightarrow> rej_reason m \<noteq> OtherReason (byte_of_reason (rej_reason m))"

lemma header_ok_decoded:
  "header_ok t n seq bs \<Longrightarrow> dr_ok (decode_header bs)"
  "header_ok t n seq bs \<Longrightarrow> h_type (dr_value (decode_header bs)) = t"
  "header_ok t n seq bs \<Longrightarrow> h_body_len (dr_value (decode_header bs)) = of_nat n"
  "header_ok t n seq bs \<Longrightarrow> h_seq_no (dr_value (decode_header bs)) = seq"
  by (simp_all add: header_ok_def)

lemma reason_round: "rej_reason m \<noteq> OtherReason (byte_of_reason (rej_reason m)) \<Longrightarrow>
    reason_of_byte (byte_of_reason (rej_reason m)) = rej_reason m \<and> is_valid_reason (rej_reason m)"
  by (cases "rej_reason m") (simp_all add: reason_of_byte_def is_valid_reason_def)

lemma valid_reason_good: "is_valid_reason (reason_of_byte b) \<Longrightarrow> reason_of_byte b \<noteq> OtherReason (byte_of_reason (reason_of_byte b))"
proof -
  assume v: "is_valid_reason (reason_of_byte b)"
  show ?thesis
  proof
    assume o: "reason_of_byte b = OtherReason (byte_of_reason (reason_of_byte b))"
    then have "b \<notin> {0, 1, 2, 3, 4, 5, 6, 7, 8, 9}"
      by (auto simp: reason_of_byte_def split: if_splits)
    moreover have "unat b \<le> 9"
      using v o by (auto simp: is_valid_reason_def reason_of_byte_def word_le_nat_alt split: if_splits)
    ultimately show False by (simp add: word_unat_eq_iff)
  qed
qed

lemma validate_typed_short: "length bs < 16 + n \<Longrightarrow> validate_typed bs t n \<noteq> NoError"
  using validate_typed_ok(3) [of bs t n] by auto

interpretation new_order_codec: frame_codec "\<lambda>m. encode_new_order m seq" decode_new_order new_order_good MT_NewOrder 27
  for seq
proof unfold_locales
  fix m more_bytes and bs :: bytes
  note f = encode_new_order_facts [where msg = m and seq = seq]
  show "length (encode_new_order m seq) = kHeaderSize + 27" by (simp add: f kHeaderSize_def)
  show "\<exists>s. header_ok MT_NewOrder 27 s (encode_new_order m seq)" using f(2) by blast
  show "decode_new_order (encode_new_order m seq @ more_bytes) = decoded m" if "new_order_good m"
  proof -
    have "decode_header (encode_new_order m seq @ more_bytes) = decode_header (encode_new_order m seq)"
      by (rule decode_header_append) (simp add: f kHeaderSize_def)
    then show ?thesis
      using that header_ok_decoded [OF f(2)]
      by (simp add: decode_new_order_def codec_consts f load_be_append nth_append Let_def new_order_good_def)
  qed
  assume ok: "dr_ok (decode_new_order bs)"
  then show "dr_ok (decode_header bs) \<and> h_type (dr_value (decode_header bs)) = MT_NewOrder"
    by (auto simp: decode_new_order_def Let_def dr_ok_def split: if_splits)
  show "new_order_good (dr_value (decode_new_order bs))"
    using ok by (auto simp: decode_new_order_def Let_def dr_ok_def new_order_good_def split: if_splits)
next
  fix bs :: bytes assume "length bs < kHeaderSize + 27"
  then show "\<not> dr_ok (decode_new_order bs)"
    by (auto simp: decode_new_order_def Let_def dr_ok_def codec_consts)
qed

interpretation cancel_order_codec: frame_codec "\<lambda>m. encode_cancel_order m seq" decode_cancel_order "\<lambda>_. True" MT_CancelOrder 12
  for seq
proof unfold_locales
  fix m more_bytes and bs :: bytes
  note f = encode_cancel_order_facts [where msg = m and seq = seq]
  show "length (encode_cancel_order m seq) = kHeaderSize + 12" by (simp add: f kHeaderSize_def)
  show "\<exists>s. header_ok MT_CancelOrder 12 s (encode_cancel_order m seq)" using f(2) by blast
  have "decode_header (encode_cancel_order m seq @ more_bytes) = decode_header (encode_cancel_order m seq)"
    by (rule decode_header_append) (simp add: f kHeaderSize_def)
  then show "decode_cancel_order (encode_cancel_order m seq @ more_bytes) = decoded m"
    using header_ok_decoded [OF f(2)]
    by (simp add: decode_cancel_order_def codec_consts f load_be_append Let_def)
  assume "dr_ok (decode_cancel_order bs)"
  then show "dr_ok (decode_header bs) \<and> h_type (dr_value (decode_header bs)) = MT_CancelOrder"
    by (auto simp: decode_cancel_order_def Let_def dr_ok_def split: if_splits)
next
  fix bs :: bytes assume "length bs < kHeaderSize + 12"
  then show "\<not> dr_ok (decode_cancel_order bs)"
    by (auto simp: decode_cancel_order_def Let_def dr_ok_def codec_consts)
qed simp

interpretation heartbeat_codec: frame_codec encode_heartbeat decode_heartbeat "\<lambda>_. True" MT_Heartbeat 8
proof unfold_locales
  fix m more_bytes and bs :: bytes
  note f = encode_heartbeat_facts [of m]
  show "length (encode_heartbeat m) = kHeaderSize + 8" by (simp add: f kHeaderSize_def)
  show "\<exists>s. header_ok MT_Heartbeat 8 s (encode_heartbeat m)" using f(2) by blast
  show "decode_heartbeat (encode_heartbeat m @ more_bytes) = decoded m"
    using validate_typed_append [OF f(2), of more_bytes]
    by (simp add: decode_heartbeat_def codec_consts f load_be_append Let_def)
  show "dr_ok (decode_header bs) \<and> h_type (dr_value (decode_header bs)) = MT_Heartbeat" if "dr_ok (decode_heartbeat bs)"
    using that validate_typed_ok by (auto simp: decode_heartbeat_def Let_def dr_ok_def split: if_splits)
  show "\<not> dr_ok (decode_heartbeat bs)" if "length bs < kHeaderSize + 8"
    using that by (simp add: decode_heartbeat_def codec_consts Let_def dr_ok_def validate_typed_short)
qed simp

interpretation heartbeat_ack_codec: frame_codec encode_heartbeat_ack decode_heartbeat_ack "\<lambda>_. True" MT_HeartbeatAck 8
proof unfold_locales
  fix m more_bytes and bs :: bytes
  note f = encode_heartbeat_ack_facts [of m]
  show "length (encode_heartbeat_ack m) = kHeaderSize + 8" by (simp add: f kHeaderSize_def)
  show "\<exists>s. header_ok MT_HeartbeatAck 8 s (encode_heartbeat_ack m)" using f(2) by blast
  show "decode_heartbeat_ack (encode_heartbeat_ack m @ more_bytes) = decoded m"
    using validate_typed_append [OF f(2), of more_bytes]
    by (simp add: decode_heartbeat_ack_def codec_consts f load_be_append Let_def)
  show "dr_ok (decode_header bs) \<and> h_type (dr_value (decode_header bs)) = MT_HeartbeatAck" if "dr_ok (decode_heartbeat_ack bs)"
    using that validate_typed_ok by (auto simp: decode_heartbeat_ack_def Let_def dr_ok_def split: if_splits)
  show "\<not> dr_ok (decode_heartbeat_ack bs)" if "length bs < kHeaderSize + 8"
    using that by (simp add: decode_heartbeat_ack_def codec_consts Let_def dr_ok_def validate_typed_short)
qed simp

interpretation ack_codec: frame_codec encode_ack decode_ack "\<lambda>_. True" MT_Ack 16
proof unfold_locales
  fix m more_bytes and bs :: bytes
  note f = encode_ack_facts [of m]
  show "length (encode_ack m) = kHeaderSize + 16" by (simp add: f kHeaderSize_def)
  show "\<exists>s. header_ok MT_Ack 16 s (encode_ack m)" using f(2) by blast
  show "decode_ack (encode_ack m @ more_bytes) = decoded m"
    using validate_typed_append [OF f(2), of more_bytes]
    by (simp add: decode_ack_def codec_consts f load_be_append Let_def)
  show "dr_ok (decode_header bs) \<and> h_type (dr_value (decode_header bs)) = MT_Ack" if "dr_ok (decode_ack bs)"
    using that validate_typed_ok by (auto simp: decode_ack_def Let_def dr_ok_def split: if_splits)
  show "\<not> dr_ok (decode_ack bs)" if "length bs < kHeaderSize + 16"
    using that by (simp add: decode_ack_def codec_consts Let_def dr_ok_def validate_typed_short)
qed simp

interpretation reject_codec: frame_codec encode_reject decode_reject "reject_good" MT_Reject 9
proof unfold_locales
  fix m more_bytes and bs :: bytes
  note f = encode_reject_facts [of m]
  show "length (encode_reject m) = kHeaderSize + 9" by (simp add: f kHeaderSize_def)
  show "\<exists>s. header_ok MT_Reject 9 s (encode_reject m)" using f(2) by blast
  show "decode_reject (encode_reject m @ more_bytes) = decoded m" if "reject_good m"
    using that validate_typed_append [OF f(2), of more_bytes] reason_round [of m]
    by (simp add: decode_reject_def codec_consts f load_be_append nth_append Let_def reject_good_def)
  show "dr_ok (decode_header bs) \<and> h_type (dr_value (decode_header bs)) = MT_Reject" if "dr_ok (decode_reject bs)"
    using that validate_typed_ok by (auto simp: decode_reject_def Let_def dr_ok_def split: if_splits)
  show "\<not> dr_ok (decode_reject bs)" if "length bs < kHeaderSize + 9"
    using that by (simp add: decode_reject_def codec_consts Let_def dr_ok_def validate_typed_short)
  show "reject_good (dr_value (decode_reject bs))" if "dr_ok (decode_reject bs)"
    using that valid_reason_good by (auto simp: decode_reject_def Let_def dr_ok_def reject_good_def split: if_splits)
qed

interpretation fill_codec: frame_codec encode_fill decode_fill "\<lambda>_. True" MT_Fill 36
proof unfold_locales
  fix m more_bytes and bs :: bytes
  note f = encode_fill_facts [of m]
  show "length (encode_fill m) = kHeaderSize + 36" by (simp add: f kHeaderSize_def)
  show "\<exists>s. header_ok MT_Fill 36 s (encode_fill m)" using f(2) by blast
  show "decode_fill (encode_fill m @ more_bytes) = decoded m"
    using validate_typed_append [OF f(2), of more_bytes]
    by (simp add: decode_fill_def codec_consts f load_be_append Let_def)
  show "dr_ok (decode_header bs) \<and> h_type (dr_value (decode_header bs)) = MT_Fill" if "dr_ok (decode_fill bs)"
    using that validate_typed_ok by (auto simp: decode_fill_def Let_def dr_ok_def split: if_splits)
  show "\<not> dr_ok (decode_fill bs)" if "length bs < kHeaderSize + 36"
    using that by (simp add: decode_fill_def codec_consts Let_def dr_ok_def validate_typed_short)
qed simp

end
