(* ===== verification/Session.thy ===== *)
theory Session
  imports Codec Order_Gateway
begin

text \<open>
  \<^verbatim>\<open>src/gateway/session.cpp\<close>: the byte-level protocol session. The references a \<^verbatim>\<open>FrameContext\<close> holds
  (gateway, logged-out flag, output buffer) are its fields here and come back updated; the
  risk configuration is the gateway's and is passed along. \<^verbatim>\<open>std::size_t\<close> sums that the source
  saturates are saturated at \<open>size_max\<close>.
\<close>

section \<open>Responses\<close>

datatype SessionStatus = Ok | OutputLimitExceeded

definition frame_bytes :: "nat \<Rightarrow> nat" where
  "frame_bytes body_bytes = kHeaderSize + body_bytes"

definition kHeartbeatAckFrameBytes :: nat where "kHeartbeatAckFrameBytes = frame_bytes kHeartbeatBodySize"
definition kAckFrameBytes :: nat where "kAckFrameBytes = frame_bytes kAckBodySize"
definition kRejectFrameBytes :: nat where "kRejectFrameBytes = frame_bytes kRejectBodySize"
definition kFillFrameBytes :: nat where "kFillFrameBytes = frame_bytes kFillBodySize"

definition has_space :: "nat \<Rightarrow> nat \<Rightarrow> nat \<Rightarrow> bool" where
  "has_space current add limit \<longleftrightarrow> current \<le> limit \<and> add \<le> limit - current"

definition add_saturating :: "nat \<Rightarrow> nat \<Rightarrow> nat" where
  "add_saturating a b = (if b > size_max - a then size_max else a + b)"

definition mul_saturating :: "nat \<Rightarrow> nat \<Rightarrow> nat" where
  "mul_saturating a b = (if a \<noteq> 0 \<and> b > size_max div a then size_max else a * b)"

definition result_wire_size :: "GatewayResult \<Rightarrow> nat" where
  "result_wire_size result =
     (if \<not> gr_accepted result then kRejectFrameBytes
      else foldl (\<lambda>sz ev. if is_trade ev then add_saturating sz kFillFrameBytes else sz)
             kAckFrameBytes (gr_events result))"

definition append_out :: "bytes \<Rightarrow> bytes \<Rightarrow> nat \<Rightarrow> bytes \<times> SessionStatus" where
  "append_out out bs max_output_bytes =
     (if \<not> has_space (length out) (length bs) max_output_bytes then (out, OutputLimitExceeded)
      else (out @ bs, Ok))"

fun fill_of :: "EngineEvent \<Rightarrow> Fill option" where
  "fill_of (TradeEvent s y taker maker p q) =
     Some \<lparr>fill_taker_id = taker, fill_maker_id = maker, fill_price = p, fill_quantity = q, fill_seq = s\<rparr>"
| "fill_of _ = None"

fun emit_fills :: "EngineEvent list \<Rightarrow> bytes \<Rightarrow> nat \<Rightarrow> bytes \<times> SessionStatus" where
  "emit_fills [] out max_output_bytes = (out, Ok)"
| "emit_fills (ev # evs) out max_output_bytes =
     (case fill_of ev of
        None \<Rightarrow> emit_fills evs out max_output_bytes
      | Some f \<Rightarrow>
          let (out', st) = append_out out (encode_fill f) max_output_bytes
          in if st \<noteq> Ok then (out', OutputLimitExceeded) else emit_fills evs out' max_output_bytes)"

definition emit_result :: "OrderId \<Rightarrow> GatewayResult \<Rightarrow> bytes \<Rightarrow> nat \<Rightarrow> bytes \<times> SessionStatus" where
  "emit_result order_id result out max_output_bytes =
     (if \<not> has_space (length out) (result_wire_size result) max_output_bytes then (out, OutputLimitExceeded)
      else if \<not> gr_accepted result then
        append_out out (encode_reject \<lparr>rej_order_id = order_id, rej_reason = gr_reason result\<rparr>) max_output_bytes
      else
        let ack_seq = (if gr_events result = [] then 0 else seq_of (hd (gr_events result)));
            (out', st) = append_out out (encode_ack \<lparr>ack_order_id = order_id, ack_seq = ack_seq\<rparr>) max_output_bytes
        in if st \<noteq> Ok then (out', OutputLimitExceeded)
           else emit_fills (gr_events result) out' max_output_bytes)"

definition ensure_new_order_budget :: "RiskConfig \<Rightarrow> MatchingEngine \<Rightarrow> NewOrder \<Rightarrow> bytes \<Rightarrow> nat \<Rightarrow> SessionStatus" where
  "ensure_new_order_budget config e ord out max_output_bytes =
     (let preview = preview_new_order config (no_symbol ord) (no_order_id ord) (no_side ord) (no_price ord)
                      (no_quantity ord) (no_type ord) (no_tif ord) e;
          required = (if nop_accepted preview
                      then add_saturating kAckFrameBytes (mul_saturating (nop_fill_count preview) kFillFrameBytes)
                      else kRejectFrameBytes)
      in if has_space (length out) required max_output_bytes then Ok else OutputLimitExceeded)"

section \<open>Frames\<close>

record FrameContext =
  fc_engine :: MatchingEngine
  fc_logged_out :: bool
  fc_out :: bytes
  fc_max :: nat

definition close_session :: "FrameContext \<Rightarrow> SessionStatus \<Rightarrow> FrameContext \<times> SessionStatus" where
  "close_session ctx status = (ctx\<lparr>fc_logged_out := True\<rparr>, status)"

definition close_for_malformed_body :: "FrameContext \<Rightarrow> FrameContext \<times> SessionStatus" where
  "close_for_malformed_body ctx = close_session ctx Ok"

definition close_for_output_limit :: "FrameContext \<Rightarrow> FrameContext \<times> SessionStatus" where
  "close_for_output_limit ctx = close_session ctx OutputLimitExceeded"

definition emit_or_close :: "FrameContext \<Rightarrow> OrderId \<Rightarrow> GatewayResult \<Rightarrow> FrameContext \<times> SessionStatus" where
  "emit_or_close ctx order_id result =
     (let (out', st) = emit_result order_id result (fc_out ctx) (fc_max ctx); ctx' = ctx\<lparr>fc_out := out'\<rparr>
      in if st = Ok then (ctx', Ok) else close_for_output_limit ctx')"

definition handle_new_order :: "RiskConfig \<Rightarrow> bytes \<Rightarrow> FrameContext \<Rightarrow> FrameContext \<times> SessionStatus" where
  "handle_new_order config frame ctx =
     (let request = decode_new_order frame; ord = dr_value request
      in if \<not> dr_ok request then close_for_malformed_body ctx
         else if fc_max ctx \<noteq> size_max \<and>
                 ensure_new_order_budget config (fc_engine ctx) ord (fc_out ctx) (fc_max ctx) \<noteq> Ok
         then close_for_output_limit ctx
         else
           let (e', result) =
                 (if no_type ord = Market
                  then gw_new_market config (no_symbol ord) (no_order_id ord) (no_side ord) (no_quantity ord) (fc_engine ctx)
                  else gw_new_limit config (no_symbol ord) (no_order_id ord) (no_side ord) (no_price ord)
                         (no_quantity ord) (no_tif ord) (fc_engine ctx))
           in emit_or_close (ctx\<lparr>fc_engine := e'\<rparr>) (no_order_id ord) result)"

definition handle_cancel_order :: "bytes \<Rightarrow> FrameContext \<Rightarrow> FrameContext \<times> SessionStatus" where
  "handle_cancel_order frame ctx =
     (let request = decode_cancel_order frame
      in if \<not> dr_ok request then close_for_malformed_body ctx
         else if \<not> has_space (length (fc_out ctx)) (max kAckFrameBytes kRejectFrameBytes) (fc_max ctx)
         then close_for_output_limit ctx
         else
           let (e', result) = gw_cancel (co_symbol (dr_value request)) (co_order_id (dr_value request)) (fc_engine ctx)
           in emit_or_close (ctx\<lparr>fc_engine := e'\<rparr>) (co_order_id (dr_value request)) result)"

definition handle_heartbeat :: "bytes \<Rightarrow> FrameContext \<Rightarrow> FrameContext \<times> SessionStatus" where
  "handle_heartbeat frame ctx =
     (let request = decode_heartbeat frame
      in if \<not> dr_ok request then close_for_malformed_body ctx
         else if \<not> has_space (length (fc_out ctx)) kHeartbeatAckFrameBytes (fc_max ctx) then close_for_output_limit ctx
         else
           let (out', st) = append_out (fc_out ctx) (encode_heartbeat_ack \<lparr>ha_token = hb_token (dr_value request)\<rparr>) (fc_max ctx)
           in (ctx\<lparr>fc_out := out'\<rparr>, st))"

definition handle_unexpected_message :: "FrameContext \<Rightarrow> FrameContext \<times> SessionStatus" where
  "handle_unexpected_message ctx = close_session ctx Ok"

definition process_frame :: "RiskConfig \<Rightarrow> bytes \<Rightarrow> FrameContext \<Rightarrow> FrameContext \<times> SessionStatus" where
  "process_frame config frame ctx =
     (case h_type (dr_value (decode_header frame)) of
        MT_NewOrder \<Rightarrow> handle_new_order config frame ctx
      | MT_CancelOrder \<Rightarrow> handle_cancel_order frame ctx
      | MT_Heartbeat \<Rightarrow> handle_heartbeat frame ctx
      | _ \<Rightarrow> handle_unexpected_message ctx)"

section \<open>The byte stream\<close>

text \<open>
  The loop of \<^verbatim>\<open>on_bytes\<close> over the bytes not yet consumed; it returns what is left in \<^verbatim>\<open>inbuf_\<close>
  after the final \<^verbatim>\<open>erase\<close>.
\<close>

function session_loop :: "RiskConfig \<Rightarrow> bytes \<Rightarrow> FrameContext \<Rightarrow> bytes \<times> FrameContext \<times> SessionStatus" where
  "session_loop config remaining ctx =
     (if fc_logged_out ctx then (remaining, ctx, Ok)
      else if length remaining < kHeaderSize then (remaining, ctx, Ok)
      else
        let header = decode_header remaining
        in if dr_error header \<noteq> NoError then (remaining, ctx\<lparr>fc_logged_out := True\<rparr>, Ok)
           else
             let total = kHeaderSize + unat (h_body_len (dr_value header))
             in if length remaining < total then (remaining, ctx, Ok)
                else
                  let (ctx', status) = process_frame config (take total remaining) ctx
                  in if status \<noteq> Ok then (remaining, ctx', status)
                     else session_loop config (drop total remaining) ctx')"
  by pat_completeness auto
termination
  by (relation "measure (\<lambda>(_, remaining, _). length remaining)") (auto simp: kHeaderSize_def)

declare session_loop.simps [simp del]

record Session =
  ses_inbuf :: bytes
  ses_logged_out :: bool

definition session_new :: Session where
  "session_new = \<lparr>ses_inbuf = [], ses_logged_out = False\<rparr>"

definition on_bytes :: "RiskConfig \<Rightarrow> bytes \<Rightarrow> bytes \<Rightarrow> nat \<Rightarrow> Session \<Rightarrow> MatchingEngine
    \<Rightarrow> Session \<times> MatchingEngine \<times> bytes \<times> SessionStatus" where
  "on_bytes config input out max_output_bytes s e =
     (if ses_logged_out s then (s, e, out, Ok)
      else
        let (rest, ctx, status) =
              session_loop config (ses_inbuf s @ input)
                \<lparr>fc_engine = e, fc_logged_out = ses_logged_out s, fc_out = out, fc_max = max_output_bytes\<rparr>
        in (\<lparr>ses_inbuf = rest, ses_logged_out = fc_logged_out ctx\<rparr>, fc_engine ctx, fc_out ctx, status))"

text \<open>The overload without a limit collects the responses in a fresh buffer.\<close>

definition on_bytes_unbounded :: "RiskConfig \<Rightarrow> bytes \<Rightarrow> Session \<Rightarrow> MatchingEngine \<Rightarrow> Session \<times> MatchingEngine \<times> bytes" where
  "on_bytes_unbounded config input s e =
     (let (s', e', out, _) = on_bytes config input [] size_max s e in (s', e', out))"

end
