(* ===== verification/Session_Correct.thy ===== *)
theory Session_Correct
  imports Session Engine_Spec
begin

text \<open>
  Facts about the session: the preview it budgets with is exact, responses are emitted whole
  or not at all, a frame that does not fit is refused before the engine is touched, and the
  way the peer's bytes are cut into reads does not matter.
\<close>

section \<open>The preview is exact\<close>

lemma trades_stamp: "length (filter is_trade (stamp s (map (trade_event symbol) ts))) = length ts"
  by (induction ts arbitrary: s) (auto simp: trade_event_def)

lemma preview_limit:
  assumes "me_wf e" "me_room e" "gw_new_limit config symbol i side p q tif e = (e', r)"
    and "v = preview_new_order config symbol i side p q Limit tif e"
  shows "nop_accepted v = gr_accepted r"
    and "gr_accepted r \<Longrightarrow> nop_fill_count v = length (filter is_trade (gr_events r))"
proof -
  show acc: "nop_accepted v = gr_accepted r"
    using assms(3,4) by (auto simp: preview_new_order_def gw_new_limit_def Let_def split: if_splits)
  assume a: "gr_accepted r"
  then obtain b where b: "find_book symbol e = Some b"
    using assms(3) by (auto simp: gw_new_limit_def has_symbol_def split: if_splits)
  note wf = me_wf_find [OF assms(1) b] and room = me_room_find [OF assms(2) b]
  have c: "\<not> ob_contains i b" "check_limit config side p q = NoReason" "ob_can_store_limit side p q tif b"
      "r = gr_accept (me_events (me_new_limit symbol i side p q tif e))"
    using a assms(3) b
    by (auto simp: gw_new_limit_def has_symbol_def me_contains_def me_can_store_limit_def Let_def split: if_splits)
  have "v = \<lparr>nop_accepted = True, nop_fill_count = me_fill_count symbol side p Limit q e\<rparr>"
    using assms(4) b c by (simp add: preview_new_order_def has_symbol_def me_contains_def me_can_store_limit_def)
  moreover have "me_fill_count symbol side p Limit q e = length (snd (ob_add_limit i side p q tif b))"
    using ob.fill_count_limit [OF wf room check_limit_side [OF c(2)] c(3,1)] b by (simp add: me_fill_count_def)
  moreover have "length (filter is_trade (gr_events r)) = length (snd (ob_add_limit i side p q tif b))"
    using b c by (simp add: me_new_limit_apply trades_stamp)
  ultimately show "nop_fill_count v = length (filter is_trade (gr_events r))" by simp
qed

lemma preview_market:
  assumes "me_wf e" "gw_new_market config symbol i side q e = (e', r)"
    and "v = preview_new_order config symbol i side p q Market tif e"
  shows "nop_accepted v = gr_accepted r"
    and "gr_accepted r \<Longrightarrow> nop_fill_count v = length (filter is_trade (gr_events r))"
proof -
  show acc: "nop_accepted v = gr_accepted r"
    using assms(2,3) by (auto simp: preview_new_order_def gw_new_market_def Let_def split: if_splits)
  assume a: "gr_accepted r"
  then obtain b where b: "find_book symbol e = Some b"
    using assms(2) by (auto simp: gw_new_market_def has_symbol_def split: if_splits)
  note wf = me_wf_find [OF assms(1) b]
  have c: "\<not> ob_contains i b" "check_market config side q = NoReason"
      "r = gr_accept (me_events (me_new_market symbol i side q e))"
    using a assms(2) b
    by (auto simp: gw_new_market_def has_symbol_def me_contains_def Let_def split: if_splits)
  have "v = \<lparr>nop_accepted = True, nop_fill_count = me_fill_count symbol side p Market q e\<rparr>"
    using assms(3) b c by (simp add: preview_new_order_def has_symbol_def me_contains_def)
  moreover have "me_fill_count symbol side p Market q e = length (snd (ob_add_market i side q b))"
    using ob.fill_count_market [OF wf check_market_side [OF c(2)] c(1), of p q] b by (simp add: me_fill_count_def)
  moreover have "length (filter is_trade (gr_events r)) = length (snd (ob_add_market i side q b))"
    using b c by (simp add: me_new_market_apply trades_stamp)
  ultimately show "nop_fill_count v = length (filter is_trade (gr_events r))" by simp
qed

section \<open>Sizes\<close>

lemmas session_consts = kHeartbeatAckFrameBytes_def kAckFrameBytes_def kRejectFrameBytes_def kFillFrameBytes_def
  frame_bytes_def codec_consts

lemma add_saturating_min: "a \<le> size_max \<Longrightarrow> add_saturating a b = min size_max (a + b)"
  by (auto simp: add_saturating_def)

lemma mul_saturating_min: "mul_saturating a b = min size_max (a * b)"
proof (cases "a = 0")
  case False
  then have "b > size_max div a \<longleftrightarrow> size_max < a * b"
    by (simp add: div_less_iff_less_mult mult.commute)
  then show ?thesis using False by (auto simp: mul_saturating_def)
qed (simp add: mul_saturating_def)

lemma wire_size_acc:
  "a \<le> size_max \<Longrightarrow>
   foldl (\<lambda>sz ev. if is_trade ev then add_saturating sz kFillFrameBytes else sz) a evs =
     min size_max (a + 52 * length (filter is_trade evs))"
  by (induction evs arbitrary: a) (auto simp: add_saturating_min session_consts)

lemma result_wire_size_accepted:
  "gr_accepted r \<Longrightarrow> result_wire_size r = min size_max (32 + 52 * length (filter is_trade (gr_events r)))"
  using wire_size_acc [of kAckFrameBytes "gr_events r"]
  by (simp add: result_wire_size_def) (simp add: session_consts size_max_def)

lemma fill_of_trade: "is_trade ev = (fill_of ev \<noteq> None)"
  by (cases ev) auto

lemma emit_fills_ok:
  assumes "length out + 52 * length (filter is_trade evs) \<le> m"
  shows "emit_fills evs out m = (out @ concat (map encode_fill (List.map_filter fill_of evs)), Ok)"
  using assms
proof (induction evs arbitrary: out)
  case (Cons ev evs)
  show ?case
  proof (cases "fill_of ev")
    case None
    with Cons show ?thesis by (simp add: fill_of_trade map_filter_simps)
  next
    case (Some f)
    then have t: "is_trade ev" by (simp add: fill_of_trade)
    have "append_out out (encode_fill f) m = (out @ encode_fill f, Ok)"
      using Cons.prems t by (auto simp: append_out_def has_space_def encode_fill_facts)
    moreover have "emit_fills evs (out @ encode_fill f) m =
        ((out @ encode_fill f) @ concat (map encode_fill (List.map_filter fill_of evs)), Ok)"
      using Cons.prems t by (intro Cons.IH) (simp add: encode_fill_facts)
    ultimately show ?thesis using Some by (simp add: map_filter_simps)
  qed
qed (simp add: map_filter_simps)

text \<open>The bytes a result becomes, and that they are emitted whole or not at all.\<close>

definition response :: "OrderId \<Rightarrow> GatewayResult \<Rightarrow> bytes" where
  "response i r =
     (if gr_accepted r
      then encode_ack \<lparr>ack_order_id = i, ack_seq = (if gr_events r = [] then 0 else seq_of (hd (gr_events r)))\<rparr> @
           concat (map encode_fill (List.map_filter fill_of (gr_events r)))
      else encode_reject \<lparr>rej_order_id = i, rej_reason = gr_reason r\<rparr>)"

lemma length_fills: "length (concat (map encode_fill (List.map_filter fill_of evs))) = 52 * length (filter is_trade evs)"
  by (induction evs) (auto simp: map_filter_simps encode_fill_facts fill_of_trade split: option.split)

lemma length_response:
  "length (response i r) = (if gr_accepted r then 32 + 52 * length (filter is_trade (gr_events r)) else 25)"
  by (simp add: response_def encode_ack_facts encode_reject_facts length_fills)

lemma emit_result_spec:
  assumes "m \<le> size_max" "m < size_max \<or> length (response i r) \<le> size_max"
  shows "emit_result i r out m =
    (if length out + length (response i r) \<le> m then (out @ response i r, Ok) else (out, OutputLimitExceeded))"
proof (cases "gr_accepted r")
  case False
  then show ?thesis
    by (auto simp: emit_result_def result_wire_size_def append_out_def has_space_def response_def
        encode_reject_facts session_consts)
next
  case True
  let ?n = "length (filter is_trade (gr_events r))"
  have space: "has_space (length out) (result_wire_size r) m \<longleftrightarrow> length out + (32 + 52 * ?n) \<le> m \<or>
      length out + size_max \<le> m"
    using assms by (auto simp: has_space_def result_wire_size_accepted [OF True])
  show ?thesis
  proof (cases "length out + (32 + 52 * ?n) \<le> m")
    case fits: True
    let ?ack = "encode_ack \<lparr>ack_order_id = i, ack_seq = (if gr_events r = [] then 0 else seq_of (hd (gr_events r)))\<rparr>"
    have "append_out out ?ack m = (out @ ?ack, Ok)"
      using fits by (simp add: append_out_def has_space_def encode_ack_facts)
    moreover have "emit_fills (gr_events r) (out @ ?ack) m =
        ((out @ ?ack) @ concat (map encode_fill (List.map_filter fill_of (gr_events r))), Ok)"
      using fits by (intro emit_fills_ok) (simp add: encode_ack_facts)
    ultimately show ?thesis
      using True fits space by (simp add: emit_result_def response_def encode_ack_facts length_fills Let_def)
  next
    case False
    then have "\<not> has_space (length out) (result_wire_size r) m"
      using True space assms by (auto simp: length_response)
    with False True show ?thesis by (simp add: emit_result_def length_response)
  qed
qed

section \<open>One frame\<close>

lemma close_sel [simp]:
  "close_session ctx st = (ctx\<lparr>fc_logged_out := True\<rparr>, st)"
  "close_for_malformed_body ctx = (ctx\<lparr>fc_logged_out := True\<rparr>, Ok)"
  "close_for_output_limit ctx = (ctx\<lparr>fc_logged_out := True\<rparr>, OutputLimitExceeded)"
  "handle_unexpected_message ctx = (ctx\<lparr>fc_logged_out := True\<rparr>, Ok)"
  by (simp_all add: close_session_def close_for_malformed_body_def close_for_output_limit_def
      handle_unexpected_message_def)

lemma append_out_bound: "append_out out bs m = (out', st) \<Longrightarrow> length out \<le> m \<Longrightarrow> length out' \<le> m"
  by (auto simp: append_out_def has_space_def split: if_splits)

lemma emit_fills_bound: "emit_fills evs out m = (out', st) \<Longrightarrow> length out \<le> m \<Longrightarrow> length out' \<le> m"
proof (induction evs arbitrary: out)
  case (Cons ev evs)
  then show ?case
    by (auto split: option.splits prod.splits if_splits dest: append_out_bound)
qed simp

lemma emit_result_bound: "emit_result i r out m = (out', st) \<Longrightarrow> length out \<le> m \<Longrightarrow> length out' \<le> m"
  by (auto simp: emit_result_def Let_def split: if_splits prod.splits dest: append_out_bound emit_fills_bound)

lemma emit_or_close_facts:
  assumes "emit_or_close ctx i r = (ctx', st)"
  shows "fc_engine ctx' = fc_engine ctx" "fc_max ctx' = fc_max ctx" "st \<noteq> Ok \<Longrightarrow> fc_logged_out ctx'"
    "st = Ok \<Longrightarrow> fc_logged_out ctx' = fc_logged_out ctx"
    "length (fc_out ctx) \<le> fc_max ctx \<Longrightarrow> length (fc_out ctx') \<le> fc_max ctx'"
  using assms emit_result_bound [of i r "fc_out ctx" "fc_max ctx"]
  by (auto simp: emit_or_close_def Let_def split: prod.splits if_splits)

lemma emit_or_close_fits:
  assumes "fc_max ctx < size_max" "length (fc_out ctx) + length (response i r) \<le> fc_max ctx"
  shows "emit_or_close ctx i r = (ctx\<lparr>fc_out := fc_out ctx @ response i r\<rparr>, Ok)"
  using assms by (simp add: emit_or_close_def emit_result_spec)

lemma process_frame_facts:
  assumes "process_frame config frame ctx = (ctx', st)"
  shows "fc_max ctx' = fc_max ctx" and "st \<noteq> Ok \<Longrightarrow> fc_logged_out ctx'"
    and "length (fc_out ctx) \<le> fc_max ctx \<Longrightarrow> length (fc_out ctx') \<le> fc_max ctx'"
proof -
  have n: "fc_max c' = fc_max c \<and> (s \<noteq> Ok \<longrightarrow> fc_logged_out c') \<and>
      (length (fc_out c) \<le> fc_max c \<longrightarrow> length (fc_out c') \<le> fc_max c')"
    if "handle_new_order config frame c = (c', s)" for c c' s
    using that
    by (auto simp: handle_new_order_def Let_def split: if_splits prod.splits dest: emit_or_close_facts)
  have c: "fc_max c' = fc_max c \<and> (s \<noteq> Ok \<longrightarrow> fc_logged_out c') \<and>
      (length (fc_out c) \<le> fc_max c \<longrightarrow> length (fc_out c') \<le> fc_max c')"
    if "handle_cancel_order frame c = (c', s)" for c c' s
    using that
    by (auto simp: handle_cancel_order_def Let_def split: if_splits prod.splits dest: emit_or_close_facts)
  have h: "fc_max c' = fc_max c \<and> (s \<noteq> Ok \<longrightarrow> fc_logged_out c') \<and>
      (length (fc_out c) \<le> fc_max c \<longrightarrow> length (fc_out c') \<le> fc_max c')"
    if "handle_heartbeat frame c = (c', s)" for c c' s
    using that
    by (auto simp: handle_heartbeat_def Let_def append_out_def has_space_def encode_heartbeat_ack_facts session_consts
        split: if_splits)
  show "fc_max ctx' = fc_max ctx" "st \<noteq> Ok \<Longrightarrow> fc_logged_out ctx'"
    "length (fc_out ctx) \<le> fc_max ctx \<Longrightarrow> length (fc_out ctx') \<le> fc_max ctx'"
    using assms n [of ctx ctx' st] c [of ctx ctx' st] h [of ctx ctx' st]
    by (auto simp: process_frame_def split: MsgType.splits)
qed

text \<open>
  A frame that would overflow the output is refused before the engine is touched: the budget
  computed from the preview is the size of the response.
\<close>

lemma budget_exact:
  assumes "me_wf e" "me_room e" "new_order_good ord"
    and "(e', r) = (if no_type ord = Market
       then gw_new_market config (no_symbol ord) (no_order_id ord) (no_side ord) (no_quantity ord) e
       else gw_new_limit config (no_symbol ord) (no_order_id ord) (no_side ord) (no_price ord) (no_quantity ord) (no_tif ord) e)"
    and "m < size_max"
  shows "(ensure_new_order_budget config e ord out m = Ok) = (length out + length (response i r) \<le> m)"
proof -
  let ?v = "preview_new_order config (no_symbol ord) (no_order_id ord) (no_side ord) (no_price ord)
      (no_quantity ord) (no_type ord) (no_tif ord) e"
  have v: "nop_accepted ?v = gr_accepted r"
      "gr_accepted r \<Longrightarrow> nop_fill_count ?v = length (filter is_trade (gr_events r))"
    using assms(3,4) preview_limit [OF assms(1,2) _ refl, of config "no_symbol ord" "no_order_id ord" "no_side ord"
        "no_price ord" "no_quantity ord" "no_tif ord" e' r]
      preview_market [OF assms(1) _ refl, of config "no_symbol ord" "no_order_id ord" "no_side ord"
        "no_quantity ord" e' r "no_price ord" "no_tif ord"]
    by (auto simp: new_order_good_def is_valid_order_type_def split: if_splits)
  show ?thesis
  proof (cases "gr_accepted r")
    case True
    have "add_saturating kAckFrameBytes (mul_saturating (nop_fill_count ?v) kFillFrameBytes) =
        min size_max (32 + 52 * length (filter is_trade (gr_events r)))"
      using v(2) [OF True] by (auto simp: add_saturating_def mul_saturating_min session_consts size_max_def)
    then show ?thesis
      using True v(1) assms(5)
      by (auto simp: ensure_new_order_budget_def has_space_def length_response Let_def)
  next
    case False
    then show ?thesis
      using v(1) by (auto simp: ensure_new_order_budget_def has_space_def length_response Let_def session_consts)
  qed
qed

lemma handle_new_order_limit:
  assumes "me_wf (fc_engine ctx)" "me_room (fc_engine ctx)" "fc_max ctx < size_max"
    and "handle_new_order config frame ctx = (ctx', OutputLimitExceeded)"
  shows "ctx' = ctx\<lparr>fc_logged_out := True\<rparr>"
proof (rule ccontr)
  assume no: "ctx' \<noteq> ctx\<lparr>fc_logged_out := True\<rparr>"
  let ?ord = "dr_value (decode_new_order frame)"
  obtain e' r where er: "(e', r) = (if no_type ?ord = Market
       then gw_new_market config (no_symbol ?ord) (no_order_id ?ord) (no_side ?ord) (no_quantity ?ord) (fc_engine ctx)
       else gw_new_limit config (no_symbol ?ord) (no_order_id ?ord) (no_side ?ord) (no_price ?ord) (no_quantity ?ord)
         (no_tif ?ord) (fc_engine ctx))"
    by (metis surj_pair)
  have ok: "dr_ok (decode_new_order frame)"
      and fits: "ensure_new_order_budget config (fc_engine ctx) ?ord (fc_out ctx) (fc_max ctx) = Ok"
      and emit: "emit_or_close (ctx\<lparr>fc_engine := e'\<rparr>) (no_order_id ?ord) r = (ctx', OutputLimitExceeded)"
    using assms(3,4) no
    by (auto simp: handle_new_order_def Let_def er [symmetric] split: if_splits)
  have "length (fc_out ctx) + length (response (no_order_id ?ord) r) \<le> fc_max ctx"
    using budget_exact [OF assms(1,2) new_order_codec.decode_good [OF ok] er assms(3)] fits by blast
  then show False using emit assms(3) by (simp add: emit_or_close_fits)
qed

lemma handle_cancel_order_limit:
  assumes "fc_max ctx < size_max" "handle_cancel_order frame ctx = (ctx', OutputLimitExceeded)"
  shows "ctx' = ctx\<lparr>fc_logged_out := True\<rparr>"
proof (rule ccontr)
  assume no: "ctx' \<noteq> ctx\<lparr>fc_logged_out := True\<rparr>"
  let ?c = "dr_value (decode_cancel_order frame)"
  obtain e' r where er: "gw_cancel (co_symbol ?c) (co_order_id ?c) (fc_engine ctx) = (e', r)" by force
  have fits: "has_space (length (fc_out ctx)) 32 (fc_max ctx)"
      and emit: "emit_or_close (ctx\<lparr>fc_engine := e'\<rparr>) (co_order_id ?c) r = (ctx', OutputLimitExceeded)"
    using assms(2) no by (auto simp: handle_cancel_order_def Let_def er session_consts split: if_splits)
  have "filter is_trade (gr_events r) = []"
    using er by (auto simp: gw_cancel_def me_cancel_apply Let_def split: if_splits option.splits)
  then have "length (response (co_order_id ?c) r) \<le> 32" by (simp add: length_response)
  then have "length (fc_out ctx) + length (response (co_order_id ?c) r) \<le> fc_max ctx"
    using fits unfolding has_space_def by linarith
  then show False using emit assms(1) by (simp add: emit_or_close_fits)
qed

lemma process_frame_limit:
  assumes "me_wf (fc_engine ctx)" "me_room (fc_engine ctx)" "fc_max ctx < size_max"
    and "process_frame config frame ctx = (ctx', OutputLimitExceeded)"
  shows "ctx' = ctx\<lparr>fc_logged_out := True\<rparr>"
  using assms(4) handle_new_order_limit [OF assms(1-3), of config frame] handle_cancel_order_limit [OF assms(3), of frame]
  by (auto simp: process_frame_def handle_heartbeat_def Let_def append_out_def has_space_def encode_heartbeat_ack_facts
      session_consts split: MsgType.splits if_splits)

section \<open>The stream\<close>

lemma session_loop_logged_out [simp]: "fc_logged_out ctx \<Longrightarrow> session_loop config bs ctx = (bs, ctx, Ok)"
  by (simp add: session_loop.simps)

lemma session_loop_short:
  "\<not> fc_logged_out ctx \<Longrightarrow> length bs < kHeaderSize \<Longrightarrow> session_loop config bs ctx = (bs, ctx, Ok)"
  by (simp add: session_loop.simps)

lemma session_loop_bad_header:
  "\<not> fc_logged_out ctx \<Longrightarrow> kHeaderSize \<le> length bs \<Longrightarrow> dr_error (decode_header bs) \<noteq> NoError \<Longrightarrow>
     session_loop config bs ctx = (bs, ctx\<lparr>fc_logged_out := True\<rparr>, Ok)"
  by (simp add: session_loop.simps)

lemma session_loop_partial:
  "\<not> fc_logged_out ctx \<Longrightarrow> kHeaderSize \<le> length bs \<Longrightarrow> dr_error (decode_header bs) = NoError \<Longrightarrow>
     length bs < kHeaderSize + unat (h_body_len (dr_value (decode_header bs))) \<Longrightarrow>
     session_loop config bs ctx = (bs, ctx, Ok)"
  by (simp add: session_loop.simps Let_def)

lemma session_loop_frame:
  "\<not> fc_logged_out ctx \<Longrightarrow> kHeaderSize \<le> length bs \<Longrightarrow> dr_error (decode_header bs) = NoError \<Longrightarrow>
     n = kHeaderSize + unat (h_body_len (dr_value (decode_header bs))) \<Longrightarrow> n \<le> length bs \<Longrightarrow>
     process_frame config (take n bs) ctx = (ctx1, st1) \<Longrightarrow>
     session_loop config bs ctx = (if st1 \<noteq> Ok then (bs, ctx1, st1) else session_loop config (drop n bs) ctx1)"
  by (subst session_loop.simps) (simp add: Let_def not_less)

text \<open>
  Feeding more bytes later continues where the loop stopped; once the session has closed,
  later bytes change nothing.
\<close>

lemma session_loop_append:
  assumes "session_loop config xs ctx = (rem, ctx', st)"
  shows "if fc_logged_out ctx' then \<exists>rem'. session_loop config (xs @ ys) ctx = (rem', ctx', st)
    else st = Ok \<and> session_loop config (xs @ ys) ctx = session_loop config (rem @ ys) ctx'"
  using assms
proof (induction "length xs" arbitrary: xs ctx rule: less_induct)
  case less
  let ?h = "decode_header xs"
  let ?n = "kHeaderSize + unat (h_body_len (dr_value ?h))"
  have h: "decode_header (xs @ ys) = ?h" if "kHeaderSize \<le> length xs"
    by (rule decode_header_append [OF that])
  consider "fc_logged_out ctx" | "\<not> fc_logged_out ctx" "length xs < kHeaderSize"
    | "\<not> fc_logged_out ctx" "kHeaderSize \<le> length xs" "dr_error ?h \<noteq> NoError"
    | "\<not> fc_logged_out ctx" "kHeaderSize \<le> length xs" "dr_error ?h = NoError" "length xs < ?n"
    | "\<not> fc_logged_out ctx" "kHeaderSize \<le> length xs" "dr_error ?h = NoError" "?n \<le> length xs"
    by fastforce
  then show ?case
  proof cases
    case 5
    obtain c1 s1 where p: "process_frame config (take ?n xs) ctx = (c1, s1)" by force
    have pa: "process_frame config (take ?n (xs @ ys)) ctx = (c1, s1)" using p 5(4) by simp
    note l = session_loop_frame [OF 5(1-3) refl 5(4) p]
    have la: "session_loop config (xs @ ys) ctx =
        (if s1 \<noteq> Ok then (xs @ ys, c1, s1) else session_loop config (drop ?n (xs @ ys)) c1)"
      using session_loop_frame [OF 5(1), of "xs @ ys" ?n config c1 s1] 5 h pa by simp
    show ?thesis
    proof (cases "s1 = Ok")
      case True
      have "length (drop ?n xs) < length xs" using 5(2) by (simp add: kHeaderSize_def)
      from less.hyps [OF this] l la True less.prems 5(4) show ?thesis by simp
    next
      case False
      with process_frame_facts(2) [OF p] l la less.prems show ?thesis by auto
    qed
  qed (use less.prems h in \<open>auto simp: session_loop_short session_loop_bad_header session_loop_partial\<close>)
qed

text \<open>What every frame keeps, the loop keeps.\<close>

lemma session_loop_invariant:
  assumes "\<And>frame ctx ctx' st. P ctx \<Longrightarrow> process_frame config frame ctx = (ctx', st) \<Longrightarrow> P ctx'"
    and "\<And>ctx. P ctx \<Longrightarrow> P (ctx\<lparr>fc_logged_out := True\<rparr>)"
    and "P ctx" "session_loop config xs ctx = (rem, ctx', st)"
  shows "P ctx'"
  using assms(3,4)
proof (induction "length xs" arbitrary: xs ctx rule: less_induct)
  case less
  let ?h = "decode_header xs"
  let ?n = "kHeaderSize + unat (h_body_len (dr_value ?h))"
  consider "fc_logged_out ctx" | "\<not> fc_logged_out ctx" "length xs < kHeaderSize"
    | "\<not> fc_logged_out ctx" "kHeaderSize \<le> length xs" "dr_error ?h \<noteq> NoError"
    | "\<not> fc_logged_out ctx" "kHeaderSize \<le> length xs" "dr_error ?h = NoError" "length xs < ?n"
    | "\<not> fc_logged_out ctx" "kHeaderSize \<le> length xs" "dr_error ?h = NoError" "?n \<le> length xs"
    by fastforce
  then show ?case
  proof cases
    case 5
    obtain c1 s1 where p: "process_frame config (take ?n xs) ctx = (c1, s1)" by force
    note l = session_loop_frame [OF 5(1-3) refl 5(4) p] and P1 = assms(1) [OF less.prems(1) p]
    have "length (drop ?n xs) < length xs" using 5(2) by (simp add: kHeaderSize_def)
    with less.hyps [OF this P1] l less.prems(2) P1 show ?thesis by (auto split: if_splits)
  qed (use less.prems assms(2) in \<open>auto simp: session_loop_short session_loop_bad_header session_loop_partial\<close>)
qed

lemma session_loop_max: "session_loop config xs ctx = (rem, ctx', st) \<Longrightarrow> fc_max ctx' = fc_max ctx"
  using session_loop_invariant [of "\<lambda>c. fc_max c = fc_max ctx" config ctx] process_frame_facts(1) by auto

lemma session_loop_bound:
  assumes "session_loop config xs ctx = (rem, ctx', st)" "length (fc_out ctx) \<le> fc_max ctx"
  shows "length (fc_out ctx') \<le> fc_max ctx"
  using session_loop_invariant [of "\<lambda>c. length (fc_out c) \<le> fc_max c" config ctx, OF _ _ assms(2,1)]
    process_frame_facts(3) session_loop_max [OF assms(1)] by auto

text \<open>
  Splitting the input into two reads gives the same engine, output, status and closing, and the
  same session while it is open. What a closed session has left in its buffer depends on the
  splitting; it is never read again.
\<close>

lemma on_bytes_append:
  assumes "on_bytes config xs out m s e = (s1, e1, out1, st1)" "on_bytes config ys out1 m s1 e1 = (s2, e2, out2, st2)"
    and "on_bytes config (xs @ ys) out m s e = (s3, e3, out3, st3)"
  shows "e3 = e2 \<and> out3 = out2 \<and> ses_logged_out s3 = ses_logged_out s2 \<and> (\<not> ses_logged_out s2 \<longrightarrow> s3 = s2) \<and>
    st3 = (if st1 \<noteq> Ok then st1 else st2)"
proof (cases "ses_logged_out s")
  case True
  with assms show ?thesis by (auto simp: on_bytes_def)
next
  case open_: False
  let ?ctx = "\<lparr>fc_engine = e, fc_logged_out = False, fc_out = out, fc_max = m\<rparr>"
  obtain rem c st where l: "session_loop config (ses_inbuf s @ xs) ?ctx = (rem, c, st)"
    by (cases "session_loop config (ses_inbuf s @ xs) ?ctx") auto
  have r1: "s1 = \<lparr>ses_inbuf = rem, ses_logged_out = fc_logged_out c\<rparr>" "e1 = fc_engine c" "out1 = fc_out c" "st1 = st"
    using assms(1) open_ l by (auto simp: on_bytes_def)
  show ?thesis
  proof (cases "fc_logged_out c")
    case True
    then obtain rem' where "session_loop config (ses_inbuf s @ xs @ ys) ?ctx = (rem', c, st)"
      using session_loop_append [OF l, of ys] by auto
    then show ?thesis using assms(2,3) open_ r1 True by (auto simp: on_bytes_def)
  next
    case False
    have "fc_max c = m" using session_loop_max [OF l] by simp
    then have c: "\<lparr>fc_engine = e1, fc_logged_out = False, fc_out = out1, fc_max = m\<rparr> = c"
      using False r1 by (cases c) simp
    obtain rem2 c2 st' where l2: "session_loop config (rem @ ys) c = (rem2, c2, st')"
      by (cases "session_loop config (rem @ ys) c") auto
    have l3: "session_loop config (ses_inbuf s @ xs @ ys) ?ctx = (rem2, c2, st')"
      using session_loop_append [OF l, of ys] False l2 by simp
    have "s2 = \<lparr>ses_inbuf = rem2, ses_logged_out = fc_logged_out c2\<rparr> \<and> e2 = fc_engine c2 \<and> out2 = fc_out c2 \<and> st2 = st'"
      using assms(2) r1(1) False l2 c by (simp add: on_bytes_def)
    moreover have "s3 = \<lparr>ses_inbuf = rem2, ses_logged_out = fc_logged_out c2\<rparr> \<and> e3 = fc_engine c2 \<and> out3 = fc_out c2 \<and> st3 = st'"
      using assms(3) open_ l3 by (simp add: on_bytes_def)
    moreover have "st1 = Ok" using session_loop_append [OF l, of ys] False r1(4) by simp
    ultimately show ?thesis by simp
  qed
qed

text \<open>Any number of reads, the replies collected in one buffer; the status is the first that is not \<open>Ok\<close>.\<close>

fun on_reads :: "RiskConfig \<Rightarrow> bytes list \<Rightarrow> bytes \<Rightarrow> nat \<Rightarrow> Session \<Rightarrow> MatchingEngine
    \<Rightarrow> Session \<times> MatchingEngine \<times> bytes \<times> SessionStatus" where
  "on_reads config [] out m s e = (s, e, out, Ok)"
| "on_reads config (chunk # chunks) out m s e =
     (let (s, e, out, st) = on_bytes config chunk out m s e; (s, e, out, st') = on_reads config chunks out m s e
      in (s, e, out, if st \<noteq> Ok then st else st'))"

lemma on_reads_concat:
  assumes "on_reads config chunks out m s e = (s2, e2, out2, st2)" "chunks \<noteq> []"
    and "on_bytes config (concat chunks) out m s e = (s3, e3, out3, st3)"
  shows "e3 = e2 \<and> out3 = out2 \<and> ses_logged_out s3 = ses_logged_out s2 \<and> (\<not> ses_logged_out s2 \<longrightarrow> s3 = s2) \<and> st3 = st2"
  using assms
proof (induction chunks arbitrary: out s e s2 e2 out2 st2 s3 e3 out3 st3)
  case (Cons x chunks)
  obtain s1 e1 out1 st1 where 1: "on_bytes config x out m s e = (s1, e1, out1, st1)" by (cases "on_bytes config x out m s e")
  obtain st' where 2: "on_reads config chunks out1 m s1 e1 = (s2, e2, out2, st')" and st2: "st2 = (if st1 \<noteq> Ok then st1 else st')"
    using Cons.prems(1) 1 by (auto split: prod.splits)
  show ?case
  proof (cases "chunks = []")
    case True
    then show ?thesis using Cons.prems(3) 1 2 st2 by simp
  next
    case False
    obtain s4 e4 out4 st4 where 4: "on_bytes config (concat chunks) out1 m s1 e1 = (s4, e4, out4, st4)"
      by (cases "on_bytes config (concat chunks) out1 m s1 e1")
    show ?thesis
      using Cons.IH [OF 2 False 4] on_bytes_append [OF 1 4] Cons.prems(3) st2 by auto
  qed
qed simp

end
