(* ===== verification/Command_Codec.thy ===== *)
theory Command_Codec
  imports Endian Command_Model
begin

text \<open>
  \<^verbatim>\<open>src/replay/command.cpp\<close>: the compact serialisation of commands, a tag byte followed by
  fixed-width fields. A C++ \<^verbatim>\<open>char\<close> is a HOL character; its byte is the unsigned value.
\<close>

section \<open>Definitions\<close>

datatype Tag = TagRegisterSymbol | TagNewLimit | TagNewMarket | TagCancel | TagModify

fun tag_byte :: "Tag \<Rightarrow> byte" where
  "tag_byte TagRegisterSymbol = 0"
| "tag_byte TagNewLimit = 1"
| "tag_byte TagNewMarket = 2"
| "tag_byte TagCancel = 3"
| "tag_byte TagModify = 4"

definition kNewLimitSize :: nat where "kNewLimitSize = 28"
definition kNewMarketSize :: nat where "kNewMarketSize = 18"
definition kCancelSize :: nat where "kCancelSize = 13"
definition kModifySize :: nat where "kModifySize = 25"

definition byte_of_char :: "char \<Rightarrow> byte" where
  "byte_of_char ch = of_nat (of_char ch)"

definition char_of_byte :: "byte \<Rightarrow> char" where
  "char_of_byte b = char_of (unat b)"

fun encode_command :: "Command \<Rightarrow> bytes" where
  "encode_command (RegisterSymbol name) = tag_byte TagRegisterSymbol # map byte_of_char name"
| "encode_command (NewLimit symbol i side price quantity tif) =
     (let out = replicate kNewLimitSize 0;
          out = store_byte 0 (tag_byte TagNewLimit) out;
          out = store_be 4 1 symbol out;
          out = store_be 8 5 i out;
          out = store_be 8 13 (ticks price) out;
          out = store_be 4 21 quantity out;
          out = store_byte 25 (byte_of_side side) out
      in store_byte 26 (byte_of_tif tif) out)"
| "encode_command (NewMarket symbol i side quantity) =
     (let out = replicate kNewMarketSize 0;
          out = store_byte 0 (tag_byte TagNewMarket) out;
          out = store_be 4 1 symbol out;
          out = store_be 8 5 i out;
          out = store_byte 13 (byte_of_side side) out
      in store_be 4 14 quantity out)"
| "encode_command (Cancel symbol i) =
     (let out = replicate kCancelSize 0;
          out = store_byte 0 (tag_byte TagCancel) out;
          out = store_be 4 1 symbol out
      in store_be 8 5 i out)"
| "encode_command (Modify symbol i price quantity) =
     (let out = replicate kModifySize 0;
          out = store_byte 0 (tag_byte TagModify) out;
          out = store_be 4 1 symbol out;
          out = store_be 8 5 i out;
          out = store_be 8 13 (ticks price) out
      in store_be 4 21 quantity out)"

definition decode_register_symbol :: "bytes \<Rightarrow> Command option" where
  "decode_register_symbol bs = Some (RegisterSymbol (map char_of_byte (drop 1 bs)))"

definition decode_new_limit :: "bytes \<Rightarrow> Command option" where
  "decode_new_limit bs =
     (if length bs < kNewLimitSize then None
      else
        let side = side_of_byte (bs ! 25); tif = tif_of_byte (bs ! 26)
        in if \<not> is_valid_side side \<or> \<not> is_valid_tif tif then None
           else Some (NewLimit (load_be 4 1 bs) (load_be 8 5 bs) side (Ticks (load_be 8 13 bs)) (load_be 4 21 bs) tif))"

definition decode_new_market :: "bytes \<Rightarrow> Command option" where
  "decode_new_market bs =
     (if length bs < kNewMarketSize then None
      else
        let side = side_of_byte (bs ! 13)
        in if \<not> is_valid_side side then None
           else Some (NewMarket (load_be 4 1 bs) (load_be 8 5 bs) side (load_be 4 14 bs)))"

definition decode_cancel :: "bytes \<Rightarrow> Command option" where
  "decode_cancel bs =
     (if length bs < kCancelSize then None else Some (Cancel (load_be 4 1 bs) (load_be 8 5 bs)))"

definition decode_modify :: "bytes \<Rightarrow> Command option" where
  "decode_modify bs =
     (if length bs < kModifySize then None
      else Some (Modify (load_be 4 1 bs) (load_be 8 5 bs) (Ticks (load_be 8 13 bs)) (load_be 4 21 bs)))"

definition decode_command :: "bytes \<Rightarrow> Command option" where
  "decode_command bs =
     (case bs of
        [] \<Rightarrow> None
      | t # _ \<Rightarrow>
          if t = tag_byte TagRegisterSymbol then decode_register_symbol bs
          else if t = tag_byte TagNewLimit then decode_new_limit bs
          else if t = tag_byte TagNewMarket then decode_new_market bs
          else if t = tag_byte TagCancel then decode_cancel bs
          else if t = tag_byte TagModify then decode_modify bs
          else None)"

section \<open>Round trip\<close>

fun command_good :: "Command \<Rightarrow> bool" where
  "command_good (NewLimit _ _ side _ _ tif) \<longleftrightarrow> is_valid_side side \<and> is_valid_tif tif"
| "command_good (NewMarket _ _ side _) \<longleftrightarrow> is_valid_side side"
| "command_good _ \<longleftrightarrow> True"

lemmas command_consts = kNewLimitSize_def kNewMarketSize_def kCancelSize_def kModifySize_def

lemma char_byte_roundtrip [simp]: "char_of_byte (byte_of_char ch) = ch"
proof -
  have "(of_char ch :: nat) < 256" by (metis of_char_of char_of_char mod_less_divisor zero_less_numeral)
  then have "unat (of_nat (of_char ch) :: byte) = of_char ch"
    by (simp add: unsigned_of_nat take_bit_nat_eq_self)
  then show ?thesis by (simp add: char_of_byte_def byte_of_char_def)
qed

lemma byte_char_roundtrip [simp]: "byte_of_char (char_of_byte b) = b"
proof -
  have "unat b < 256" using unsigned_less [of b, where ?'a = nat] by simp
  then show ?thesis by (simp add: char_of_byte_def byte_of_char_def of_char_of)
qed

lemma hd_command: "bs \<noteq> [] \<Longrightarrow> decode_command bs =
    (if bs ! 0 = 0 then decode_register_symbol bs else if bs ! 0 = 1 then decode_new_limit bs
     else if bs ! 0 = 2 then decode_new_market bs else if bs ! 0 = 3 then decode_cancel bs
     else if bs ! 0 = 4 then decode_modify bs else None)"
  by (cases bs) (simp_all add: decode_command_def)

lemma nonempty_length: "0 < length bs \<Longrightarrow> bs \<noteq> []"
  by auto

lemma encode_command_length:
  "length (encode_command c) =
     (case c of RegisterSymbol name \<Rightarrow> 1 + length name | NewLimit _ _ _ _ _ _ \<Rightarrow> 28 | NewMarket _ _ _ _ \<Rightarrow> 18
      | Cancel _ _ \<Rightarrow> 13 | Modify _ _ _ _ \<Rightarrow> 25)"
  by (cases c) (simp_all add: command_consts Let_def)

lemma command_round_trip:
  assumes "command_good c"
  shows "decode_command (encode_command c) = Some c"
proof -
  have ne: "encode_command c \<noteq> []"
    by (rule nonempty_length) (simp add: encode_command_length split: Command.split)
  show ?thesis
  proof (cases c)
    case (RegisterSymbol name)
    then show ?thesis by (simp add: decode_command_def decode_register_symbol_def comp_def)
  next
    case (NewLimit symbol i side price quantity tif)
    with assms ne show ?thesis
      by (simp add: hd_command) (simp add: decode_new_limit_def command_consts Let_def codec_simps)
  next
    case (NewMarket symbol i side quantity)
    with assms ne show ?thesis
      by (simp add: hd_command) (simp add: decode_new_market_def command_consts Let_def codec_simps)
  next
    case (Cancel symbol i)
    with assms ne show ?thesis
      by (simp add: hd_command) (simp add: decode_cancel_def command_consts Let_def codec_simps)
  next
    case (Modify symbol i price quantity)
    with assms ne show ?thesis
      by (simp add: hd_command) (simp add: decode_modify_def command_consts Let_def codec_simps)
  qed
qed

text \<open>Whatever bytes are decoded, the command has defined enum values.\<close>

lemma decode_command_good: "decode_command bs = Some c \<Longrightarrow> command_good c"
  by (auto simp: decode_command_def decode_register_symbol_def decode_new_limit_def decode_new_market_def
      decode_cancel_def decode_modify_def Let_def split: list.splits if_splits)

end
