(* ===== verification/Wire_Properties.thy ===== *)
theory Wire_Properties
  imports Session_Correct Command_Codec Engine_Properties
begin

text \<open>
  Correctness of the wire and log encodings and of the session that serves a connection.
\<close>

section \<open>Frames\<close>

text \<open>C16: A new-order frame decodes to the order it was encoded from, whatever bytes follow it;
  no proper prefix of it decodes; and frames that open the same stream are the same frame.\<close>

theorem new_order_frame_round_trip:
  assumes "new_order_good m" "new_order_good m'"
  shows "decode_new_order (encode_new_order m seq @ more_bytes) = decoded m \<and>
    (\<forall>k < length (encode_new_order m seq). \<not> dr_ok (decode_new_order (take k (encode_new_order m seq)))) \<and>
    (encode_new_order m seq @ xs = encode_new_order m' seq @ ys \<longrightarrow> m = m' \<and> xs = ys)"
  using new_order_codec.round_trip [OF assms(1)] new_order_codec.truncated_frame
    new_order_codec.encode_inject [OF assms]
  by (auto simp: new_order_codec.frame_length)

definition sample_order :: NewOrder where
  "sample_order = \<lparr>no_order_id = 7, no_symbol = 0, no_price = Ticks 99, no_quantity = 4, no_side = Buy,
     no_type = Limit, no_tif = GTC\<rparr>"

lemma sample_order_good: "new_order_good sample_order"
  by (simp add: sample_order_def new_order_good_def is_valid_side_def is_valid_order_type_def is_valid_tif_def)

theorem new_order_frame_round_trip_witness:
  "decode_new_order (encode_new_order sample_order 5 @ [1, 2]) = decoded sample_order"
  using new_order_frame_round_trip [OF sample_order_good sample_order_good, of 5 "[1, 2]"] by blast

text \<open>C17: Every reply a session sends decodes to the message it was encoded from, whatever bytes
  follow it.\<close>

theorem reply_frames_round_trip:
  assumes "reject_good rejection"
  shows "decode_ack (encode_ack ack @ more_bytes) = decoded ack \<and>
    decode_reject (encode_reject rejection @ more_bytes) = decoded rejection \<and>
    decode_fill (encode_fill fill @ more_bytes) = decoded fill \<and>
    decode_heartbeat_ack (encode_heartbeat_ack heartbeat @ more_bytes) = decoded heartbeat"
  using ack_codec.round_trip reject_codec.round_trip [OF assms] fill_codec.round_trip heartbeat_ack_codec.round_trip
  by simp

theorem reply_frames_round_trip_witness:
  "decode_reject (encode_reject \<lparr>rej_order_id = 7, rej_reason = UnknownOrder\<rparr> @ [3]) =
     decoded \<lparr>rej_order_id = 7, rej_reason = UnknownOrder\<rparr>"
  using reply_frames_round_trip [where rejection = "\<lparr>rej_order_id = 7, rej_reason = UnknownOrder\<rparr>" and more_bytes = "[3]"]
  by (simp add: reject_good_def)

text \<open>C18: A logged command decodes to itself, and whatever decodes is a command that can be
  logged again.\<close>

theorem command_log_round_trip:
  assumes "command_good c"
  shows "decode_command (encode_command c) = Some c \<and>
    (decode_command bs = Some c' \<longrightarrow> decode_command (encode_command c') = Some c')"
  using command_round_trip [OF assms] command_round_trip [OF decode_command_good] by blast

theorem command_log_round_trip_witness:
  "decode_command (encode_command (Modify 1 2 (Ticks 3) 4)) = Some (Modify 1 2 (Ticks 3) 4)"
  using command_log_round_trip [of "Modify 1 2 (Ticks 3) 4" "[]"] by simp

section \<open>Sessions\<close>

text \<open>The request a new-order message makes of the gateway.\<close>

definition gw_new_order :: "RiskConfig \<Rightarrow> NewOrder \<Rightarrow> MatchingEngine \<Rightarrow> MatchingEngine \<times> GatewayResult" where
  "gw_new_order config ord e =
     (if no_type ord = Market
      then gw_new_market config (no_symbol ord) (no_order_id ord) (no_side ord) (no_quantity ord) e
      else gw_new_limit config (no_symbol ord) (no_order_id ord) (no_side ord) (no_price ord) (no_quantity ord)
             (no_tif ord) e)"

lemma handle_new_order_exact:
  assumes "me_wf (fc_engine ctx)" "me_room (fc_engine ctx)" "new_order_good ord" "fc_max ctx < size_max"
    and "gw_new_order config ord (fc_engine ctx) = (e', r)"
  shows "handle_new_order config (encode_new_order ord seq) ctx =
    (if length (fc_out ctx) + length (response (no_order_id ord) r) \<le> fc_max ctx
     then (ctx\<lparr>fc_engine := e', fc_out := fc_out ctx @ response (no_order_id ord) r\<rparr>, Ok)
     else (ctx\<lparr>fc_logged_out := True\<rparr>, OutputLimitExceeded))"
proof -
  have d: "decode_new_order (encode_new_order ord seq) = decoded ord"
    by (rule new_order_codec.decode_encode [OF assms(3)])
  note b = budget_exact [OF assms(1-3) assms(5) [unfolded gw_new_order_def, symmetric] assms(4)]
  show ?thesis
    using assms(4,5) b [of "fc_out ctx" "no_order_id ord"]
    by (auto simp: handle_new_order_def d decoded_def dr_ok_def Let_def gw_new_order_def emit_or_close_fits
        split: prod.splits)
qed

lemma on_bytes_frame:
  assumes "header_ok t n seq frame" "length frame = kHeaderSize + n" "n \<le> 4096"
    and "process_frame config frame \<lparr>fc_engine = e, fc_logged_out = False, fc_out = out, fc_max = m\<rparr> = (ctx, st)"
  shows "on_bytes config frame out m session_new e =
    (\<lparr>ses_inbuf = if st = Ok then [] else frame, ses_logged_out = fc_logged_out ctx\<rparr>, fc_engine ctx, fc_out ctx, st)"
proof -
  let ?ctx = "\<lparr>fc_engine = e, fc_logged_out = False, fc_out = out, fc_max = m\<rparr>"
  have n: "kHeaderSize + n = kHeaderSize + unat (h_body_len (dr_value (decode_header frame)))"
    using assms(3) by (simp add: header_ok_decoded(3) [OF assms(1)] unsigned_of_nat take_bit_nat_eq_self)
  have "session_loop config frame ?ctx =
      (if st \<noteq> Ok then (frame, ctx, st) else session_loop config (drop (kHeaderSize + n) frame) ctx)"
  proof (rule session_loop_frame [OF _ _ _ n])
    show "\<not> fc_logged_out ?ctx" "kHeaderSize \<le> length frame" "kHeaderSize + n \<le> length frame"
      by (simp_all add: assms(2))
    show "dr_error (decode_header frame) = NoError"
      using header_ok_decoded(1) [OF assms(1)] by (simp add: dr_ok_def)
    show "process_frame config (take (kHeaderSize + n) frame) ?ctx = (ctx, st)"
      using assms(4) by (simp add: assms(2))
  qed
  moreover have "session_loop config [] ctx = ([], ctx, Ok)"
    using session_loop_short [of ctx "[]"] by (cases "fc_logged_out ctx") (simp_all add: kHeaderSize_def)
  ultimately show ?thesis by (simp add: on_bytes_def session_new_def assms(2))
qed

lemma on_bytes_new_order:
  assumes "me_wf e" "me_room e" "new_order_good ord" "m < size_max" "gw_new_order config ord e = (e', r)"
  shows "on_bytes config (encode_new_order ord seq) out m session_new e =
    (if length out + length (response (no_order_id ord) r) \<le> m
     then (session_new, e', out @ response (no_order_id ord) r, Ok)
     else (\<lparr>ses_inbuf = encode_new_order ord seq, ses_logged_out = True\<rparr>, e, out, OutputLimitExceeded))"
proof -
  let ?ctx = "\<lparr>fc_engine = e, fc_logged_out = False, fc_out = out, fc_max = m\<rparr>"
  have p: "process_frame config (encode_new_order ord seq) ?ctx =
      handle_new_order config (encode_new_order ord seq) ?ctx"
    by (simp add: process_frame_def header_ok_decoded [OF encode_new_order_facts(2)])
  have h: "process_frame config (encode_new_order ord seq) ?ctx =
      (if length out + length (response (no_order_id ord) r) \<le> m
       then (?ctx\<lparr>fc_engine := e', fc_out := out @ response (no_order_id ord) r\<rparr>, Ok)
       else (?ctx\<lparr>fc_logged_out := True\<rparr>, OutputLimitExceeded))"
    using handle_new_order_exact [of ?ctx ord config e' r seq] assms unfolding p by simp
  have len: "length (encode_new_order ord seq) = kHeaderSize + 27"
    by (simp add: encode_new_order_facts(1) kHeaderSize_def)
  show ?thesis
  proof (cases "length out + length (response (no_order_id ord) r) \<le> m")
    case True
    then show ?thesis
      using on_bytes_frame [OF encode_new_order_facts(2) len, of config e out m] h by (simp add: session_new_def)
  next
    case False
    then show ?thesis
      using on_bytes_frame [OF encode_new_order_facts(2) len, of config e out m] h by simp
  qed
qed

text \<open>C19: A new-order frame is answered exactly as the gateway decides: when the whole answer
  fits the output limit, the engine takes the gateway's new state and the answer is an Ack and
  one Fill per trade, or a Reject; when it does not fit, nothing is written, the engine is not
  touched and the session closes.\<close>

theorem session_answers_order:
  assumes "me_wf e" "me_room e" "new_order_good ord" "m < size_max" "gw_new_order config ord e = (e', r)"
  shows "on_bytes config (encode_new_order ord seq) out m session_new e =
    (if length out + length (response (no_order_id ord) r) \<le> m
     then (session_new, e', out @ response (no_order_id ord) r, Ok)
     else (\<lparr>ses_inbuf = encode_new_order ord seq, ses_logged_out = True\<rparr>, e, out, OutputLimitExceeded))"
  using assms by (rule on_bytes_new_order)

lemma empty_engine: "me_wf (me_new Baseline)" "me_room (me_new Baseline)"
  by (simp_all add: me_room_def me_new_def me_wf_def)

lemma sample_order_rejected:
  "gw_new_order sample_config sample_order (me_new Baseline) = (me_new Baseline, gr_reject UnknownSymbol)"
  by (simp add: gw_new_order_def sample_order_def gw_new_limit_def has_symbol_def find_book_def me_new_def)

theorem session_answers_order_witness:
  "on_bytes sample_config (encode_new_order sample_order 5) [] 100 session_new (me_new Baseline) =
     (session_new, me_new Baseline, encode_reject \<lparr>rej_order_id = 7, rej_reason = UnknownSymbol\<rparr>, Ok)"
  using session_answers_order [OF empty_engine sample_order_good _ sample_order_rejected, of 100 5 "[]"]
  by (simp add: size_max_def length_response) (simp add: response_def sample_order_def)

text \<open>C20: How the transport cuts the stream does not matter. Two ways of cutting the same bytes into
  reads (at least one each), with the replies collected in one output buffer, leave the same
  engine and the same output, report the output limit alike, and leave the session open or closed
  alike. While it is open the two sessions are the same, buffered bytes included. Once it is
  closed the bytes left in its buffer may differ, and every later read leaves session, engine and
  output as they are.\<close>

theorem session_chunking_invariant:
  assumes "concat chunks1 = concat chunks2" "chunks1 \<noteq> []" "chunks2 \<noteq> []"
    and "on_reads config chunks1 out m s e = (s1, e1, out1, st1)"
    and "on_reads config chunks2 out m s e = (s2, e2, out2, st2)"
  shows "e1 = e2 \<and> out1 = out2 \<and> st1 = st2 \<and> ses_logged_out s1 = ses_logged_out s2 \<and>
    (if ses_logged_out s1
     then \<forall>zs. on_bytes config zs out1 m s1 e1 = (s1, e1, out1, Ok) \<and> on_bytes config zs out2 m s2 e2 = (s2, e2, out2, Ok)
     else s1 = s2)"
proof -
  obtain s3 e3 out3 st3 where 3: "on_bytes config (concat chunks2) out m s e = (s3, e3, out3, st3)"
    by (cases "on_bytes config (concat chunks2) out m s e")
  note r1 = on_reads_concat [OF assms(4,2) 3 [folded assms(1)]] and r2 = on_reads_concat [OF assms(5,3) 3]
  have "on_bytes config zs out' m s' e' = (s', e', out', Ok)" if "ses_logged_out s'" for zs out' s' e'
    using that by (simp add: on_bytes_def)
  with r1 r2 show ?thesis by (cases "ses_logged_out s1") simp_all
qed

theorem session_chunking_invariant_witness:
  "on_reads sample_config [take 20 (encode_new_order sample_order 5), drop 20 (encode_new_order sample_order 5)] [] 100
     session_new (me_new Baseline) =
   (session_new, me_new Baseline, encode_reject \<lparr>rej_order_id = 7, rej_reason = UnknownSymbol\<rparr>, Ok)"
proof -
  let ?bs = "encode_new_order sample_order 5"
  let ?two = "on_reads sample_config [take 20 ?bs, drop 20 ?bs] [] 100 session_new (me_new Baseline)"
  have "on_bytes sample_config ?bs [] 100 session_new (me_new Baseline) =
      (session_new, me_new Baseline, encode_reject \<lparr>rej_order_id = 7, rej_reason = UnknownSymbol\<rparr>, Ok)"
    using on_bytes_new_order [OF empty_engine sample_order_good _ sample_order_rejected, of 100 5 "[]"]
    by (simp add: size_max_def length_response) (simp add: response_def sample_order_def)
  then have one: "on_reads sample_config [?bs] [] 100 session_new (me_new Baseline) =
      (session_new, me_new Baseline, encode_reject \<lparr>rej_order_id = 7, rej_reason = UnknownSymbol\<rparr>, Ok)"
    by simp
  obtain s e out st where two: "?two = (s, e, out, st)" by (cases ?two)
  have "concat [take 20 ?bs, drop 20 ?bs] = concat [?bs]" by simp
  from session_chunking_invariant [OF this _ _ two one]
  have "e = me_new Baseline \<and> out = encode_reject \<lparr>rej_order_id = 7, rej_reason = UnknownSymbol\<rparr> \<and> st = Ok \<and> s = session_new"
    by (simp add: session_new_def split: if_splits)
  then show ?thesis unfolding two by simp
qed

text \<open>C21: The output of a session never exceeds its limit, whatever bytes arrive.\<close>

theorem session_output_bounded:
  assumes "on_bytes config input_bytes out m s e = (s', e', out', st)" "length out \<le> m"
  shows "length out' \<le> m"
  using assms session_loop_bound
  by (fastforce simp: on_bytes_def split: if_splits prod.splits)

theorem session_output_bounded_witness:
  "length (fst (snd (snd (on_bytes sample_config (encode_new_order sample_order 5) [] 24
     session_new (me_new Baseline))))) \<le> 24"
  using session_output_bounded [where out = "[]" and m = 24]
  by (cases "on_bytes sample_config (encode_new_order sample_order 5) [] 24
     session_new (me_new Baseline)") auto

end
