(* ===== verification/Event_Log.thy ===== *)
theory Event_Log
  imports Endian Core_Types
begin

text \<open>
  \<^verbatim>\<open>src/replay/event_log.cpp\<close>: framed log records with an FNV-1a checksum, the reader that stops
  at the first bad record, the crash-recovery scan with its classification of the tail, and
  the repair decision. Files are byte lists; opening, flushing and syncing them is not
  modelled.
\<close>

section \<open>Records (event_log.hpp)\<close>

datatype RecordType = CommandRecord | EventRecord | OtherRecordType "16 word"

fun code_of_record_type :: "RecordType \<Rightarrow> 16 word" where
  "code_of_record_type CommandRecord = 1"
| "code_of_record_type EventRecord = 2"
| "code_of_record_type (OtherRecordType c) = c"

definition record_type_of_code :: "16 word \<Rightarrow> RecordType" where
  "record_type_of_code c = (if c = 1 then CommandRecord else if c = 2 then EventRecord else OtherRecordType c)"

record LogRecord =
  lr_seq_no :: SeqNo
  lr_type :: RecordType
  lr_logical_timestamp :: Timestamp
  lr_payload :: bytes

datatype LogError = NoLogError | OpenFailed | LogTruncated | BadChecksum | PayloadTooLarge

definition kRecordHeaderSize :: nat where "kRecordHeaderSize = 22"
definition kChecksumSize :: nat where "kChecksumSize = 4"
definition kMaxPayload :: "32 word" where "kMaxPayload = push_bit 20 1"

record RecordRead =
  rr_error :: LogError
  rr_record :: LogRecord
  rr_next_offset :: nat

record LogReadResult =
  lrr_records :: "LogRecord list"
  lrr_error :: LogError

datatype TailState = CleanTail | TornTail | Corrupt

record LogRecovery =
  rec_error :: LogError
  rec_tail :: TailState
  rec_tail_error :: LogError
  rec_records :: "LogRecord list"
  rec_valid_bytes :: nat

section \<open>Encoding and decoding (event_log.cpp)\<close>

definition checksum :: "bytes \<Rightarrow> 32 word" where
  "checksum data = foldl (\<lambda>hash b. (hash XOR ucast b) * 16777619) 2166136261 data"

text \<open>Returns \<open>None\<close> where the source returns false and leaves \<^verbatim>\<open>out\<close> alone.\<close>

definition encode_record :: "LogRecord \<Rightarrow> bytes \<Rightarrow> bytes option" where
  "encode_record r out =
     (if length (lr_payload r) > unat kMaxPayload then None
      else
        let payload_size = (of_nat (length (lr_payload r)) :: 32 word);
            start = length out;
            out = out @ replicate (kRecordHeaderSize + length (lr_payload r) + kChecksumSize) 0;
            out = store_be 8 (start + 0) (lr_seq_no r) out;
            out = store_be 2 (start + 8) (code_of_record_type (lr_type r)) out;
            out = store_be 8 (start + 10) (lr_logical_timestamp r) out;
            out = store_be 4 (start + 18) payload_size out;
            out = write_at (start + kRecordHeaderSize) (lr_payload r) out;
            cs = checksum (read_at start (kRecordHeaderSize + length (lr_payload r)) out)
        in Some (store_be 4 (start + kRecordHeaderSize + length (lr_payload r)) cs out))"

definition record_zero :: LogRecord where
  "record_zero = \<lparr>lr_seq_no = 0, lr_type = OtherRecordType 0, lr_logical_timestamp = 0, lr_payload = []\<rparr>"

definition decode_record :: "bytes \<Rightarrow> nat \<Rightarrow> RecordRead" where
  "decode_record bs offset =
     (let err = \<lambda>e. \<lparr>rr_error = e, rr_record = record_zero, rr_next_offset = offset\<rparr>
      in if offset > length bs then err LogTruncated
         else if length bs - offset < kRecordHeaderSize then err LogTruncated
         else
           let p = drop offset bs; payload_size = (load_be 4 18 p :: 32 word)
           in if payload_size > kMaxPayload then err PayloadTooLarge
              else
                let total = kRecordHeaderSize + unat payload_size + kChecksumSize
                in if length bs - offset < total then err LogTruncated
                   else
                     let payload = read_at kRecordHeaderSize (unat payload_size) p;
                         stored = load_be 4 (kRecordHeaderSize + unat payload_size) p;
                         computed = checksum (take (kRecordHeaderSize + unat payload_size) p)
                     in if stored \<noteq> computed then err BadChecksum
                        else \<lparr>rr_error = NoLogError,
                              rr_record = \<lparr>lr_seq_no = load_be 8 0 p, lr_type = record_type_of_code (load_be 2 8 p),
                                           lr_logical_timestamp = load_be 8 10 p, lr_payload = payload\<rparr>,
                              rr_next_offset = offset + total\<rparr>)"

lemma decode_record_progress:
  "rr_error (decode_record bs off) = NoLogError \<Longrightarrow>
     off < rr_next_offset (decode_record bs off) \<and> rr_next_offset (decode_record bs off) \<le> length bs"
  by (auto simp: decode_record_def Let_def kRecordHeaderSize_def kChecksumSize_def split: if_splits)

function read_log_from :: "bytes \<Rightarrow> nat \<Rightarrow> LogRecord list \<Rightarrow> LogReadResult" where
  "read_log_from bs offset records =
     (if offset < length bs then
        let r = decode_record bs offset
        in if rr_error r \<noteq> NoLogError then \<lparr>lrr_records = records, lrr_error = rr_error r\<rparr>
           else read_log_from bs (rr_next_offset r) (records @ [rr_record r])
      else \<lparr>lrr_records = records, lrr_error = NoLogError\<rparr>)"
  by pat_completeness auto
termination
  by (relation "measure (\<lambda>(bs, offset, _). length bs - offset)")
    (auto dest: decode_record_progress intro: diff_less_mono2)

declare read_log_from.simps [simp del]

definition read_log :: "bytes \<Rightarrow> LogReadResult" where
  "read_log bs = read_log_from bs 0 []"

definition checksum_failure_confined_to_tail :: "bytes \<Rightarrow> nat \<Rightarrow> bool" where
  "checksum_failure_confined_to_tail bs offset =
     (let payload_size = (load_be 4 18 (drop offset bs) :: 32 word);
          total = kRecordHeaderSize + unat payload_size + kChecksumSize
      in offset + total = length bs)"

definition truncated_failure_confined_to_partial_header :: "bytes \<Rightarrow> nat \<Rightarrow> bool" where
  "truncated_failure_confined_to_partial_header bs offset \<longleftrightarrow> length bs - offset < kRecordHeaderSize"

definition classify_tail :: "bytes \<Rightarrow> LogError \<Rightarrow> nat \<Rightarrow> TailState" where
  "classify_tail bs tail_error valid_bytes =
     (case tail_error of
        NoLogError \<Rightarrow> CleanTail
      | LogTruncated \<Rightarrow> if truncated_failure_confined_to_partial_header bs valid_bytes then TornTail else Corrupt
      | BadChecksum \<Rightarrow> if checksum_failure_confined_to_tail bs valid_bytes then TornTail else Corrupt
      | PayloadTooLarge \<Rightarrow> Corrupt
      | OpenFailed \<Rightarrow> Corrupt)"

text \<open>The scan of \<^verbatim>\<open>recover_log\<close>: offset, records so far; the last boundary is the offset itself.\<close>

function recover_from :: "bytes \<Rightarrow> nat \<Rightarrow> LogRecord list \<Rightarrow> nat \<times> LogRecord list \<times> LogError" where
  "recover_from bs offset records =
     (if offset < length bs then
        let r = decode_record bs offset
        in if rr_error r \<noteq> NoLogError then (offset, records, rr_error r)
           else recover_from bs (rr_next_offset r) (records @ [rr_record r])
      else (offset, records, NoLogError))"
  by pat_completeness auto
termination
  by (relation "measure (\<lambda>(bs, offset, _). length bs - offset)")
    (auto dest: decode_record_progress intro: diff_less_mono2)

declare recover_from.simps [simp del]

definition recover_log :: "bytes \<Rightarrow> LogRecovery" where
  "recover_log bs =
     (let (valid_bytes, records, tail_error) = recover_from bs 0 []
      in \<lparr>rec_error = NoLogError, rec_tail = classify_tail bs tail_error valid_bytes, rec_tail_error = tail_error,
          rec_records = records, rec_valid_bytes = valid_bytes\<rparr>)"

text \<open>
  The files: \<open>None\<close> is a path that cannot be opened or read. Repair returns the file and
  whether it is clean; \<open>io_ok\<close> stands for the resize and the sync succeeding.
\<close>

definition recover_log_file :: "bytes option \<Rightarrow> LogRecovery" where
  "recover_log_file f =
     (case f of
        None \<Rightarrow> \<lparr>rec_error = OpenFailed, rec_tail = Corrupt, rec_tail_error = NoLogError, rec_records = [], rec_valid_bytes = 0\<rparr>
      | Some bs \<Rightarrow> recover_log bs)"

definition repair_log_file :: "bool \<Rightarrow> bool \<Rightarrow> bytes \<Rightarrow> LogRecovery \<Rightarrow> bytes \<times> bool" where
  "repair_log_file resize_ok sync_ok f rv =
     (if rec_error rv \<noteq> NoLogError \<or> rec_tail rv = Corrupt then (f, False)
      else if rec_tail rv = CleanTail then (f, True)
      else if \<not> resize_ok then (f, False)
      else (take (rec_valid_bytes rv) f @ replicate (rec_valid_bytes rv - length f) 0, sync_ok))"

definition read_all :: "bytes option \<Rightarrow> LogReadResult" where
  "read_all f = (case f of None \<Rightarrow> \<lparr>lrr_records = [], lrr_error = OpenFailed\<rparr> | Some bs \<Rightarrow> read_log bs)"

section \<open>One record\<close>

lemmas log_consts = kRecordHeaderSize_def kChecksumSize_def kMaxPayload_def

lemma write_at_next:
  "off = length pre \<Longrightarrow> length bs \<le> length z \<Longrightarrow> write_at off bs (pre @ z) = (pre @ bs) @ drop (length bs) z"
  by (simp add: write_at_def)

lemma kMaxPayload_unat [simp]: "unat kMaxPayload = 1048576"
  by (simp add: kMaxPayload_def)

definition record_head :: "LogRecord \<Rightarrow> bytes" where
  "record_head r = be_bytes 8 (lr_seq_no r) @ be_bytes 2 (code_of_record_type (lr_type r)) @
     be_bytes 8 (lr_logical_timestamp r) @ be_bytes 4 (of_nat (length (lr_payload r)) :: 32 word)"

definition record_bytes :: "LogRecord \<Rightarrow> bytes" where
  "record_bytes r = record_head r @ lr_payload r @ be_bytes 4 (checksum (record_head r @ lr_payload r))"

definition record_good :: "LogRecord \<Rightarrow> bool" where
  "record_good r \<longleftrightarrow> length (lr_payload r) \<le> 1048576 \<and> record_type_of_code (code_of_record_type (lr_type r)) = lr_type r"

lemma length_record_head [simp]: "length (record_head r) = 22"
  by (simp add: record_head_def)

lemma length_record_bytes [simp]: "length (record_bytes r) = 26 + length (lr_payload r)"
  by (simp add: record_bytes_def)

lemma encode_record_bytes:
  "encode_record r out = (if length (lr_payload r) \<le> 1048576 then Some (out @ record_bytes r) else None)"
proof (cases "length (lr_payload r) \<le> 1048576")
  case True
  let ?n = "length (lr_payload r)"
  let ?z = "\<lambda>k. replicate (26 + ?n - k) (0 :: byte)"
  have 1: "store_be 8 (length out) (lr_seq_no r) (out @ ?z 0) = (out @ be_bytes 8 (lr_seq_no r)) @ ?z 8"
    unfolding store_be_def by (subst write_at_next) simp_all
  let ?o1 = "out @ be_bytes 8 (lr_seq_no r)"
  have 2: "store_be 2 (length out + 8) (code_of_record_type (lr_type r)) (?o1 @ ?z 8) =
      (?o1 @ be_bytes 2 (code_of_record_type (lr_type r))) @ ?z 10"
    unfolding store_be_def by (subst write_at_next) simp_all
  let ?o2 = "?o1 @ be_bytes 2 (code_of_record_type (lr_type r))"
  have 3: "store_be 8 (length out + 10) (lr_logical_timestamp r) (?o2 @ ?z 10) =
      (?o2 @ be_bytes 8 (lr_logical_timestamp r)) @ ?z 18"
    unfolding store_be_def by (subst write_at_next) simp_all
  let ?o3 = "?o2 @ be_bytes 8 (lr_logical_timestamp r)"
  have 4: "store_be 4 (length out + 18) (of_nat ?n :: 32 word) (?o3 @ ?z 18) =
      (?o3 @ be_bytes 4 (of_nat ?n :: 32 word)) @ ?z 22"
    unfolding store_be_def by (subst write_at_next) simp_all
  let ?o4 = "?o3 @ be_bytes 4 (of_nat ?n :: 32 word)"
  have o4: "?o4 = out @ record_head r" by (simp add: record_head_def)
  have 5: "write_at (length out + 22) (lr_payload r) ((out @ record_head r) @ ?z 22) =
      (out @ record_head r @ lr_payload r) @ replicate 4 0"
    by (subst write_at_next) simp_all
  have 6: "read_at (length out) (22 + ?n) ((out @ record_head r @ lr_payload r) @ replicate 4 0) =
      record_head r @ lr_payload r"
    by (simp add: read_at_def)
  have 7: "store_be 4 (length out + 22 + ?n) cs ((out @ record_head r @ lr_payload r) @ replicate 4 0) =
      (out @ record_head r @ lr_payload r) @ be_bytes 4 cs" for cs :: "32 word"
    unfolding store_be_def by (subst write_at_next) simp_all
  show ?thesis
    using True 1 2 3 4 5 6 7
    by (simp add: encode_record_def log_consts Let_def record_bytes_def o4 [simplified] del: replicate_add)
qed (simp add: encode_record_def)

lemma load_be_concat: "off = length pre \<Longrightarrow> load_be n off (pre @ ys) = load_be n 0 ys"
  by (simp add: load_be_def read_at_def)

lemma load_be_front:
  fixes v :: "'a::len word"
  shows "LENGTH('a) = 8 * n \<Longrightarrow> load_be n 0 (be_bytes n v @ ys) = v"
  by (simp add: load_be_def read_at_def load_be_bytes_be_bytes)

lemma load_record_head:
  "load_be 8 0 (record_head r @ ys) = lr_seq_no r"
  "load_be 2 8 (record_head r @ ys) = code_of_record_type (lr_type r)"
  "load_be 8 10 (record_head r @ ys) = lr_logical_timestamp r"
  "load_be 4 18 (record_head r @ ys) = (of_nat (length (lr_payload r)) :: 32 word)"
  unfolding record_head_def append_assoc
  subgoal by (simp add: load_be_front)
  subgoal by (subst load_be_concat) (simp_all add: load_be_front)
  subgoal
    by (simp add: load_be_front
        load_be_concat [of 10 "be_bytes 8 (lr_seq_no r) @ be_bytes 2 (code_of_record_type (lr_type r))" 8, simplified])
  subgoal
    by (simp add: load_be_front
        load_be_concat [of 18 "be_bytes 8 (lr_seq_no r) @ be_bytes 2 (code_of_record_type (lr_type r)) @
          be_bytes 8 (lr_logical_timestamp r)" 4, simplified])
  done

lemma unat_payload_size: "n \<le> 1048576 \<Longrightarrow> unat (of_nat n :: 32 word) = n"
  by (simp add: unsigned_of_nat take_bit_nat_eq_self)

lemma decode_record_at:
  assumes "record_good r"
  shows "decode_record (xs @ record_bytes r @ ys) (length xs) =
    \<lparr>rr_error = NoLogError, rr_record = r, rr_next_offset = length xs + length (record_bytes r)\<rparr>"
proof -
  let ?n = "length (lr_payload r)" and ?cs = "checksum (record_head r @ lr_payload r)"
  let ?p = "record_head r @ lr_payload r @ be_bytes 4 ?cs @ ys"
  have n: "unat (of_nat ?n :: 32 word) = ?n" "\<not> kMaxPayload < (of_nat ?n :: 32 word)"
    using assms by (simp_all add: record_good_def unat_payload_size word_less_nat_alt)
  have stored: "load_be 4 (22 + ?n) ?p = ?cs"
    by (simp add: load_be_front load_be_concat [of "22 + ?n" "record_head r @ lr_payload r" 4, simplified])
  have payload: "read_at 22 ?n ?p = lr_payload r" by (simp add: read_at_def)
  have "drop (length xs) (xs @ record_bytes r @ ys) = ?p" by (simp add: record_bytes_def)
  then show ?thesis
    using assms n stored payload load_record_head [of r]
    by (simp add: decode_record_def log_consts(1,2) Let_def record_good_def)
qed

section \<open>Whole logs\<close>

lemma read_log_recover:
  "read_log_from bs off recs =
     (case recover_from bs off recs of (_, records, err) \<Rightarrow> \<lparr>lrr_records = records, lrr_error = err\<rparr>)"
proof (induction bs off recs rule: read_log_from.induct)
  case (1 bs off recs)
  then show ?case
    by (cases "off < length bs"; cases "rr_error (decode_record bs off) = NoLogError")
      (simp_all add: read_log_from.simps [of bs off recs] recover_from.simps [of bs off recs] Let_def)
qed

lemma recover_records:
  assumes "\<forall>r\<in>set rs. record_good r"
  shows "recover_from (xs @ concat (map record_bytes rs) @ ys) (length xs) recs =
    recover_from (xs @ concat (map record_bytes rs) @ ys) (length xs + length (concat (map record_bytes rs))) (recs @ rs)"
  using assms
proof (induction rs arbitrary: xs recs)
  case (Cons r rs)
  let ?tl = "concat (map record_bytes rs) @ ys"
  have d: "decode_record (xs @ record_bytes r @ ?tl) (length xs) =
      \<lparr>rr_error = NoLogError, rr_record = r, rr_next_offset = length xs + length (record_bytes r)\<rparr>"
    by (rule decode_record_at) (use Cons.prems in simp)
  have "recover_from (xs @ record_bytes r @ ?tl) (length xs) recs =
      recover_from (xs @ record_bytes r @ ?tl) (length xs + length (record_bytes r)) (recs @ [r])"
    by (subst recover_from.simps) (simp add: d)
  also have "\<dots> = recover_from (xs @ record_bytes r @ ?tl)
      (length xs + length (record_bytes r) + length (concat (map record_bytes rs))) (recs @ r # rs)"
    using Cons.IH [of "xs @ record_bytes r" "recs @ [r]"] Cons.prems by simp
  finally show ?case by (simp add: add.assoc)
qed simp

lemma recover_at_end: "recover_from bs (length bs) recs = (length bs, recs, NoLogError)"
  by (simp add: recover_from.simps)

lemma recover_log_records:
  assumes "\<forall>r\<in>set rs. record_good r"
  shows "recover_from (concat (map record_bytes rs)) 0 [] = (length (concat (map record_bytes rs)), rs, NoLogError)"
  using recover_records [OF assms, of "[]" "[]" "[]"] recover_at_end [of "concat (map record_bytes rs)" rs] by simp

text \<open>What is left by an append that stopped after \<open>k\<close> bytes.\<close>

lemma decode_record_partial:
  assumes "record_good r" "k < length (record_bytes r)"
  shows "rr_error (decode_record (xs @ take k (record_bytes r)) (length xs)) = LogTruncated"
proof (cases "k < 22")
  case True
  with assms(2) show ?thesis by (simp add: decode_record_def log_consts(1,2) Let_def)
next
  case False
  let ?n = "length (lr_payload r)"
  have n: "unat (of_nat ?n :: 32 word) = ?n" "\<not> kMaxPayload < (of_nat ?n :: 32 word)"
    using assms(1) by (simp_all add: record_good_def unat_payload_size word_less_nat_alt)
  have "take k (record_bytes r) = record_head r @ take (k - 22) (lr_payload r @ be_bytes 4 (checksum (record_head r @ lr_payload r)))"
    using False by (simp add: record_bytes_def)
  then have "load_be 4 18 (take k (record_bytes r)) = (of_nat ?n :: 32 word)"
    using load_record_head(4) by simp
  then show ?thesis
    using assms(2) n False by (simp add: decode_record_def log_consts(1,2) Let_def)
qed

lemma recover_torn_append:
  assumes "\<forall>r\<in>set rs. record_good r" "record_good r" "0 < k" "k < length (record_bytes r)"
  shows "recover_from (concat (map record_bytes rs) @ take k (record_bytes r)) 0 [] =
    (length (concat (map record_bytes rs)), rs, LogTruncated)"
proof -
  let ?xs = "concat (map record_bytes rs)"
  have "recover_from (?xs @ take k (record_bytes r)) 0 [] = recover_from (?xs @ take k (record_bytes r)) (length ?xs) rs"
    using recover_records [OF assms(1), of "[]" "take k (record_bytes r)" "[]"] by simp
  also have "\<dots> = (length ?xs, rs, LogTruncated)"
    using decode_record_partial [OF assms(2,4), of ?xs] assms(3,4)
    by (subst recover_from.simps) (simp add: Let_def)
  finally show ?thesis .
qed

section \<open>Repair\<close>

lemma decode_record_ok:
  assumes "rr_error (decode_record bs off) = NoLogError"
    and "n = unat (load_be 4 18 (drop off bs) :: 32 word)"
  shows "off \<le> length bs" "26 + n \<le> length bs - off" "\<not> kMaxPayload < (load_be 4 18 (drop off bs) :: 32 word)"
    "load_be 4 (22 + n) (drop off bs) = checksum (take (22 + n) (drop off bs))"
    "rr_next_offset (decode_record bs off) = off + (26 + n)"
    "rr_record (decode_record bs off) =
      \<lparr>lr_seq_no = load_be 8 0 (drop off bs), lr_type = record_type_of_code (load_be 2 8 (drop off bs)),
       lr_logical_timestamp = load_be 8 10 (drop off bs), lr_payload = read_at 22 n (drop off bs)\<rparr>"
  using assms by (auto simp: decode_record_def Let_def log_consts(1,2) split: if_splits)

lemma decode_recordI:
  assumes "off \<le> length bs" "n = unat (load_be 4 18 (drop off bs) :: 32 word)" "26 + n \<le> length bs - off"
    "\<not> kMaxPayload < (load_be 4 18 (drop off bs) :: 32 word)"
    "load_be 4 (22 + n) (drop off bs) = checksum (take (22 + n) (drop off bs))"
  shows "decode_record bs off =
    \<lparr>rr_error = NoLogError,
     rr_record = \<lparr>lr_seq_no = load_be 8 0 (drop off bs), lr_type = record_type_of_code (load_be 2 8 (drop off bs)),
       lr_logical_timestamp = load_be 8 10 (drop off bs), lr_payload = read_at 22 n (drop off bs)\<rparr>,
     rr_next_offset = off + (26 + n)\<rparr>"
  using assms by (simp add: decode_record_def Let_def log_consts(1,2))

lemma decode_record_take:
  assumes "rr_error (decode_record bs off) = NoLogError" "rr_next_offset (decode_record bs off) \<le> v"
  shows "decode_record (take v bs) off = decode_record bs off"
proof -
  let ?p = "drop off bs"
  define n where "n = unat (load_be 4 18 ?p :: 32 word)"
  note d = decode_record_ok [OF assms(1) n_def]
  have v: "26 + n \<le> v - off" using assms(2) d(5) by simp
  have p: "drop off (take v bs) = take (v - off) ?p" by (simp add: drop_take)
  have l: "load_be 4 18 (take (v - off) ?p) = (load_be 4 18 ?p :: 32 word)"
      "load_be 8 0 (take (v - off) ?p) = (load_be 8 0 ?p :: 64 word)"
      "load_be 2 8 (take (v - off) ?p) = (load_be 2 8 ?p :: 16 word)"
      "load_be 8 10 (take (v - off) ?p) = (load_be 8 10 ?p :: 64 word)"
      "load_be 4 (22 + n) (take (v - off) ?p) = (load_be 4 (22 + n) ?p :: 32 word)"
    using v by (simp_all add: load_be_take)
  have r: "read_at 22 n (take (v - off) ?p) = read_at 22 n ?p"
      "take (22 + n) (take (v - off) ?p) = take (22 + n) ?p"
    using v by (simp_all add: read_at_def drop_take take_take)
  have "off \<le> length (take v bs)" "26 + n \<le> length (take v bs) - off"
    using d(1,2) assms(2) d(5) by simp_all
  then have "decode_record (take v bs) off =
      \<lparr>rr_error = NoLogError,
       rr_record = \<lparr>lr_seq_no = load_be 8 0 ?p, lr_type = record_type_of_code (load_be 2 8 ?p),
         lr_logical_timestamp = load_be 8 10 ?p, lr_payload = read_at 22 n ?p\<rparr>,
       rr_next_offset = off + (26 + n)\<rparr>"
    using decode_recordI [of off "take v bs" n] d(3,4) unfolding p l r by (simp add: n_def)
  also have "\<dots> = decode_record bs off"
    using decode_recordI [OF d(1) n_def d(2-4)] by simp
  finally show ?thesis .
qed

lemma recover_prefix:
  assumes "recover_from bs off recs = (v, records, err)" "off \<le> length bs"
  shows "off \<le> v \<and> v \<le> length bs \<and> recover_from (take v bs) off recs = (v, records, NoLogError)"
  using assms
proof (induction bs off recs rule: recover_from.induct)
  case (1 bs off recs)
  let ?r = "decode_record bs off"
  show ?case
  proof (cases "off < length bs \<and> rr_error ?r = NoLogError")
    case True
    then have rec: "recover_from bs (rr_next_offset ?r) (recs @ [rr_record ?r]) = (v, records, err)"
      using 1(2) by (simp add: recover_from.simps [of bs off recs] Let_def)
    note pr = decode_record_progress [of bs off]
    have IH: "rr_next_offset ?r \<le> v \<and> v \<le> length bs \<and>
        recover_from (take v bs) (rr_next_offset ?r) (recs @ [rr_record ?r]) = (v, records, NoLogError)"
      using 1(1) [OF _ refl] True rec pr by simp
    then have "decode_record (take v bs) off = ?r"
      using decode_record_take [of bs off v] True by simp
    then show ?thesis
      using IH True pr by (simp add: recover_from.simps [of "take v bs" off recs] Let_def)
  next
    case False
    then have "v = off" "records = recs"
      using 1(2) by (auto simp: recover_from.simps [of bs off recs] Let_def split: if_splits)
    with 1(3) show ?thesis by (simp add: recover_from.simps [of "take off bs" off recs])
  qed
qed

section \<open>The checksum\<close>

text \<open>Every step of FNV-1a is injective in the hash and in the byte, so one changed byte shows.\<close>

definition fnv_step :: "32 word \<Rightarrow> byte \<Rightarrow> 32 word" where
  "fnv_step hash b = (hash XOR ucast b) * 16777619"

lemma checksum_fold: "checksum data = foldl fnv_step 2166136261 data"
  by (simp add: checksum_def fnv_step_def [abs_def])

lemma fnv_prime_inject: "x * 16777619 = y * 16777619 \<Longrightarrow> x = (y :: 32 word)"
proof -
  have i: "z = (z * 16777619) * 899433627" for z :: "32 word"
  proof -
    have "(16777619 :: 32 word) * 899433627 = 1" by simp
    then show ?thesis by (simp only: mult.assoc mult_1_right)
  qed
  assume "x * 16777619 = y * 16777619"
  then have "(x * 16777619) * 899433627 = (y * 16777619) * 899433627" by (rule arg_cong)
  then show "x = y" unfolding i [symmetric] .
qed

lemma fnv_step_hash: "fnv_step h b = fnv_step h' b \<Longrightarrow> h = h'"
proof -
  assume "fnv_step h b = fnv_step h' b"
  then have "h XOR ucast b = h' XOR ucast b" unfolding fnv_step_def by (rule fnv_prime_inject)
  then have "(h XOR ucast b) XOR ucast b = (h' XOR ucast b) XOR ucast b" by simp
  then show "h = h'" by (simp add: xor.assoc)
qed

lemma fnv_step_byte: "fnv_step h b = fnv_step h b' \<Longrightarrow> b = b'"
proof -
  assume "fnv_step h b = fnv_step h b'"
  then have "h XOR ucast b = h XOR ucast b'" unfolding fnv_step_def by (rule fnv_prime_inject)
  then have "h XOR (h XOR ucast b) = h XOR (h XOR ucast b')" by simp
  then have "(ucast b :: 32 word) = ucast b'" by (simp add: xor.assoc [symmetric])
  then have "unat (ucast b :: 32 word) = unat (ucast b' :: 32 word)" by simp
  moreover have "unat (ucast c :: 32 word) = unat c" for c :: byte
    by (simp add: unsigned_ucast_eq take_bit_nat_eq_self unsigned_less [of c, THEN less_trans])
  ultimately show "b = b'" by (simp add: word_unat_eq_iff)
qed

lemma fnv_fold_inject: "foldl fnv_step h data = foldl fnv_step h' data \<Longrightarrow> h = h'"
proof (induction data arbitrary: h h')
  case (Cons b data)
  then have "fnv_step h b = fnv_step h' b" by (simp only: foldl_Cons)
  then show ?case by (rule fnv_step_hash)
qed simp

lemma checksum_single_byte:
  assumes "b \<noteq> b'"
  shows "checksum (xs @ b # ys) \<noteq> checksum (xs @ b' # ys)"
proof
  assume "checksum (xs @ b # ys) = checksum (xs @ b' # ys)"
  then have "fnv_step (foldl fnv_step 2166136261 xs) b = fnv_step (foldl fnv_step 2166136261 xs) b'"
    unfolding checksum_fold foldl_append foldl_Cons by (rule fnv_fold_inject)
  then have "b = b'" by (rule fnv_step_byte)
  with assms show False by (rule notE)
qed

end
