(* ===== verification/Log_Writer.thy ===== *)
theory Log_Writer
  imports Event_Log
begin

text \<open>
  \<^verbatim>\<open>EventLogWriter\<close> of \<^verbatim>\<open>src/replay/event_log.cpp\<close>, over a file whose bytes sit in the stdio buffer, in
  the kernel, or on stable storage. What the C library and the kernel answer during a call is
  an argument. A crash keeps what is on stable storage, followed by any bytes at all in place of
  at most the rest.
\<close>

section \<open>Files\<close>

record LogFile =
  lf_stable :: bytes
  lf_kernel :: bytes
  lf_buffer :: bytes

text \<open>
  The answers of one call: whether \<^verbatim>\<open>fopen\<close> succeeds, how many bytes \<^verbatim>\<open>fwrite\<close> takes and how many
  buffered bytes it hands to the kernel, whether \<^verbatim>\<open>fflush\<close> succeeds and how many buffered bytes
  reach the kernel where it fails, whether the sync of the file and the sync of the directory
  succeed.
\<close>

record Io =
  io_fopen :: bool
  io_fwrite :: nat
  io_spill :: nat
  io_fflush :: bool
  io_flushed :: nat
  io_fsync :: bool
  io_dirsync :: bool

definition hand_over :: "nat \<Rightarrow> LogFile \<Rightarrow> LogFile" where
  "hand_over k f = f\<lparr>lf_kernel := lf_kernel f @ take k (lf_buffer f), lf_buffer := drop k (lf_buffer f)\<rparr>"

definition fwrite :: "Io \<Rightarrow> bytes \<Rightarrow> LogFile \<Rightarrow> LogFile \<times> nat" where
  "fwrite io bs f =
     (let n = min (io_fwrite io) (length bs)
      in (hand_over (io_spill io) (f\<lparr>lf_buffer := lf_buffer f @ take n bs\<rparr>), n))"

definition fflush :: "Io \<Rightarrow> LogFile \<Rightarrow> LogFile \<times> bool" where
  "fflush io f =
     (if io_fflush io then (hand_over (length (lf_buffer f)) f, True) else (hand_over (io_flushed io) f, False))"

definition sync_to_storage :: "Io \<Rightarrow> LogFile \<Rightarrow> LogFile \<times> bool" where
  "sync_to_storage io f =
     (if io_fsync io then (f\<lparr>lf_stable := lf_stable f @ lf_kernel f, lf_kernel := []\<rparr>, True) else (f, False))"

section \<open>The writer\<close>

datatype DurabilityMode = BufferedOnly | FlushOnAppend | FsyncOnAppend

record EventLogWriter =
  elw_directory_sync_pending :: bool
  elw_open :: bool
  elw_mode :: DurabilityMode
  elw_file :: LogFile

definition sync_parent_directory_if_needed :: "Io \<Rightarrow> DurabilityMode \<Rightarrow> bool" where
  "sync_parent_directory_if_needed io mode = (if mode \<noteq> FsyncOnAppend then True else io_dirsync io)"

definition sync_parent_directory_once :: "Io \<Rightarrow> EventLogWriter \<Rightarrow> EventLogWriter \<times> bool" where
  "sync_parent_directory_once io w =
     (if \<not> elw_directory_sync_pending w then (w, True)
      else if \<not> sync_parent_directory_if_needed io FsyncOnAppend then (w, False)
      else (w\<lparr>elw_directory_sync_pending := False\<rparr>, True))"

text \<open>The path holds \<open>Some bs\<close> on stable storage or does not exist; the file is opened for appending.\<close>

definition elw_new :: "Io \<Rightarrow> bytes option \<Rightarrow> DurabilityMode \<Rightarrow> EventLogWriter" where
  "elw_new io path mode =
     (let w = \<lparr>elw_directory_sync_pending = (path = None), elw_open = io_fopen io, elw_mode = mode,
               elw_file = \<lparr>lf_stable = (case path of None \<Rightarrow> [] | Some bs \<Rightarrow> bs), lf_kernel = [], lf_buffer = []\<rparr>\<rparr>
      in if \<not> elw_open w then w
         else if mode = FsyncOnAppend then
           let (w, ok) = sync_parent_directory_once io w in if \<not> ok then w\<lparr>elw_open := False\<rparr> else w
         else w)"

definition elw_append :: "Io \<Rightarrow> LogRecord \<Rightarrow> EventLogWriter \<Rightarrow> EventLogWriter \<times> bool" where
  "elw_append io r w =
     (if \<not> elw_open w then (w, False)
      else
        case encode_record r [] of
          None \<Rightarrow> (w, False)
        | Some buf \<Rightarrow>
            let (f, written) = fwrite io buf (elw_file w); w = w\<lparr>elw_file := f\<rparr>
            in if written \<noteq> length buf then (w, False)
               else if elw_mode w = BufferedOnly then (w, True)
               else
                 let (f, ok) = fflush io f; w = w\<lparr>elw_file := f\<rparr>
                 in if \<not> ok then (w, False)
                    else if elw_mode w = FlushOnAppend then (w, True)
                    else let (f, ok) = sync_to_storage io f in (w\<lparr>elw_file := f\<rparr>, ok))"

definition elw_sync :: "Io \<Rightarrow> EventLogWriter \<Rightarrow> EventLogWriter \<times> bool" where
  "elw_sync io w =
     (if \<not> elw_open w then (w, False)
      else
        let (f, flushed) = fflush io (elw_file w); w = w\<lparr>elw_file := f\<rparr>
        in if \<not> flushed then (w, False)
           else
             let (f, synced) = sync_to_storage io f; w = w\<lparr>elw_file := f\<rparr>
             in if \<not> synced then (w, False) else sync_parent_directory_once io w)"

text \<open>A batch of appends with the answers each one meets, and the acknowledgements.\<close>

fun elw_append_all :: "(Io \<times> LogRecord) list \<Rightarrow> EventLogWriter \<Rightarrow> EventLogWriter \<times> bool list" where
  "elw_append_all [] w = (w, [])"
| "elw_append_all ((io, r) # xs) w =
     (let (w, ok) = elw_append io r w; (w, oks) = elw_append_all xs w in (w, ok # oks))"

section \<open>Crashes\<close>

definition lf_all :: "LogFile \<Rightarrow> bytes" where
  "lf_all f = lf_stable f @ lf_kernel f @ lf_buffer f"

definition unsynced :: "LogFile \<Rightarrow> bytes" where
  "unsynced f = lf_kernel f @ lf_buffer f"

text \<open>
  What a crash leaves of the unsynced bytes is \<open>debris\<close>: a prefix of them, pages written back out
  of order with holes between them, or anything else that is not longer.
\<close>

definition crash_image :: "bytes \<Rightarrow> EventLogWriter \<Rightarrow> bytes" where
  "crash_image debris w = lf_stable (elw_file w) @ take (length (unsynced (elw_file w))) debris"

lemmas writer_defs = fwrite_def fflush_def sync_to_storage_def sync_parent_directory_once_def

lemma hand_over_simps [simp]:
  "lf_all (hand_over k f) = lf_all f" "lf_stable (hand_over k f) = lf_stable f"
  "lf_buffer (hand_over (length (lf_buffer f)) f) = []"
  by (simp_all add: hand_over_def lf_all_def)

lemma lf_all_buffer [simp]: "lf_all (f\<lparr>lf_buffer := lf_buffer f @ bs\<rparr>) = lf_all f @ bs"
  by (simp add: lf_all_def)

lemma lf_all_stable [simp]: "s = lf_stable f \<Longrightarrow> lf_all (f\<lparr>lf_stable := s @ lf_kernel f, lf_kernel := []\<rparr>) = lf_all f"
  by (simp add: lf_all_def)

lemma elw_append_all_bytes:
  "lf_all (elw_file (fst (elw_append io r w))) =
     lf_all (elw_file w) @
     (if elw_open w \<and> length (lr_payload r) \<le> 1048576 then take (io_fwrite io) (record_bytes r) else [])"
  by (simp add: elw_append_def encode_record_bytes writer_defs Let_def min_def)

lemma elw_append_keeps:
  "elw_mode (fst (elw_append io r w)) = elw_mode w" "elw_open (fst (elw_append io r w)) = elw_open w"
  "elw_directory_sync_pending (fst (elw_append io r w)) = elw_directory_sync_pending w"
  by (simp_all add: elw_append_def writer_defs Let_def split: option.split)

lemma elw_append_acked:
  "snd (elw_append io r w) \<Longrightarrow>
     elw_open w \<and> length (lr_payload r) \<le> 1048576 \<and>
     lf_all (elw_file (fst (elw_append io r w))) = lf_all (elw_file w) @ record_bytes r"
  by (auto simp: elw_append_def encode_record_bytes writer_defs Let_def min_def split: if_splits)

lemma elw_append_fsync:
  "snd (elw_append io r w) \<Longrightarrow> elw_mode w = FsyncOnAppend \<Longrightarrow>
     lf_kernel (elw_file (fst (elw_append io r w))) = [] \<and> lf_buffer (elw_file (fst (elw_append io r w))) = []"
  by (auto simp: elw_append_def encode_record_bytes writer_defs Let_def split: if_splits)

lemma elw_append_stable:
  "\<exists>ys. lf_stable (elw_file (fst (elw_append io r w))) = lf_stable (elw_file w) @ ys"
  by (auto simp: elw_append_def writer_defs Let_def split: option.split)

lemma elw_sync_durable:
  "snd (elw_sync io w) \<Longrightarrow>
     lf_stable (elw_file (fst (elw_sync io w))) = lf_all (elw_file w) \<and>
     \<not> elw_directory_sync_pending (fst (elw_sync io w))"
  using hand_over_simps(1) [of "length (lf_buffer (elw_file w))" "elw_file w"]
  by (auto simp: elw_sync_def writer_defs Let_def lf_all_def simp del: hand_over_simps(1) split: if_splits)

lemma elw_append_all_acked:
  assumes "elw_append_all xs w = (w', oks)" "False \<notin> set oks"
  shows "lf_all (elw_file w') = lf_all (elw_file w) @ concat (map (record_bytes \<circ> snd) xs) \<and>
    elw_mode w' = elw_mode w \<and> elw_open w' = elw_open w \<and>
    (elw_mode w = FsyncOnAppend \<longrightarrow> lf_stable (elw_file w) = lf_all (elw_file w) \<longrightarrow>
       lf_stable (elw_file w') = lf_all (elw_file w'))"
  using assms
proof (induction xs arbitrary: w oks)
  case (Cons x xs)
  obtain io r where x: "x = (io, r)" by (cases x)
  let ?w = "fst (elw_append io r w)"
  obtain oks' where rest: "elw_append_all xs ?w = (w', oks')" and oks: "oks = snd (elw_append io r w) # oks'"
    using Cons.prems(1) unfolding x
    by (cases "elw_append io r w"; cases "elw_append_all xs (fst (elw_append io r w))") simp
  have ok: "snd (elw_append io r w)" and all: "False \<notin> set oks'" using Cons.prems(2) oks by auto
  have st: "elw_mode w = FsyncOnAppend \<Longrightarrow> lf_stable (elw_file ?w) = lf_all (elw_file ?w)"
    using elw_append_fsync [OF ok] by (simp add: lf_all_def)
  note IH = Cons.IH [OF rest all] and keeps = elw_append_keeps [of io r w]
  have "lf_all (elw_file w') = lf_all (elw_file w) @ concat (map (record_bytes \<circ> snd) (x # xs))"
    using IH elw_append_acked [OF ok] x by (simp add: comp_def)
  with IH st show ?case unfolding keeps by blast
qed simp

text \<open>
  In the synchronous mode the bytes of the records acknowledged before the first refusal are on
  stable storage, whatever becomes of the later appends.
\<close>

lemma elw_append_all_stable:
  assumes "elw_append_all xs w = (w', oks)"
  shows "\<exists>ys. lf_stable (elw_file w') = lf_stable (elw_file w) @ ys"
  using assms
proof (induction xs arbitrary: w oks)
  case (Cons x xs)
  obtain io r where x: "x = (io, r)" by (cases x)
  obtain oks' where "elw_append_all xs (fst (elw_append io r w)) = (w', oks')"
    using Cons.prems unfolding x by (auto split: prod.splits)
  then show ?case using Cons.IH elw_append_stable [of io r w] by (metis append.assoc)
qed simp

lemma elw_append_all_durable:
  assumes "elw_append_all xs w = (w', oks)" "elw_mode w = FsyncOnAppend" "lf_stable (elw_file w) = lf_all (elw_file w)"
  shows "\<exists>ys. lf_stable (elw_file w') =
    lf_all (elw_file w) @ concat (map (record_bytes \<circ> snd) (take (length (takeWhile id oks)) xs)) @ ys"
  using assms
proof (induction xs arbitrary: w oks)
  case (Cons x xs)
  obtain io r where x: "x = (io, r)" by (cases x)
  let ?w = "fst (elw_append io r w)"
  obtain oks' where rest: "elw_append_all xs ?w = (w', oks')" and oks: "oks = snd (elw_append io r w) # oks'"
    using Cons.prems(1) unfolding x by (auto split: prod.splits)
  show ?case
  proof (cases "snd (elw_append io r w)")
    case ok: True
    have "lf_stable (elw_file ?w) = lf_all (elw_file ?w)" using elw_append_fsync [OF ok Cons.prems(2)] by (simp add: lf_all_def)
    then show ?thesis
      using Cons.IH [OF rest] Cons.prems(2) elw_append_acked [OF ok] ok by (simp add: elw_append_keeps oks x)
  next
    case False
    then show ?thesis using elw_append_all_stable [OF Cons.prems(1)] Cons.prems(3) by (simp add: oks)
  qed
qed simp

text \<open>Where at most the last append was refused, the bytes are those records and a prefix of the last.\<close>

lemma elw_append_all_last:
  assumes "elw_append_all xs w = (w', oks)" "False \<notin> set (butlast oks)" "n = length (takeWhile id oks)"
  shows "(\<exists>k. lf_all (elw_file w') = lf_all (elw_file w) @ concat (map (record_bytes \<circ> snd) (take n xs)) @
    take k (concat (map (record_bytes \<circ> snd) (drop n xs)))) \<and> length xs \<le> Suc n"
  using assms
proof (induction xs arbitrary: w oks n)
  case (Cons x xs)
  obtain io r where x: "x = (io, r)" by (cases x)
  let ?w = "fst (elw_append io r w)"
  obtain oks' where rest: "elw_append_all xs ?w = (w', oks')" and oks: "oks = snd (elw_append io r w) # oks'"
    using Cons.prems(1) unfolding x by (auto split: prod.splits)
  show ?case
  proof (cases "snd (elw_append io r w)")
    case ok: True
    have "False \<notin> set (butlast oks')" using Cons.prems(2) oks by (auto split: if_splits)
    then show ?thesis using Cons.IH [OF rest _ refl] elw_append_acked [OF ok] ok Cons.prems(3) by (simp add: oks x)
  next
    case False
    have "oks' = []" using Cons.prems(2) False oks by (auto split: if_splits)
    then have xs: "xs = []" using rest by (cases xs) (auto split: prod.splits)
    then have "w' = ?w" "n = 0" using rest Cons.prems(3) False oks by auto
    moreover have "\<exists>k. (if elw_open w \<and> length (lr_payload r) \<le> 1048576 then take (io_fwrite io) (record_bytes r) else []) =
        take k (record_bytes r)"
      by (rule exI [of _ "if elw_open w \<and> length (lr_payload r) \<le> 1048576 then io_fwrite io else 0"]) simp
    ultimately show ?thesis using elw_append_all_bytes [of io r w] xs by (simp add: x)
  qed
qed simp

lemma recover_extends:
  assumes "recover_from bs off recs = (v, records, err)"
  shows "\<exists>more. records = recs @ more"
  using assms
proof (induction bs off recs rule: recover_from.induct)
  case (1 bs off recs)
  then show ?case
    by (subst (asm) (2) recover_from.simps) (force simp: Let_def split: if_splits)
qed

lemma recover_keeps_prefix:
  assumes "\<forall>r\<in>set rs. record_good r"
  shows "\<exists>more. rec_records (recover_log (concat (map record_bytes rs) @ ys)) = rs @ more"
proof -
  let ?bs = "concat (map record_bytes rs)"
  obtain v records err where r: "recover_from (?bs @ ys) (length ?bs) rs = (v, records, err)"
    by (cases "recover_from (?bs @ ys) (length ?bs) rs")
  then have "recover_from (?bs @ ys) 0 [] = (v, records, err)" using recover_records [OF assms, of "[]" ys "[]"] by simp
  then show ?thesis using recover_extends [OF r] by (auto simp: recover_log_def)
qed

text \<open>Repair, where it is refused, where it fails and where it succeeds, removes no record that recovery found.\<close>

lemma repair_keeps_records:
  "rec_records (recover_log (fst (repair_log_file resize_ok sync_ok bs (recover_log bs)))) = rec_records (recover_log bs)"
proof -
  obtain v records err where r: "recover_from bs 0 [] = (v, records, err)" by (cases "recover_from bs 0 []")
  have v: "v \<le> length bs" "recover_from (take v bs) 0 [] = (v, records, NoLogError)" using recover_prefix [OF r] by simp_all
  then show ?thesis using r by (simp add: repair_log_file_def recover_log_def)
qed

lemma recover_cut_append:
  assumes "\<forall>r\<in>set rs. record_good r" "record_good r"
  shows "rec_records (recover_log (concat (map record_bytes rs) @ take n (record_bytes r))) =
    (if n < length (record_bytes r) then rs else rs @ [r])"
proof -
  consider "n = 0" | "0 < n" "n < length (record_bytes r)" | "length (record_bytes r) \<le> n" by linarith
  then show ?thesis
  proof cases
    case 1
    then show ?thesis using recover_log_records [OF assms(1)] by (simp add: recover_log_def)
  next
    case 2
    then show ?thesis using recover_torn_append [OF assms 2] by (simp add: recover_log_def)
  next
    case 3
    then have "concat (map record_bytes rs) @ take n (record_bytes r) = concat (map record_bytes (rs @ [r]))" by simp
    moreover have "recover_from (concat (map record_bytes (rs @ [r]))) 0 [] =
        (length (concat (map record_bytes (rs @ [r]))), rs @ [r], NoLogError)"
      by (rule recover_log_records) (use assms in auto)
    ultimately have "rec_records (recover_log (concat (map record_bytes rs) @ take n (record_bytes r))) = rs @ [r]"
      by (simp only: recover_log_def) simp
    with 3 show ?thesis by (simp only: not_less [THEN iffD2] if_False)
  qed
qed

end
