(* ===== verification/Mersenne_Twister.thy ===== *)
theory Mersenne_Twister
  imports Qsl_Prelude
begin

text \<open>
  \<^verbatim>\<open>std::mt19937_64\<close>, the generator the flow generators draw from, with the parameters of the C++
  standard. The state is the window of the last 312 words, oldest first.
\<close>

unbundle bit_operations_syntax

type_synonym mt19937_64 = "64 word list"

definition mt_n :: nat where "mt_n = 312"
definition mt_m :: nat where "mt_m = 156"

fun mt_seed_from :: "nat \<Rightarrow> nat \<Rightarrow> 64 word \<Rightarrow> 64 word list" where
  "mt_seed_from 0 i x = []"
| "mt_seed_from (Suc k) i x =
     x # mt_seed_from k (Suc i) (6364136223846793005 * (x XOR drop_bit 62 x) + of_nat (Suc i))"

definition mt_seed :: "64 word \<Rightarrow> mt19937_64" where
  "mt_seed seed = mt_seed_from mt_n 0 seed"

definition mt_twist :: "64 word \<Rightarrow> 64 word \<Rightarrow> 64 word \<Rightarrow> 64 word" where
  "mt_twist x0 x1 xm =
     (let y = (x0 AND 0xFFFFFFFF80000000) OR (x1 AND 0x7FFFFFFF)
      in xm XOR drop_bit 1 y XOR (if bit y 0 then 0xB5026F5AA96619E9 else 0))"

definition mt_temper :: "64 word \<Rightarrow> 64 word" where
  "mt_temper z =
     (let z = z XOR (drop_bit 29 z AND 0x5555555555555555);
          z = z XOR (push_bit 17 z AND 0x71D67FFFEDA60000);
          z = z XOR (push_bit 37 z AND 0xFFF7EEE000000000)
      in z XOR drop_bit 43 z)"

text \<open>One call of the generator: the drawn value and the next state.\<close>

definition mt_next :: "mt19937_64 \<Rightarrow> 64 word \<times> mt19937_64" where
  "mt_next st = (let x = mt_twist (st ! 0) (st ! 1) (st ! mt_m) in (mt_temper x, tl st @ [x]))"

text \<open>\<^verbatim>\<open>rng() % n\<close>\<close>

definition draw :: "64 word \<Rightarrow> mt19937_64 \<Rightarrow> 64 word \<times> mt19937_64" where
  "draw n st = (let (x, st') = mt_next st in (x mod n, st'))"

lemma length_mt_seed [simp]: "length (mt_seed s) = mt_n"
proof -
  have "length (mt_seed_from k i x) = k" for k i x by (induction k arbitrary: i x) simp_all
  then show ?thesis by (simp add: mt_seed_def)
qed

lemma length_mt_next [simp]: "st \<noteq> [] \<Longrightarrow> length (snd (mt_next st)) = length st"
  by (simp add: mt_next_def Let_def)

lemma draw_less: "0 < n \<Longrightarrow> fst (draw n st) < n"
  by (simp add: draw_def Let_def case_prod_unfold word_less_nat_alt unat_mod)

end
