(* ===== verification/Decimal.thy ===== *)
theory Decimal
  imports Qsl_Prelude
begin

text \<open>
  Decimal text as the sources use it from the C++ library: \<^verbatim>\<open>std::to_string\<close> and stream output of
  integers, and \<^verbatim>\<open>std::from_chars\<close> in base ten with its three outcomes.
\<close>

section \<open>Printing\<close>

definition digit_char :: "nat \<Rightarrow> char" where
  "digit_char d = char_of (48 + d)"

fun string_of_nat :: "nat \<Rightarrow> string" where
  "string_of_nat n = (if n < 10 then [digit_char n] else string_of_nat (n div 10) @ [digit_char (n mod 10)])"

declare string_of_nat.simps [simp del]

definition string_of_int :: "int \<Rightarrow> string" where
  "string_of_int i = (if i < 0 then CHR ''-'' # string_of_nat (nat (- i)) else string_of_nat (nat i))"

definition string_of_word :: "'a::len word \<Rightarrow> string" where
  "string_of_word w = string_of_nat (unat w)"

section \<open>Reading\<close>

definition is_digit :: "char \<Rightarrow> bool" where
  "is_digit c \<longleftrightarrow> 48 \<le> (of_char c :: nat) \<and> (of_char c :: nat) \<le> 57"

definition digit_value :: "char \<Rightarrow> nat" where
  "digit_value c = of_char c - 48"

definition nat_of_digits :: "string \<Rightarrow> nat" where
  "nat_of_digits ds = foldl (\<lambda>n c. 10 * n + digit_value c) 0 ds"

text \<open>
  \<^verbatim>\<open>from_chars\<close>: \<^verbatim>\<open>errc::invalid_argument\<close> when there is no number, \<^verbatim>\<open>errc::result_out_of_range\<close> when it
  does not fit, otherwise the value and the text from \<^verbatim>\<open>ptr\<close> on. Only a signed target takes a minus sign.
\<close>

datatype 'a from_chars = InvalidArgument | ResultOutOfRange | Converted 'a string

definition from_chars_unsigned :: "string \<Rightarrow> 'a::len word from_chars" where
  "from_chars_unsigned s =
     (let ds = takeWhile is_digit s
      in if ds = [] then InvalidArgument
         else if 2 ^ LENGTH('a) \<le> nat_of_digits ds then ResultOutOfRange
         else Converted (of_nat (nat_of_digits ds)) (dropWhile is_digit s))"

definition from_chars_signed :: "string \<Rightarrow> 'a::len word from_chars" where
  "from_chars_signed s =
     (let neg = (case s of c # _ \<Rightarrow> c = CHR ''-'' | [] \<Rightarrow> False);
          t = (if neg then tl s else s);
          ds = takeWhile is_digit t;
          v = (if neg then - int (nat_of_digits ds) else int (nat_of_digits ds))
      in if ds = [] then InvalidArgument
         else if v < - (2 ^ (LENGTH('a) - 1)) \<or> 2 ^ (LENGTH('a) - 1) \<le> v then ResultOutOfRange
         else Converted (of_int v) (dropWhile is_digit t))"

section \<open>Round trips\<close>

lemma digit_code: "d < 10 \<Longrightarrow> (of_char (digit_char d) :: nat) = 48 + d"
  by (simp add: digit_char_def of_char_of)

lemma digit_char_simps [simp]:
  "d < 10 \<Longrightarrow> is_digit (digit_char d)" "d < 10 \<Longrightarrow> digit_value (digit_char d) = d"
  by (simp_all add: is_digit_def digit_value_def digit_code)

lemma string_of_nat_digits: "list_all is_digit (string_of_nat n)"
proof (induction n rule: string_of_nat.induct)
  case (1 n)
  then show ?case by (cases "n < 10") (simp_all add: string_of_nat.simps [of n])
qed

lemma string_of_nat_Nil [simp]: "string_of_nat n \<noteq> []"
  by (simp add: string_of_nat.simps [of n])

lemma nat_of_digits_snoc: "nat_of_digits (ds @ [c]) = 10 * nat_of_digits ds + digit_value c"
  by (simp add: nat_of_digits_def)

lemma nat_of_string_of_nat [simp]: "nat_of_digits (string_of_nat n) = n"
proof (induction n rule: string_of_nat.induct)
  case (1 n)
  show ?case
  proof (cases "n < 10")
    case True
    then show ?thesis by (simp add: string_of_nat.simps [of n] nat_of_digits_def)
  next
    case False
    then have "nat_of_digits (string_of_nat n) = 10 * (n div 10) + n mod 10"
      using 1 by (simp add: string_of_nat.simps [of n] nat_of_digits_snoc)
    then show ?thesis by simp
  qed
qed

lemma string_of_nat_inject [simp]: "string_of_nat m = string_of_nat n \<longleftrightarrow> m = n"
  by (metis nat_of_string_of_nat)

lemma takeWhile_digits:
  assumes "rest = [] \<or> \<not> is_digit (hd rest)"
  shows "takeWhile is_digit (string_of_nat n @ rest) = string_of_nat n"
    "dropWhile is_digit (string_of_nat n @ rest) = rest"
proof -
  have d: "\<And>c. c \<in> set (string_of_nat n) \<Longrightarrow> is_digit c"
    using string_of_nat_digits [of n] by (simp add: list_all_iff)
  have t: "takeWhile is_digit rest = []" "dropWhile is_digit rest = rest"
    using assms by (cases rest; simp)+
  show "takeWhile is_digit (string_of_nat n @ rest) = string_of_nat n"
    using takeWhile_append2 [of "string_of_nat n" is_digit rest] d t(1) by simp
  show "dropWhile is_digit (string_of_nat n @ rest) = rest"
    using dropWhile_append2 [of "string_of_nat n" is_digit rest] d t(2) by simp
qed

lemma from_chars_unsigned_round_trip:
  fixes w :: "'a::len word"
  assumes "rest = [] \<or> \<not> is_digit (hd rest)"
  shows "from_chars_unsigned (string_of_word w @ rest) = Converted w rest"
proof -
  have "\<not> 2 ^ LENGTH('a) \<le> unat w" by (simp add: not_le unsigned_less)
  then show ?thesis
    by (simp add: from_chars_unsigned_def string_of_word_def takeWhile_digits [OF assms])
qed

lemma minus_not_digit [simp]: "\<not> is_digit (CHR ''-'')"
  by (simp add: is_digit_def)

lemma hd_string_of_nat: "is_digit (hd (string_of_nat n @ rest))"
  using string_of_nat_digits [of n] by (cases "string_of_nat n") (simp_all add: string_of_nat_Nil)

lemma from_chars_signed_round_trip:
  fixes w :: "'a::len word"
  assumes "rest = [] \<or> \<not> is_digit (hd rest)"
  shows "from_chars_signed (string_of_int (sint w) @ rest) = Converted w rest"
proof -
  have r: "- (2 ^ (LENGTH('a) - 1)) \<le> sint w" "sint w < 2 ^ (LENGTH('a) - 1)"
    by (rule sint_ge sint_lt)+
  show ?thesis
  proof (cases "sint w < 0")
    case True
    then show ?thesis
      using r by (simp add: from_chars_signed_def string_of_int_def takeWhile_digits [OF assms] Let_def)
  next
    case False
    have "(case string_of_nat (nat (sint w)) @ rest of [] \<Rightarrow> False | c # _ \<Rightarrow> c = CHR ''-'') = False"
      using hd_string_of_nat [of "nat (sint w)" rest]
      by (cases "string_of_nat (nat (sint w)) @ rest") auto
    then show ?thesis
      using r False
      by (simp add: from_chars_signed_def string_of_int_def takeWhile_digits [OF assms] Let_def)
  qed
qed

lemma string_of_word_inject [simp]: "string_of_word v = string_of_word w \<longleftrightarrow> v = w"
  by (simp add: string_of_word_def word_unat_eq_iff)

end
