(* ===== verification/Recovery.thy ===== *)
theory Recovery
  imports Command_Codec Event_Log Mersenne_Twister Decimal
begin

text \<open>
  \<^verbatim>\<open>src/replay/recovery.cpp\<close>: applying recorded commands straight to the engine, replaying a log, and
  the two deterministic flow generators. The generator object is a record passed through each
  of its methods; a draw from \<^verbatim>\<open>rng_\<close> advances the Mersenne twister.
\<close>

section \<open>Replay\<close>

text \<open>Returns the engine, and the events copied out of it.\<close>

fun replay_apply :: "MatchingEngine \<Rightarrow> Command \<Rightarrow> MatchingEngine \<times> EngineEvent list" where
  "replay_apply e (RegisterSymbol name) = (fst (register_symbol name e), [])"
| "replay_apply e (NewLimit symbol i side price quantity tif) =
     (let e = me_new_limit symbol i side price quantity tif e in (e, me_events e))"
| "replay_apply e (NewMarket symbol i side quantity) =
     (let e = me_new_market symbol i side quantity e in (e, me_events e))"
| "replay_apply e (Cancel symbol i) = (let e = me_cancel symbol i e in (e, me_events e))"
| "replay_apply e (Modify symbol i price quantity) =
     (let e = me_modify symbol i price quantity e in (e, me_events e))"

fun replay :: "MatchingEngine \<Rightarrow> LogRecord list \<Rightarrow> MatchingEngine \<times> EngineEvent list" where
  "replay e [] = (e, [])"
| "replay e (r # rs) =
     (if lr_type r \<noteq> CommandRecord then replay e rs
      else
        case decode_command (lr_payload r) of
          None \<Rightarrow> replay e rs
        | Some command \<Rightarrow>
            let (e, produced) = replay_apply e command; (e, events) = replay e rs
            in (e, produced @ events))"

section \<open>The market-like flow\<close>

record ActiveOrder =
  ao_symbol :: SymbolId
  ao_id :: OrderId
  ao_side :: Side
  ao_price :: Price
  ao_quantity :: Quantity

record FlowGenerator =
  fg_rng :: mt19937_64
  fg_symbols :: SymbolId
  fg_model :: MatchingEngine
  fg_active :: "ActiveOrder list"
  fg_mid :: "Price list"
  fg_next_id :: OrderId

definition fg_new :: "64 word \<Rightarrow> SymbolId \<Rightarrow> FlowGenerator" where
  "fg_new seed symbols =
     \<lparr>fg_rng = mt_seed seed, fg_symbols = symbols, fg_model = me_new Baseline, fg_active = [],
      fg_mid = [], fg_next_id = 1\<rparr>"

definition fg_draw :: "64 word \<Rightarrow> FlowGenerator \<Rightarrow> 64 word \<times> FlowGenerator" where
  "fg_draw n g = (let (x, st) = draw n (fg_rng g) in (x, g\<lparr>fg_rng := st\<rparr>))"

definition symbol_name :: "SymbolId \<Rightarrow> string" where
  "symbol_name s = CHR ''S'' # string_of_word s"

definition registrations :: "SymbolId \<Rightarrow> Command list" where
  "registrations symbols = map (\<lambda>s. RegisterSymbol (symbol_name (of_nat s))) [0..<unat symbols]"

definition register_symbols :: "Command list \<Rightarrow> FlowGenerator \<Rightarrow> FlowGenerator" where
  "register_symbols flow g = g\<lparr>fg_model := foldl (\<lambda>e c. fst (replay_apply e c)) (fg_model g) flow\<rparr>"

definition initial_mid :: "SymbolId \<Rightarrow> Price" where
  "initial_mid s = Ticks (100 + ucast (s * 5))"

definition initialize_mid_prices :: "FlowGenerator \<Rightarrow> FlowGenerator" where
  "initialize_mid_prices g = g\<lparr>fg_mid := map (\<lambda>s. initial_mid (of_nat s)) [0..<unat (fg_symbols g)]\<rparr>"

definition choose_symbol :: "FlowGenerator \<Rightarrow> SymbolId \<times> FlowGenerator" where
  "choose_symbol g =
     (if fg_symbols g = 1 then (0, g)
      else
        let (x, g) = fg_draw 100 g
        in if x < 55 then (0, g)
           else let (y, g) = fg_draw (ucast (fg_symbols g - 1)) g in (ucast (1 + y), g))"

definition mid_at :: "FlowGenerator \<Rightarrow> SymbolId \<Rightarrow> 64 word" where
  "mid_at g symbol = ticks (fg_mid g ! unat symbol)"

definition clamp :: "Price \<Rightarrow> Price \<Rightarrow> Price \<Rightarrow> Price" where
  "clamp v lo hi = (if v < lo then lo else if hi < v then hi else v)"

definition drift_mid :: "SymbolId \<Rightarrow> FlowGenerator \<Rightarrow> FlowGenerator" where
  "drift_mid symbol g =
     (let (x, g) = fg_draw 3 g
      in g\<lparr>fg_mid := (fg_mid g)[unat symbol := clamp (Ticks (mid_at g symbol + x - 1)) (Ticks 80) (Ticks 140)]\<rparr>)"

definition resting_price :: "SymbolId \<Rightarrow> Side \<Rightarrow> FlowGenerator \<Rightarrow> Price \<times> FlowGenerator" where
  "resting_price symbol side g =
     (let (x, g) = fg_draw 3 g; spread = 1 + x
      in (if side = Buy then Ticks (mid_at g symbol - spread) else Ticks (mid_at g symbol + spread), g))"

definition crossing_price :: "SymbolId \<Rightarrow> Side \<Rightarrow> FlowGenerator \<Rightarrow> Price \<times> FlowGenerator" where
  "crossing_price symbol side g =
     (let (x, g) = fg_draw 4 g; offset = 1 + x
      in (if side = Buy then Ticks (mid_at g symbol + offset) else Ticks (mid_at g symbol - offset), g))"

definition refresh_active :: "FlowGenerator \<Rightarrow> FlowGenerator" where
  "refresh_active g =
     g\<lparr>fg_active := filter (\<lambda>order. me_contains (ao_symbol order) (ao_id order) (fg_model g)) (fg_active g)\<rparr>"

definition target_active :: "FlowGenerator \<Rightarrow> ActiveOrder \<times> FlowGenerator" where
  "target_active g = (let (x, g) = fg_draw (of_nat (length (fg_active g))) g in (fg_active g ! unat x, g))"

definition choose_tif :: "bool \<Rightarrow> FlowGenerator \<Rightarrow> TimeInForce \<times> FlowGenerator" where
  "choose_tif crosses g =
     (let (ioc, g) = (if crosses then let (x, g) = fg_draw 100 g in (x < 35, g) else (False, g))
      in if ioc then (IOC, g)
         else let (y, g) = fg_draw 100 g in (if y < 8 then IOC else GTC, g))"

definition next_id_inc :: "FlowGenerator \<Rightarrow> OrderId \<times> FlowGenerator" where
  "next_id_inc g = (fg_next_id g, g\<lparr>fg_next_id := fg_next_id g + 1\<rparr>)"

definition make_limit :: "SymbolId \<Rightarrow> FlowGenerator \<Rightarrow> Command \<times> FlowGenerator" where
  "make_limit symbol g =
     (let (x, g) = fg_draw 2 g; side = (if x = 0 then Buy else Sell);
          (y, g) = fg_draw 100 g; crosses = y < 18;
          (tif, g) = choose_tif crosses g;
          (price, g) = (if crosses then crossing_price symbol side g else resting_price symbol side g);
          (q, g) = fg_draw 12 g; qty = ucast (1 + q);
          (i, g) = next_id_inc g
      in (NewLimit symbol i side price qty tif, g))"

definition make_market :: "SymbolId \<Rightarrow> FlowGenerator \<Rightarrow> Command \<times> FlowGenerator" where
  "make_market symbol g =
     (let (x, g) = fg_draw 2 g; side = (if x = 0 then Buy else Sell);
          (q, g) = fg_draw 12 g; qty = ucast (1 + q);
          (i, g) = next_id_inc g
      in (NewMarket symbol i side qty, g))"

definition make_cancel :: "FlowGenerator \<Rightarrow> Command \<times> FlowGenerator" where
  "make_cancel g =
     (let (target, g) = target_active g;
          (x, g) = fg_draw 10 g;
          (i, g) = (if x = 0 then let (y, g) = fg_draw 5 g in (fg_next_id g + y, g) else (ao_id target, g))
      in (Cancel (ao_symbol target) i, g))"

definition make_modify :: "FlowGenerator \<Rightarrow> Command \<times> FlowGenerator" where
  "make_modify g =
     (let (target, g) = target_active g;
          (x, g) = fg_draw 100 g; crosses = x < 20;
          (price, g) = (if crosses then crossing_price (ao_symbol target) (ao_side target) g
                        else resting_price (ao_symbol target) (ao_side target) g);
          (y, g) = fg_draw 100 g;
          (qty, g) = (if y < 45 then (1 + ao_quantity target div 2, g)
                      else let (q, g) = fg_draw 12 g in (ucast (1 + q), g))
      in (Modify (ao_symbol target) (ao_id target) price qty, g))"

definition next_command :: "SymbolId \<Rightarrow> FlowGenerator \<Rightarrow> Command \<times> FlowGenerator" where
  "next_command symbol g =
     (let (pick, g) = fg_draw 100 g
      in if fg_active g = [] \<or> pick < 58 then make_limit symbol g
         else if pick < 70 then make_market symbol g
         else if pick < 86 then make_cancel g
         else make_modify g)"

definition apply_and_track :: "Command \<Rightarrow> FlowGenerator \<Rightarrow> FlowGenerator" where
  "apply_and_track command g =
     (let g = g\<lparr>fg_model := fst (replay_apply (fg_model g) command)\<rparr>
      in case command of
           NewLimit symbol i side price quantity tif \<Rightarrow>
             if me_contains symbol i (fg_model g) then
               g\<lparr>fg_active := fg_active g @ [\<lparr>ao_symbol = symbol, ao_id = i, ao_side = side, ao_price = price,
                                             ao_quantity = quantity\<rparr>]\<rparr>
             else g
         | _ \<Rightarrow> g)"

definition append_next :: "FlowGenerator \<Rightarrow> Command \<times> FlowGenerator" where
  "append_next g =
     (let (symbol, g) = choose_symbol g;
          g = drift_mid symbol g;
          g = refresh_active g;
          (command, g) = next_command symbol g
      in (command, apply_and_track command g))"

fun append_many :: "nat \<Rightarrow> FlowGenerator \<Rightarrow> Command list" where
  "append_many 0 g = []"
| "append_many (Suc k) g = (let (command, g) = append_next g in command # append_many k g)"

definition generate_flow :: "64 word \<Rightarrow> SymbolId \<Rightarrow> nat \<Rightarrow> Command list" where
  "generate_flow seed symbols orders =
     (let g = fg_new seed symbols; flow = registrations symbols
      in if symbols = 0 then flow
         else flow @ append_many orders (initialize_mid_prices (register_symbols flow g)))"

section \<open>The property-test flow\<close>

text \<open>One iteration of the loop of \<^verbatim>\<open>generate_property_flow\<close>: the state is the generator and \<^verbatim>\<open>next_id\<close>.\<close>

definition property_step :: "SymbolId \<Rightarrow> mt19937_64 \<times> OrderId \<Rightarrow> Command \<times> mt19937_64 \<times> OrderId" where
  "property_step symbols = (\<lambda>(rng, next_id).
     let (x, rng) = draw (ucast (symbols + 1)) rng; symbol = ucast x;
         (x, rng) = draw 2 rng; side = (if x = 0 then Buy else Sell);
         (x, rng) = draw 12 rng;
         (price, rng) = (if x = 0 then (Ticks 0, rng) else let (y, rng) = draw 11 rng in (Ticks (95 + y), rng));
         (qr, rng) = draw 12 rng;
         (qty, rng) = (if qr = 0 then (0, rng) else if qr = 1 then (50, rng)
                       else let (y, rng) = draw 10 rng in (ucast (1 + y), rng));
         (x, rng) = draw 3 rng; tif = (if x = 0 then IOC else GTC);
         (pick, rng) = draw 12 rng
     in if pick < 6 then
          let (i, rng, next_id) =
                (if pick = 5 \<and> next_id > 1 then let (y, rng) = draw (next_id - 1) rng in (1 + y, rng, next_id)
                 else (next_id, rng, next_id + 1))
          in (NewLimit symbol i side price qty tif, rng, next_id)
        else if pick < 7 then (NewMarket symbol next_id side qty, rng, next_id + 1)
        else if pick < 9 then let (y, rng) = draw next_id rng in (Cancel symbol (1 + y), rng, next_id)
        else let (y, rng) = draw next_id rng in (Modify symbol (1 + y) price qty, rng, next_id))"

fun property_steps :: "nat \<Rightarrow> SymbolId \<Rightarrow> mt19937_64 \<times> OrderId \<Rightarrow> Command list" where
  "property_steps 0 symbols st = []"
| "property_steps (Suc k) symbols st =
     (let (command, st) = property_step symbols st in command # property_steps k symbols st)"

definition generate_property_flow :: "64 word \<Rightarrow> SymbolId \<Rightarrow> nat \<Rightarrow> Command list" where
  "generate_property_flow seed symbols orders =
     map (\<lambda>s. RegisterSymbol (symbol_name (of_nat s))) [0..<unat symbols] @
     property_steps orders symbols (mt_seed seed, 1)"

end
