(* ===== verification/Log_Properties.thy ===== *)
theory Log_Properties
  imports Log_Writer Recovery Engine_Properties "HOL-Library.Sublist" "HOL-Library.Code_Target_Nat"
begin

text \<open>
  Correctness of the event log and of recovery: round trips, detection of corruption, what
  survives a crash, and that replay rebuilds the engine.
\<close>

unbundle bit_operations_syntax

section \<open>Corruption of one byte\<close>

lemma load_be_bytes_snoc: "load_be_bytes (bs @ [b]) = push_bit 8 (load_be_bytes bs) OR ucast b"
  by (simp add: load_be_bytes_def)

lemma load_be_bytes_small:
  fixes bs :: bytes
  shows "bit (load_be_bytes bs :: 'a::len word) i \<Longrightarrow> i < 8 * length bs"
proof (induction bs arbitrary: i rule: rev_induct)
  case (snoc b bs)
  have "bit b i \<Longrightarrow> i < 8" using bit_imp_le_length [of b i] by simp
  moreover have "8 \<le> i \<and> bit (load_be_bytes bs :: 'a word) (i - 8) \<or> bit b i"
    using snoc.prems by (auto simp: load_be_bytes_snoc bit_simps)
  ultimately show ?case using snoc.IH [of "i - 8"] by auto
qed (simp add: load_be_bytes_def)

lemma be_bytes_load_be_bytes:
  assumes "8 * length bs \<le> LENGTH('a)"
  shows "be_bytes (length bs) (load_be_bytes bs :: 'a::len word) = bs"
  using assms
proof (induction bs rule: rev_induct)
  case (snoc b bs)
  let ?v = "load_be_bytes bs :: 'a word"
  have "drop_bit 8 (push_bit 8 ?v OR ucast b) = ?v"
  proof (rule bit_word_eqI)
    fix i assume "i < LENGTH('a)"
    moreover have "bit ?v i \<Longrightarrow> i + 8 < LENGTH('a)" using load_be_bytes_small [of bs i] snoc.prems by fastforce
    moreover have "\<not> bit b (8 + i)" using bit_imp_le_length [of b "8 + i"] by auto
    ultimately show "bit (drop_bit 8 (push_bit 8 ?v OR ucast b)) i = bit ?v i"
      by (auto simp: bit_simps)
  qed
  moreover have "(ucast (push_bit 8 ?v OR ucast b) :: byte) = b"
  proof (rule bit_word_eqI)
    fix i assume "i < LENGTH(8)"
    then show "bit (ucast (push_bit 8 ?v OR ucast b) :: byte) i = bit b i"
      using snoc.prems by (auto simp: bit_simps)
  qed
  ultimately show ?case using snoc by (simp add: load_be_bytes_snoc)
qed simp

lemma load_be_update:
  fixes bs :: bytes
  assumes "off \<le> k" "k < off + n" "off + n \<le> length bs" "b \<noteq> bs ! k" "8 * n \<le> LENGTH('a)"
  shows "load_be n off (bs[k := b]) \<noteq> (load_be n off bs :: 'a::len word)"
proof
  have len: "length (read_at off n (bs[k := b])) = n" "length (read_at off n bs) = n"
    using assms(3) by (simp_all add: read_at_def)
  assume "load_be n off (bs[k := b]) = (load_be n off bs :: 'a word)"
  then have "read_at off n (bs[k := b]) = read_at off n bs"
    using be_bytes_load_be_bytes [where ?'a = 'a] len assms(5) unfolding load_be_def by metis
  then have "read_at off n (bs[k := b]) ! (k - off) = read_at off n bs ! (k - off)" by simp
  then show False using assms(1-4) by (simp add: read_at_def)
qed

lemma decode_record_corrupted:
  assumes "record_good r" "k < length (record_bytes r)" "k < 18 \<or> 22 \<le> k" "b \<noteq> record_bytes r ! k"
  shows "rr_error (decode_record (xs @ (record_bytes r)[k := b] @ ys) (length xs)) = BadChecksum"
proof -
  let ?n = "length (lr_payload r)" and ?rb = "record_bytes r"
  let ?p = "?rb[k := b] @ ys" and ?data = "record_head r @ lr_payload r"
  have rb: "?rb = ?data @ be_bytes 4 (checksum ?data)" by (simp add: record_bytes_def)
  have kl: "k < 26 + ?n" using assms(2) by simp
  have n: "unat (of_nat ?n :: 32 word) = ?n" "\<not> kMaxPayload < (of_nat ?n :: 32 word)"
    using assms(1) by (simp_all add: record_good_def unat_payload_size log_consts word_less_nat_alt)
  have 18: "load_be 4 18 ?p = (of_nat ?n :: 32 word)"
  proof -
    have "load_be 4 18 ?p = (load_be 4 18 (?rb[k := b]) :: 32 word)" by (rule load_be_append) simp
    also have "\<dots> = load_be 4 18 ?rb"
      using read_store_byte_other [of 18 4 k ?rb b] assms(3) by (auto simp: load_be_def store_byte_def)
    finally show ?thesis by (simp add: record_bytes_def load_record_head)
  qed
  have "(load_be 4 (22 + ?n) ?p :: 32 word) \<noteq> checksum (take (22 + ?n) ?p)"
  proof (cases "k < 22 + ?n")
    case True
    have "load_be 4 (22 + ?n) ?p = (load_be 4 (22 + ?n) (?rb[k := b]) :: 32 word)" by (rule load_be_append) simp
    also have "\<dots> = load_be 4 (22 + ?n) ?rb"
      using read_store_byte_other [of "22 + ?n" 4 k ?rb b] True by (auto simp: load_be_def store_byte_def)
    also have "\<dots> = checksum ?data"
      unfolding rb by (subst load_be_concat) (simp_all add: load_be_front [where ys = "[]", simplified])
    finally have st: "load_be 4 (22 + ?n) ?p = checksum ?data" .
    have "take (22 + ?n) ?p = ?data[k := b]"
    proof -
      have len: "length (?data[k := b]) = 22 + ?n" by simp
      have "?p = ?data[k := b] @ be_bytes 4 (checksum ?data) @ ys"
        unfolding rb using True by (subst list_update_append1) simp_all
      then show ?thesis using append_eq_conv_conj [THEN iffD1, OF refl, of "?data[k := b]"] len by metis
    qed
    also have "\<dots> = take k ?data @ b # drop (Suc k) ?data" by (rule upd_conv_take_nth_drop) (simp add: True)
    finally have c: "take (22 + ?n) ?p = take k ?data @ b # drop (Suc k) ?data" .
    have "?data = take k ?data @ ?data ! k # drop (Suc k) ?data" by (rule id_take_nth_drop) (simp add: True)
    moreover have "?rb ! k = ?data ! k" unfolding rb by (rule nth_append_left) (simp add: True)
    then have "b \<noteq> ?data ! k" using assms(4) by simp
    ultimately show ?thesis using checksum_single_byte [of "?data ! k" b "take k ?data" "drop (Suc k) ?data"]
      unfolding st c by metis
  next
    case False
    have "load_be 4 (22 + ?n) ?p = (load_be 4 (22 + ?n) (?rb[k := b]) :: 32 word)" by (rule load_be_append) simp
    moreover have "(load_be 4 (22 + ?n) (?rb[k := b]) :: 32 word) \<noteq> load_be 4 (22 + ?n) ?rb"
      using False kl assms(4) by (intro load_be_update) simp_all
    moreover have "load_be 4 (22 + ?n) ?rb = checksum ?data"
      unfolding rb by (subst load_be_concat) (simp_all add: load_be_front [where ys = "[]", simplified])
    moreover have "take (22 + ?n) ?p = ?data" using False by (simp add: take_update_cancel record_bytes_def)
    ultimately show ?thesis by simp
  qed
  then show ?thesis
    by (simp add: decode_record_def Let_def log_consts(1,2) 18 n)
qed

section \<open>Replay of what was logged\<close>

text \<open>The record a command is logged as.\<close>

definition command_record :: "SeqNo \<Rightarrow> Command \<Rightarrow> LogRecord" where
  "command_record n c = \<lparr>lr_seq_no = n, lr_type = CommandRecord, lr_logical_timestamp = n, lr_payload = encode_command c\<rparr>"

definition accepted_commands :: "Command list \<Rightarrow> GatewayResult list \<Rightarrow> Command list" where
  "accepted_commands cs rs = map fst (filter (\<lambda>(c, r). gr_accepted r) (zip cs rs))"

lemma replay_apply_accepted:
  assumes "apply_command config c e = (e', r)" "gr_accepted r"
  shows "replay_apply e c = (e', gr_events r)"
  using assms
  by (cases c)
    (auto simp: gw_new_limit_def gw_new_market_def gw_cancel_def gw_modify_def Let_def split: if_splits)

lemma replay_run:
  assumes "run_commands config cs e = (e', rs)" "\<forall>c\<in>set cs. command_good c"
    and "length ns = length (accepted_commands cs rs)"
  shows "replay e (map2 command_record ns (accepted_commands cs rs)) = (e', concat (map gr_events rs))"
  using assms
proof (induction cs arbitrary: e rs ns)
  case Nil
  then show ?case by (simp add: accepted_commands_def)
next
  case (Cons c cs)
  obtain e1 r where a: "apply_command config c e = (e1, r)" by (cases "apply_command config c e")
  obtain rs' where run: "run_commands config cs e1 = (e', rs')" and rs: "rs = r # rs'"
    using Cons.prems(1) a by (auto split: prod.splits)
  have good: "\<forall>c\<in>set cs. command_good c" using Cons.prems(2) by simp
  show ?case
  proof (cases "gr_accepted r")
    case True
    then have acc: "accepted_commands (c # cs) (r # rs') = c # accepted_commands cs rs'"
      by (simp add: accepted_commands_def)
    then obtain n ns' where ns: "ns = n # ns'" "length ns' = length (accepted_commands cs rs')"
      using Cons.prems(3) by (cases ns) (auto simp: rs)
    show ?thesis
      using Cons.IH [OF run good ns(2)] replay_apply_accepted [OF a True] command_round_trip [of c] Cons.prems(2)
      by (simp add: acc ns(1) rs command_record_def)
  next
    case False
    then have "accepted_commands (c # cs) (r # rs') = accepted_commands cs rs'"
      by (simp add: accepted_commands_def)
    then show ?thesis
      using Cons.IH [OF run good] Cons.prems(3) apply_command_reject [OF a False] by (simp add: rs)
  qed
qed

lemma elw_append_all_small:
  assumes "elw_append_all xs w = (w', oks)" "False \<notin> set oks"
  shows "\<forall>r\<in>set (map snd xs). length (lr_payload r) \<le> 1048576"
  using assms
proof (induction xs arbitrary: w oks)
  case (Cons x xs)
  obtain io r where x: "x = (io, r)" by (cases x)
  obtain w1 ok where a: "elw_append io r w = (w1, ok)" by (cases "elw_append io r w")
  obtain oks' where rest: "elw_append_all xs w1 = (w', oks')" and oks: "oks = ok # oks'"
    using Cons.prems(1) a by (auto simp: x split: prod.splits)
  show ?case
    using Cons.IH [OF rest] Cons.prems(2) elw_append_acked [of io r w] a by (auto simp: x oks)
qed simp

lemma recover_end:
  assumes "recover_from bs off recs = (v, records, NoLogError)"
  shows "length bs \<le> v"
  using assms
  by (induction bs off recs rule: recover_from.induct)
    (subst (asm) (2) recover_from.simps, auto simp: Let_def split: if_splits)

section \<open>The log\<close>

definition sample_records :: "LogRecord list" where
  "sample_records = [command_record 1 (RegisterSymbol ''ABC''), command_record 2 (Cancel 0 7)]"

lemma sample_records_good: "\<forall>r\<in>set sample_records. record_good r"
  using encode_command_length [of "RegisterSymbol ''ABC''"] encode_command_length [of "Cancel 0 7"]
  by (simp add: sample_records_def command_record_def record_good_def record_type_of_code_def del: encode_command.simps)

text \<open>C22: A log written record by record reads back as the same records with no error, recovery
  finds the same records and a clean tail, and repair leaves it as it is.\<close>

theorem log_round_trip:
  assumes "\<forall>r\<in>set rs. record_good r"
  shows "\<exists>bs. foldl (\<lambda>acc r. Option.bind acc (encode_record r)) (Some []) rs = Some bs \<and>
    read_log bs = \<lparr>lrr_records = rs, lrr_error = NoLogError\<rparr> \<and>
    rec_records (recover_log bs) = rs \<and> rec_tail (recover_log bs) = CleanTail \<and>
    repair_log_file resize_ok sync_ok bs (recover_log bs) = (bs, True)"
proof -
  let ?bs = "concat (map record_bytes rs)"
  have "foldl (\<lambda>acc r. Option.bind acc (encode_record r)) (Some out) rs = Some (out @ ?bs)" for out
    using assms by (induction rs arbitrary: out) (simp_all add: encode_record_bytes record_good_def)
  moreover have "recover_from ?bs 0 [] = (length ?bs, rs, NoLogError)" by (rule recover_log_records [OF assms])
  ultimately show ?thesis
    by (intro exI [of _ ?bs])
      (simp add: read_log_def read_log_recover recover_log_def classify_tail_def repair_log_file_def)
qed

theorem log_round_trip_witness:
  "\<exists>bs. foldl (\<lambda>acc r. Option.bind acc (encode_record r)) (Some []) sample_records = Some bs \<and>
     lrr_records (read_log bs) = sample_records"
  using log_round_trip [OF sample_records_good] by force

text \<open>C23: One corrupted byte of a record, anywhere but in its length field, is reported as a
  checksum error, wherever the record stands in the log.\<close>

theorem corrupted_byte_detected:
  assumes "encode_record r [] = Some bs" "record_good r" "k < length bs" "k < 18 \<or> 22 \<le> k" "b \<noteq> bs ! k"
  shows "rr_error (decode_record (xs @ bs[k := b] @ ys) (length xs)) = BadChecksum"
  using decode_record_corrupted [OF assms(2) _ assms(4)] assms(1,3,5)
  by (auto simp: encode_record_bytes split: if_splits)

theorem corrupted_byte_detected_witness:
  "rr_error (decode_record ((record_bytes (command_record 2 (Cancel 0 7)))[0 := 1]) 0) = BadChecksum"
proof -
  let ?r = "command_record 2 (Cancel 0 7)"
  have good: "record_good ?r" using sample_records_good by (simp add: sample_records_def)
  have enc: "encode_record ?r [] = Some (record_bytes ?r)"
    using good by (simp add: encode_record_bytes record_good_def)
  have "record_bytes ?r ! 0 = 0" by code_simp
  then show ?thesis using corrupted_byte_detected [OF enc good, of 0 1 "[]" "[]"] by simp
qed

text \<open>C24: In the synchronous mode the records acknowledged before the writer's first refused append
  are never lost. A writer is opened on a log of whole records and appends any records, each call
  of the C library and the kernel answering as it likes; then the machine crashes, leaving any
  bytes in place of at most the unsynced ones. Recovery returns the old records and every record
  acknowledged before the first refusal, in order, possibly followed by more; and running the
  repair on that file, whether it is refused, fails or succeeds, removes none of them. Where at
  most the last append was refused and the crash leaves a prefix of the unsynced bytes, what
  follows is nothing or that last record. (Records acknowledged after a refused append are not
  covered: see \<^verbatim>\<open>acknowledged_after_refusal_lost\<close>.)\<close>

theorem acknowledged_records_survive:
  assumes "\<forall>r\<in>set old. record_good r" "\<forall>r\<in>set rs. record_good r"
    and "w = elw_new io (Some (concat (map record_bytes old))) FsyncOnAppend"
    and "elw_append_all (zip ios rs) w = (w', oks)" "length ios = length rs" "n = length (takeWhile id oks)"
    and "img = crash_image debris w'"
  shows "\<exists>more. rec_records (recover_log img) = old @ take n rs @ more \<and>
    rec_records (recover_log (fst (repair_log_file resize_ok sync_ok img (recover_log img)))) = old @ take n rs @ more \<and>
    (False \<notin> set (butlast oks) \<and> prefix debris (unsynced (elw_file w')) \<longrightarrow> more \<in> {[], drop n rs})"
proof -
  have w: "elw_mode w = FsyncOnAppend" "lf_all (elw_file w) = concat (map record_bytes old)"
      "lf_stable (elw_file w) = lf_all (elw_file w)"
    by (simp_all add: assms(3) elw_new_def Let_def sync_parent_directory_once_def lf_all_def)
  have z: "map (record_bytes \<circ> snd) (take n (zip ios rs)) = map record_bytes (take n rs)"
      "map (record_bytes \<circ> snd) (drop n (zip ios rs)) = map record_bytes (drop n rs)"
    using assms(5) by (simp_all flip: map_map add: take_zip drop_zip)
  obtain ys where ys: "lf_stable (elw_file w') = concat (map record_bytes (old @ take n rs)) @ ys"
    using elw_append_all_durable [OF assms(4) w(1,3)] w(2) z(1) assms(6) by auto
  have good: "\<forall>r\<in>set (old @ take n rs). record_good r" using assms(1,2) by (auto dest: in_set_takeD)
  obtain more where more: "rec_records (recover_log img) = (old @ take n rs) @ more"
    using recover_keeps_prefix [OF good, of "ys @ take (length (unsynced (elw_file w'))) debris"]
    by (auto simp: assms(7) crash_image_def ys)
  have "more \<in> {[], drop n rs}" if o: "False \<notin> set (butlast oks)" "prefix debris (unsynced (elw_file w'))"
  proof -
    obtain k where k: "lf_all (elw_file w') =
        concat (map record_bytes (old @ take n rs)) @ take k (concat (map record_bytes (drop n rs)))" and len: "length rs \<le> Suc n"
      using elw_append_all_last [OF assms(4) o(1) assms(6)] w(2) z assms(5) by auto
    obtain m where m: "debris = take m (unsynced (elw_file w'))" using o(2) by (metis prefix_def append_eq_conv_conj)
    have "ys @ unsynced (elw_file w') = take k (concat (map record_bytes (drop n rs)))"
      using k by (simp add: lf_all_def unsynced_def ys)
    moreover have "img = concat (map record_bytes (old @ take n rs)) @ take (length ys + m) (ys @ unsynced (elw_file w'))"
      by (simp add: assms(7) crash_image_def ys m min_def)
    ultimately have img: "img = concat (map record_bytes (old @ take n rs)) @
        take (min (length ys + m) k) (concat (map record_bytes (drop n rs)))"
      by (simp add: take_take)
    show ?thesis
    proof (cases "drop n rs")
      case Nil
      then show ?thesis using more img recover_log_records [OF good] by (simp add: recover_log_def)
    next
      case (Cons r tl)
      then have "drop n rs = [r]" using len by (metis diff_le_self drop_eq_Nil2 drop_Suc length_drop list.sel(3) tl_drop)
      moreover have "record_good r" using Cons assms(2) by (metis in_set_dropD list.set_intros(1))
      ultimately show ?thesis using more img recover_cut_append [OF good] by (simp split: if_splits)
    qed
  qed
  then show ?thesis using more by (intro exI [of _ more]) (simp add: repair_keeps_records)
qed

definition good_io :: Io where
  "good_io = \<lparr>io_fopen = True, io_fwrite = 100, io_spill = 0, io_fflush = True, io_flushed = 0, io_fsync = True, io_dirsync = True\<rparr>"

definition short_io :: Io where
  "short_io = good_io\<lparr>io_fwrite := 10\<rparr>"

theorem acknowledged_records_survive_witness:
  "let img = crash_image [1, 2, 3] (fst (elw_append_all (zip [good_io, good_io, short_io] (sample_records @ [hd sample_records]))
             (elw_new good_io (Some (concat (map record_bytes []))) FsyncOnAppend)))
   in \<exists>more. rec_records (recover_log img) = sample_records @ more \<and>
        rec_records (recover_log (fst (repair_log_file True True img (recover_log img)))) = sample_records @ more"
proof -
  let ?rs = "sample_records @ [hd sample_records]"
  let ?run = "elw_append_all (zip [good_io, good_io, short_io] ?rs) (elw_new good_io (Some (concat (map record_bytes []))) FsyncOnAppend)"
  have oks: "snd ?run = [True, True, False]"
    using encode_command_length [of "RegisterSymbol ''ABC''"] encode_command_length [of "Cancel 0 7"]
    by (simp add: sample_records_def command_record_def short_io_def good_io_def elw_new_def elw_append_def encode_record_bytes
        writer_defs Let_def del: encode_command.simps)
  have len: "length [good_io, good_io, short_io] = length ?rs" by (simp add: sample_records_def)
  have good: "\<forall>r\<in>set []. record_good r" "\<forall>r\<in>set ?rs. record_good r"
    using sample_records_good by (simp_all add: sample_records_def)
  have n: "take (length (takeWhile id (snd ?run))) ?rs = sample_records" unfolding oks by (simp add: sample_records_def)
  show ?thesis
    using acknowledged_records_survive [where io = good_io and debris = "[1, 2, 3]" and resize_ok = True and sync_ok = True,
        OF good refl prod.collapse [symmetric] len refl refl]
    unfolding Let_def n append_Nil by blast
qed

text \<open>
  A refused append is not undone: a short write leaves its bytes in the stdio buffer, and the next
  append, written after them, is synced and acknowledged. Recovery stops at the fragment, so it
  returns no record, reports the log as corrupt, and repair refuses it.
\<close>

theorem acknowledged_after_refusal_lost:
  "let run = elw_append_all (zip [short_io, good_io] sample_records) (elw_new good_io None FsyncOnAppend);
       recovery = recover_log (crash_image [] (fst run))
   in snd run = [False, True] \<and> rec_records recovery = [] \<and> rec_tail recovery = Corrupt"
  by code_simp

text \<open>C25: A successful repair cuts the file to a prefix that reads back, without error, as
  exactly the records recovery found.\<close>

theorem repaired_log_is_valid:
  assumes "repair_log_file True True bs (recover_log bs) = (bs', True)"
  shows "(\<exists>v. bs' = take v bs) \<and> read_log bs' = \<lparr>lrr_records = rec_records (recover_log bs), lrr_error = NoLogError\<rparr>"
proof -
  obtain v records err where r: "recover_from bs 0 [] = (v, records, err)" by (cases "recover_from bs 0 []")
  note p = recover_prefix [OF r]
  have cut: "bs' = take v bs"
  proof (cases "err = NoLogError")
    case True
    have "length bs \<le> v" using recover_end r True by blast
    then show ?thesis using assms r True by (simp add: recover_log_def repair_log_file_def classify_tail_def)
  next
    case False
    then show ?thesis using assms p r
      by (cases err) (auto simp: recover_log_def repair_log_file_def classify_tail_def split: if_splits)
  qed
  moreover have "read_log (take v bs) = \<lparr>lrr_records = records, lrr_error = NoLogError\<rparr>"
    using p by (simp add: read_log_def read_log_recover)
  ultimately show ?thesis using r by (auto simp: recover_log_def)
qed

theorem repaired_log_is_valid_witness:
  "read_log [] = \<lparr>lrr_records = rec_records (recover_log [1, 2, 3]), lrr_error = NoLogError\<rparr>"
proof -
  have "repair_log_file True True [1, 2, 3] (recover_log [1, 2, 3]) = ([], True)" by code_simp
  from repaired_log_is_valid [OF this] show ?thesis by blast
qed

text \<open>C26: Recovery reproduces the engine. Take any run of commands, whose accepted commands were
  appended to a new log in the synchronous mode and all acknowledged: after a crash, replaying what
  recovery reads from the log gives the very engine the run ended in, with the very events it
  emitted.\<close>

theorem recovery_reproduces_engine:
  assumes "run_commands config cs (me_new storage) = (e, rs)" "\<forall>c\<in>set cs. command_good c"
    and "records = map2 command_record ns (accepted_commands cs rs)"
    and "length ns = length (accepted_commands cs rs)" "length ios = length records"
    and "elw_append_all (zip ios records) (elw_new io None FsyncOnAppend) = (w, oks)" "False \<notin> set oks"
  shows "replay (me_new storage) (rec_records (recover_log (crash_image debris w))) = (e, concat (map gr_events rs))"
proof -
  let ?w = "elw_new io None FsyncOnAppend"
  have w0: "elw_mode ?w = FsyncOnAppend" "lf_all (elw_file ?w) = []" "lf_stable (elw_file ?w) = lf_all (elw_file ?w)"
    by (simp_all add: elw_new_def Let_def sync_parent_directory_once_def lf_all_def)
  have "map (record_bytes \<circ> snd) (zip ios records) = map record_bytes records"
    using assms(5) by (metis map_map map_snd_zip)
  then have w: "lf_all (elw_file w) = concat (map record_bytes records)" "lf_stable (elw_file w) = lf_all (elw_file w)"
    using elw_append_all_acked [OF assms(6,7)] w0 by simp_all
  have "lf_kernel (elw_file w) @ lf_buffer (elw_file w) = []" using w(2) by (simp add: lf_all_def)
  then have "crash_image debris w = lf_stable (elw_file w)" unfolding crash_image_def unsynced_def by simp
  then have image: "crash_image debris w = concat (map record_bytes records)" using w by simp
  have "\<forall>r\<in>set (map snd (zip ios records)). length (lr_payload r) \<le> 1048576"
    by (rule elw_append_all_small [OF assms(6,7)])
  then have "\<forall>r\<in>set records. length (lr_payload r) \<le> 1048576" using assms(5) by simp
  moreover have "\<forall>r\<in>set records. lr_type r = CommandRecord"
    unfolding assms(3) by (auto simp: command_record_def)
  ultimately have "\<forall>r\<in>set records. record_good r"
    by (simp add: record_good_def record_type_of_code_def)
  then have "rec_records (recover_log (crash_image debris w)) = records"
    unfolding image using recover_log_records by (simp add: recover_log_def)
  then show ?thesis using replay_run [OF assms(1,2,4)] by (simp add: assms(3))
qed

definition sample_session :: "Command list" where
  "sample_session = [RegisterSymbol ''ABC'', NewLimit 0 1 Buy (Ticks 9) 5 GTC, NewMarket 4 9 Buy 5, Cancel 0 1]"

definition sample_log :: "LogRecord list" where
  "sample_log = map2 command_record [1, 2, 3] [RegisterSymbol ''ABC'', NewLimit 0 1 Buy (Ticks 9) 5 GTC, Cancel 0 1]"

lemma sample_session_facts:
  "map2 command_record [1, 2, 3]
     (accepted_commands sample_session (snd (run_commands sample_config sample_session (me_new Baseline)))) = sample_log"
  "concat (map gr_events (snd (run_commands sample_config sample_session (me_new Baseline)))) =
     [OrderAccepted 1 0 1, OrderCanceled 2 0 1]"
  "\<forall>c\<in>set sample_session. command_good c"
proof -
  have acc: "accepted_commands sample_session (snd (run_commands sample_config sample_session (me_new Baseline))) =
      [RegisterSymbol ''ABC'', NewLimit 0 1 Buy (Ticks 9) 5 GTC, Cancel 0 1]"
    by code_simp
  show "map2 command_record [1, 2, 3]
     (accepted_commands sample_session (snd (run_commands sample_config sample_session (me_new Baseline)))) = sample_log"
    unfolding acc sample_log_def ..
  show "concat (map gr_events (snd (run_commands sample_config sample_session (me_new Baseline)))) =
     [OrderAccepted 1 0 1, OrderCanceled 2 0 1]"
    by code_simp
  show "\<forall>c\<in>set sample_session. command_good c"
    by (simp add: sample_session_def is_valid_side_def is_valid_tif_def)
qed

lemma sample_log_acked:
  "snd (elw_append_all (zip [good_io, good_io, good_io] sample_log) (elw_new good_io None FsyncOnAppend)) = [True, True, True]"
  using encode_command_length [of "RegisterSymbol ''ABC''"] encode_command_length [of "Cancel 0 1"]
    encode_command_length [of "NewLimit 0 1 Buy (Ticks 9) 5 GTC"]
  by (simp add: sample_log_def command_record_def good_io_def elw_new_def elw_append_def encode_record_bytes
      writer_defs sync_parent_directory_if_needed_def Let_def del: encode_command.simps)

theorem recovery_reproduces_engine_witness:
  "let w = fst (elw_append_all (zip [good_io, good_io, good_io] sample_log) (elw_new good_io None FsyncOnAppend))
   in snd (replay (me_new Baseline) (rec_records (recover_log (crash_image [7] w)))) =
        [OrderAccepted 1 0 1, OrderCanceled 2 0 1]"
proof -
  have len: "length [1, 2, 3 :: SeqNo] =
      length (accepted_commands sample_session (snd (run_commands sample_config sample_session (me_new Baseline))))"
    by code_simp
  have len': "length [good_io, good_io, good_io] = length sample_log" by (simp add: sample_log_def)
  have acked: "False \<notin> set (snd (elw_append_all (zip [good_io, good_io, good_io] sample_log) (elw_new good_io None FsyncOnAppend)))"
    unfolding sample_log_acked by simp
  note recovery_reproduces_engine [OF prod.collapse [symmetric] sample_session_facts(3) sample_session_facts(1) [symmetric]
      len len' prod.collapse [symmetric] acked, of "[7]"]
  then show ?thesis unfolding Let_def sample_session_facts(2) by simp
qed

end
