(* ===== verification/Shrink.thy ===== *)
theory Shrink
  imports Recovery
begin

text \<open>
  \<^verbatim>\<open>src/replay/shrink.cpp\<close>: the greedy shrinker of failing command streams. A pass works on a copy of
  \<^verbatim>\<open>cur\<close> and reports whether it changed it, so each step returns the stream and that flag. The
  predicate is a function of the stream.
\<close>

section \<open>Command rewriting\<close>

definition without :: "Command list \<Rightarrow> nat \<Rightarrow> nat \<Rightarrow> Command list" where
  "without v i n = take i v @ drop (i + n) v"

fun with_min_qty :: "Command \<Rightarrow> Command" where
  "with_min_qty (NewLimit symbol i side price _ tif) = NewLimit symbol i side price 1 tif"
| "with_min_qty (NewMarket symbol i side _) = NewMarket symbol i side 1"
| "with_min_qty (Modify symbol i price _) = Modify symbol i price 1"
| "with_min_qty c = c"

fun with_min_price :: "Command \<Rightarrow> Command" where
  "with_min_price (NewLimit symbol i side _ quantity tif) = NewLimit symbol i side (Ticks 1) quantity tif"
| "with_min_price (Modify symbol i _ quantity) = Modify symbol i (Ticks 1) quantity"
| "with_min_price c = c"

section \<open>Renumbering\<close>

fun duplicate_registration :: "string list \<Rightarrow> Command list \<Rightarrow> bool" where
  "duplicate_registration names [] = False"
| "duplicate_registration names (RegisterSymbol name # cs) =
     (if name \<in> set names then True else duplicate_registration (name # names) cs)"
| "duplicate_registration names (c # cs) = duplicate_registration names cs"

definition has_duplicate_symbol_registration_names :: "Command list \<Rightarrow> bool" where
  "has_duplicate_symbol_registration_names cmds = duplicate_registration [] cmds"

fun referenced_symbol :: "Command \<Rightarrow> SymbolId option" where
  "referenced_symbol (NewLimit symbol _ _ _ _ _) = Some symbol"
| "referenced_symbol (NewMarket symbol _ _ _) = Some symbol"
| "referenced_symbol (Cancel symbol _) = Some symbol"
| "referenced_symbol (Modify symbol _ _ _) = Some symbol"
| "referenced_symbol (RegisterSymbol _) = None"

definition collect_referenced_symbols :: "Command list \<Rightarrow> SymbolId set" where
  "collect_referenced_symbols cmds = set (List.map_filter referenced_symbol cmds)"

fun is_register :: "Command \<Rightarrow> bool" where
  "is_register (RegisterSymbol _) = True"
| "is_register _ = False"

fun symbol_remap_from :: "SymbolId set \<Rightarrow> SymbolId \<Rightarrow> SymbolId \<Rightarrow> (SymbolId \<rightharpoonup> SymbolId) \<Rightarrow> Command list
    \<Rightarrow> (SymbolId \<rightharpoonup> SymbolId)" where
  "symbol_remap_from referenced old_sym new_sym remap [] = remap"
| "symbol_remap_from referenced old_sym new_sym remap (c # cs) =
     (if is_register c then
        if old_sym \<in> referenced
        then symbol_remap_from referenced (old_sym + 1) (new_sym + 1) (remap(old_sym \<mapsto> new_sym)) cs
        else symbol_remap_from referenced (old_sym + 1) new_sym remap cs
      else symbol_remap_from referenced old_sym new_sym remap cs)"

definition build_symbol_remap :: "Command list \<Rightarrow> SymbolId set \<Rightarrow> (SymbolId \<rightharpoonup> SymbolId)" where
  "build_symbol_remap cmds referenced = symbol_remap_from referenced 0 0 Map.empty cmds"

definition remap_symbol :: "(SymbolId \<rightharpoonup> SymbolId) \<Rightarrow> SymbolId \<Rightarrow> SymbolId" where
  "remap_symbol remap symbol = (case remap symbol of None \<Rightarrow> symbol | Some s \<Rightarrow> s)"

record OrderIdRemapper =
  oir_remap :: "OrderId \<rightharpoonup> OrderId"
  oir_next_id :: OrderId

definition oir_new :: OrderIdRemapper where
  "oir_new = \<lparr>oir_remap = Map.empty, oir_next_id = 0\<rparr>"

definition oir_map :: "OrderId \<Rightarrow> OrderIdRemapper \<Rightarrow> OrderId \<times> OrderIdRemapper" where
  "oir_map i m =
     (case oir_remap m i of
        Some j \<Rightarrow> (j, m)
      | None \<Rightarrow> (oir_next_id m, \<lparr>oir_remap = (oir_remap m)(i \<mapsto> oir_next_id m), oir_next_id = oir_next_id m + 1\<rparr>))"

fun remap_non_register_command :: "Command \<Rightarrow> (SymbolId \<rightharpoonup> SymbolId) \<Rightarrow> OrderIdRemapper
    \<Rightarrow> Command \<times> OrderIdRemapper" where
  "remap_non_register_command (NewLimit symbol i side price quantity tif) sym_remap m =
     (let (j, m) = oir_map i m in (NewLimit (remap_symbol sym_remap symbol) j side price quantity tif, m))"
| "remap_non_register_command (NewMarket symbol i side quantity) sym_remap m =
     (let (j, m) = oir_map i m in (NewMarket (remap_symbol sym_remap symbol) j side quantity, m))"
| "remap_non_register_command (Cancel symbol i) sym_remap m =
     (let (j, m) = oir_map i m in (Cancel (remap_symbol sym_remap symbol) j, m))"
| "remap_non_register_command (Modify symbol i price quantity) sym_remap m =
     (let (j, m) = oir_map i m in (Modify (remap_symbol sym_remap symbol) j price quantity, m))"
| "remap_non_register_command (RegisterSymbol name) sym_remap m = (RegisterSymbol name, m)"

definition append_renumbered_registration :: "SymbolId \<Rightarrow> (SymbolId \<rightharpoonup> SymbolId) \<Rightarrow> Command list" where
  "append_renumbered_registration old_sym sym_remap =
     (case sym_remap old_sym of None \<Rightarrow> [] | Some s \<Rightarrow> [RegisterSymbol (symbol_name s)])"

fun renumber_from :: "(SymbolId \<rightharpoonup> SymbolId) \<Rightarrow> OrderIdRemapper \<Rightarrow> SymbolId \<Rightarrow> Command list \<Rightarrow> Command list" where
  "renumber_from sym_remap m old_sym [] = []"
| "renumber_from sym_remap m old_sym (c # cs) =
     (if is_register c then
        append_renumbered_registration old_sym sym_remap @ renumber_from sym_remap m (old_sym + 1) cs
      else
        let (c', m) = remap_non_register_command c sym_remap m in c' # renumber_from sym_remap m old_sym cs)"

definition renumber :: "Command list \<Rightarrow> Command list" where
  "renumber cmds =
     (if has_duplicate_symbol_registration_names cmds then cmds
      else
        let referenced = collect_referenced_symbols cmds; sym_remap = build_symbol_remap cmds referenced
        in renumber_from sym_remap oir_new 0 cmds)"

section \<open>Reduction passes\<close>

type_synonym ShrinkPredicate = "Command list \<Rightarrow> bool"

text \<open>The loop of \<^verbatim>\<open>try_remove_chunks_of_size\<close>; both callers pass a positive chunk size.\<close>

function remove_chunks_from :: "ShrinkPredicate \<Rightarrow> nat \<Rightarrow> nat \<Rightarrow> Command list \<Rightarrow> bool \<Rightarrow> Command list \<times> bool" where
  "remove_chunks_from fails n i cur changed =
     (if 0 < n \<and> i + n \<le> length cur then
        let candidate = without cur i n
        in if fails candidate then remove_chunks_from fails n i candidate True
           else remove_chunks_from fails n (i + n) cur changed
      else (cur, changed))"
  by pat_completeness auto
termination
  by (relation "measure (\<lambda>(_, _, i, cur, _). length cur - i)") (auto simp: without_def)

declare remove_chunks_from.simps [simp del]

definition try_remove_chunks_of_size :: "ShrinkPredicate \<Rightarrow> nat \<Rightarrow> Command list \<Rightarrow> Command list \<times> bool" where
  "try_remove_chunks_of_size fails chunk_size cur = remove_chunks_from fails chunk_size 0 cur False"

function halving_chunks :: "ShrinkPredicate \<Rightarrow> nat \<Rightarrow> Command list \<Rightarrow> bool \<Rightarrow> Command list \<times> bool" where
  "halving_chunks fails n cur changed =
     (if 1 < n then
        let (cur, c) = try_remove_chunks_of_size fails n cur in halving_chunks fails (n div 2) cur (c \<or> changed)
      else (cur, changed))"
  by pat_completeness auto
termination
  by (relation "measure (\<lambda>(_, n, _). n)") auto

declare halving_chunks.simps [simp del]

definition remove_multi_command_chunks :: "ShrinkPredicate \<Rightarrow> Command list \<Rightarrow> Command list \<times> bool" where
  "remove_multi_command_chunks fails cur =
     halving_chunks fails (if length cur > 1 then length cur div 2 else 1) cur False"

definition remove_single_commands :: "ShrinkPredicate \<Rightarrow> Command list \<Rightarrow> Command list \<times> bool" where
  "remove_single_commands fails cur = try_remove_chunks_of_size fails 1 cur"

definition remove_contiguous_ranges :: "ShrinkPredicate \<Rightarrow> Command list \<Rightarrow> Command list \<times> bool" where
  "remove_contiguous_ranges fails cur =
     (let (cur, changed) = remove_multi_command_chunks fails cur;
          (cur, c) = remove_single_commands fails cur
      in (cur, c \<or> changed))"

function simplify_fields_from :: "ShrinkPredicate \<Rightarrow> (Command \<Rightarrow> Command) \<Rightarrow> nat \<Rightarrow> Command list \<Rightarrow> bool
    \<Rightarrow> Command list \<times> bool" where
  "simplify_fields_from fails simplify i cur changed =
     (if i < length cur then
        let candidate = cur[i := simplify (cur ! i)]
        in if candidate ! i \<noteq> cur ! i \<and> fails candidate
           then simplify_fields_from fails simplify (i + 1) candidate True
           else simplify_fields_from fails simplify (i + 1) cur changed
      else (cur, changed))"
  by pat_completeness auto
termination
  by (relation "measure (\<lambda>(_, _, i, cur, _). length cur - i)") auto

declare simplify_fields_from.simps [simp del]

definition simplify_fields :: "ShrinkPredicate \<Rightarrow> (Command \<Rightarrow> Command) \<Rightarrow> Command list \<Rightarrow> Command list \<times> bool" where
  "simplify_fields fails simplify cur = simplify_fields_from fails simplify 0 cur False"

definition simplify_quantities :: "ShrinkPredicate \<Rightarrow> Command list \<Rightarrow> Command list \<times> bool" where
  "simplify_quantities fails cur = simplify_fields fails with_min_qty cur"

definition simplify_prices :: "ShrinkPredicate \<Rightarrow> Command list \<Rightarrow> Command list \<times> bool" where
  "simplify_prices fails cur = simplify_fields fails with_min_price cur"

definition renumber_symbols_and_orders :: "ShrinkPredicate \<Rightarrow> Command list \<Rightarrow> Command list \<times> bool" where
  "renumber_symbols_and_orders fails cur =
     (let candidate = renumber cur
      in if candidate \<noteq> cur \<and> fails candidate then (candidate, True) else (cur, False))"

definition run_reduction_pass :: "ShrinkPredicate \<Rightarrow> Command list \<Rightarrow> Command list \<times> bool" where
  "run_reduction_pass fails cur =
     (let (cur, changed) = remove_contiguous_ranges fails cur;
          (cur, c) = simplify_quantities fails cur; changed = (c \<or> changed);
          (cur, c) = simplify_prices fails cur; changed = (c \<or> changed);
          (cur, c) = renumber_symbols_and_orders fails cur
      in (cur, c \<or> changed))"

text \<open>The outer loop runs until a pass changes nothing; \<open>None\<close> would be a loop that never ends.\<close>

partial_function (option) shrink_loop :: "ShrinkPredicate \<Rightarrow> Command list \<Rightarrow> nat \<Rightarrow> (Command list \<times> nat) option" where
  "shrink_loop fails cur passes =
     (let (cur, changed) = run_reduction_pass fails cur
      in if changed then shrink_loop fails cur (passes + 1) else Some (cur, passes + 1))"

definition shrink :: "Command list \<Rightarrow> ShrinkPredicate \<Rightarrow> (Command list \<times> nat) option" where
  "shrink cur fails = (if \<not> fails cur then Some (cur, 0) else shrink_loop fails cur 0)"

fun count_trades_from :: "RiskConfig \<Rightarrow> MatchingEngine \<Rightarrow> Command list \<Rightarrow> nat" where
  "count_trades_from config e [] = 0"
| "count_trades_from config e (c # cs) =
     (let (e, r) = apply_command config c e
      in length (filter is_trade (gr_events r)) + count_trades_from config e cs)"

definition count_trades :: "Command list \<Rightarrow> Quantity \<Rightarrow> QuantityTotal \<Rightarrow> nat" where
  "count_trades commands max_qty notional_cap =
     count_trades_from \<lparr>max_order_quantity = max_qty, max_notional = notional_cap\<rparr> (me_new Baseline) commands"

end
