(* ===== verification/Shrink_Correct.thy ===== *)
theory Shrink_Correct
  imports Shrink
begin

text \<open>
  The shrinker keeps a failing stream failing, never lengthens it, always stops, and stops only
  when no single command, quantity or price can be reduced. Renumbering reaches a canonical
  form, which is what makes the fixed point exist.
\<close>

section \<open>What every pass promises\<close>

text \<open>
  A measure that every successful step lowers: the length, then the fields not yet at their
  minimum, then whether the ids are still to be renumbered.
\<close>

definition loose_fields :: "Command list \<Rightarrow> nat" where
  "loose_fields cs = length (filter (\<lambda>c. with_min_qty c \<noteq> c) cs) + length (filter (\<lambda>c. with_min_price c \<noteq> c) cs)"

definition shrink_order :: "(Command list \<times> Command list) set" where
  "shrink_order = inv_image (less_than <*lex*> less_than <*lex*> less_than)
     (\<lambda>cs. (length cs, loose_fields cs, if renumber cs = cs then 0 else 1 :: nat))"

lemma wf_shrink_order: "wf shrink_order"
  unfolding shrink_order_def by (intro wf_inv_image wf_lex_prod wf_less_than)

lemma trans_shrink_order: "trans shrink_order"
  unfolding shrink_order_def by (intro trans_inv_image trans_lex_prod trans_less_than)

lemma shrink_orderI:
  "length cs' < length cs \<Longrightarrow> (cs', cs) \<in> shrink_order"
  "length cs' = length cs \<Longrightarrow> loose_fields cs' < loose_fields cs \<Longrightarrow> (cs', cs) \<in> shrink_order"
  "length cs' = length cs \<Longrightarrow> loose_fields cs' = loose_fields cs \<Longrightarrow> renumber cs' = cs' \<Longrightarrow> renumber cs \<noteq> cs \<Longrightarrow>
     (cs', cs) \<in> shrink_order"
  by (simp_all add: shrink_order_def)

definition reduces :: "ShrinkPredicate \<Rightarrow> (Command list \<Rightarrow> Command list \<times> bool) \<Rightarrow> Command list \<Rightarrow> bool" where
  "reduces fails pass cur \<longleftrightarrow>
     (case pass cur of (cur', changed) \<Rightarrow>
        fails cur' \<and> length cur' \<le> length cur \<and> (if changed then (cur', cur) \<in> shrink_order else cur' = cur))"

lemma reduces_seq:
  assumes "reduces fails f cur" "\<And>cur'. fails cur' \<Longrightarrow> length cur' \<le> length cur \<Longrightarrow> reduces fails g cur'"
  shows "reduces fails (\<lambda>cur. let (cur, changed) = f cur; (cur, c) = g cur in (cur, c \<or> changed)) cur"
proof -
  obtain a c where f: "f cur = (a, c)" by (cases "f cur")
  obtain b d where g: "g a = (b, d)" by (cases "g a")
  have a: "fails a" "length a \<le> length cur" "if c then (a, cur) \<in> shrink_order else a = cur"
    using assms(1) f by (simp_all add: reduces_def)
  have b: "fails b" "length b \<le> length a" "if d then (b, a) \<in> shrink_order else b = a"
    using assms(2) [OF a(1,2)] g by (simp_all add: reduces_def)
  have "if d \<or> c then (b, cur) \<in> shrink_order else b = cur"
    using a(3) b(3) transD [OF trans_shrink_order] by (auto split: if_splits)
  then show ?thesis using f g b(1,2) a(2) by (simp add: reduces_def)
qed

section \<open>Removing ranges\<close>

lemma length_without: "i + n \<le> length v \<Longrightarrow> length (without v i n) = length v - n"
  by (simp add: without_def)

lemma remove_chunks_reduces:
  "fails cur \<Longrightarrow> remove_chunks_from fails n i cur changed = (cur', changed') \<Longrightarrow>
     fails cur' \<and> length cur' \<le> length cur \<and>
     (length cur' < length cur \<and> changed' \<or> cur' = cur \<and> changed' = changed)"
proof (induction fails n i cur changed rule: remove_chunks_from.induct)
  case (1 fails n i cur changed)
  show ?case
  proof (cases "0 < n \<and> i + n \<le> length cur")
    case True
    then have l: "length (without cur i n) < length cur" by (auto simp: length_without)
    show ?thesis
    proof (cases "fails (without cur i n)")
      case f: True
      then have "remove_chunks_from fails n i (without cur i n) True = (cur', changed')"
        using 1(4) True by (simp add: remove_chunks_from.simps [of fails n i cur] Let_def)
      from 1(1) [OF True refl f f this] l show ?thesis by auto
    next
      case f: False
      then have "remove_chunks_from fails n (i + n) cur changed = (cur', changed')"
        using 1(4) True by (simp add: remove_chunks_from.simps [of fails n i cur] Let_def)
      from 1(2) [OF True refl f 1(3) this] show ?thesis .
    qed
  next
    case False
    then show ?thesis using 1(3,4) by (auto simp: remove_chunks_from.simps [of fails n i cur] split: if_splits)
  qed
qed

lemma try_remove_reduces: "fails cur \<Longrightarrow> reduces fails (try_remove_chunks_of_size fails n) cur"
  using remove_chunks_reduces [of fails cur n 0 False]
  by (cases "try_remove_chunks_of_size fails n cur")
    (auto simp: reduces_def try_remove_chunks_of_size_def intro: shrink_orderI)

lemma halving_reduces:
  "fails cur \<Longrightarrow> halving_chunks fails n cur changed = (cur', changed') \<Longrightarrow>
     fails cur' \<and> length cur' \<le> length cur \<and>
     (length cur' < length cur \<and> changed' \<or> cur' = cur \<and> changed' = changed)"
proof (induction fails n cur changed rule: halving_chunks.induct)
  case (1 fails n cur changed)
  show ?case
  proof (cases "1 < n")
    case True
    obtain a c where t: "try_remove_chunks_of_size fails n cur = (a, c)" by fastforce
    then have a: "fails a \<and> length a \<le> length cur \<and> (length a < length cur \<and> c \<or> a = cur \<and> c = False)"
      using remove_chunks_reduces [of fails cur n 0 False a c] 1(2) by (simp add: try_remove_chunks_of_size_def)
    have "halving_chunks fails (n div 2) a (c \<or> changed) = (cur', changed')"
      using 1(3) True t by (simp add: halving_chunks.simps [of fails n cur])
    from 1(1) [OF True t [symmetric] refl _ this] a show ?thesis by auto
  next
    case False
    then show ?thesis using 1(2,3) by (simp add: halving_chunks.simps [of fails n cur])
  qed
qed

lemma remove_ranges_reduces: "fails cur \<Longrightarrow> reduces fails (remove_contiguous_ranges fails) cur"
proof -
  assume "fails cur"
  then have m: "reduces fails (remove_multi_command_chunks fails) cur"
    using halving_reduces [of fails cur _ False]
    by (cases "remove_multi_command_chunks fails cur")
      (auto simp: reduces_def remove_multi_command_chunks_def intro: shrink_orderI)
  have "reduces fails (\<lambda>cur. let (cur, changed) = remove_multi_command_chunks fails cur;
          (cur, c) = remove_single_commands fails cur in (cur, c \<or> changed)) cur"
    by (rule reduces_seq [OF m]) (simp add: remove_single_commands_def [abs_def] try_remove_reduces)
  then show ?thesis by (simp add: remove_contiguous_ranges_def [abs_def])
qed

section \<open>Simplifying fields\<close>

definition loose :: "(Command \<Rightarrow> Command) \<Rightarrow> Command list \<Rightarrow> nat" where
  "loose f cs = length (filter (\<lambda>c. f c \<noteq> c) cs)"

lemma loose_append: "loose g (xs @ y # ys) = loose g xs + (if g y \<noteq> y then 1 else 0) + loose g ys"
  by (simp add: loose_def)

lemma loose_update:
  assumes "i < length cs"
  shows "loose g (cs[i := x]) + (if g (cs ! i) \<noteq> cs ! i then 1 else 0) = loose g cs + (if g x \<noteq> x then 1 else 0)"
  using loose_append [of g "take i cs" "cs ! i" "drop (Suc i) cs"] loose_append [of g "take i cs" x "drop (Suc i) cs"]
  by (simp only: upd_conv_take_nth_drop [OF assms, symmetric] list_update_id)

lemma min_idem:
  "with_min_qty (with_min_qty c) = with_min_qty c" "with_min_price (with_min_price c) = with_min_price c"
  "with_min_price (with_min_qty c) = with_min_qty c \<longleftrightarrow> with_min_price c = c"
  "with_min_qty (with_min_price c) = with_min_price c \<longleftrightarrow> with_min_qty c = c"
  by (cases c; simp)+

lemma loose_fields_loose: "loose_fields cs = loose with_min_qty cs + loose with_min_price cs"
  by (simp add: loose_fields_def loose_def)

lemma simplify_step:
  assumes "i < length cs" "f = with_min_qty \<or> f = with_min_price" "f (cs ! i) \<noteq> cs ! i"
  shows "loose_fields (cs[i := f (cs ! i)]) < loose_fields cs"
  using assms(2)
proof
  assume f: "f = with_min_qty"
  show ?thesis
    using loose_update [OF assms(1), of with_min_qty "f (cs ! i)"]
      loose_update [OF assms(1), of with_min_price "f (cs ! i)"] assms(3)
    by (simp add: f min_idem loose_fields_loose)
next
  assume f: "f = with_min_price"
  show ?thesis
    using loose_update [OF assms(1), of with_min_qty "f (cs ! i)"]
      loose_update [OF assms(1), of with_min_price "f (cs ! i)"] assms(3)
    by (simp add: f min_idem loose_fields_loose)
qed

lemma simplify_from_reduces:
  assumes "f = with_min_qty \<or> f = with_min_price"
  shows "fails cur \<Longrightarrow> simplify_fields_from fails f i cur changed = (cur', changed') \<Longrightarrow>
     fails cur' \<and> length cur' = length cur \<and>
     (loose_fields cur' < loose_fields cur \<and> changed' \<or> cur' = cur \<and> changed' = changed)"
  using assms
proof (induction fails f i cur changed rule: simplify_fields_from.induct)
  case (1 fails f i cur changed)
  let ?c = "cur[i := f (cur ! i)]"
  show ?case
  proof (cases "i < length cur")
    case True
    show ?thesis
    proof (cases "?c ! i \<noteq> cur ! i \<and> fails ?c")
      case t: True
      then have rec: "simplify_fields_from fails f (i + 1) ?c True = (cur', changed')"
        using 1(4) True by (simp add: simplify_fields_from.simps [of fails f i cur] Let_def)
      have "f (cur ! i) \<noteq> cur ! i" using t True by simp
      then have "loose_fields ?c < loose_fields cur" by (rule simplify_step [OF True 1(5)])
      with 1(1) [OF True refl t _ rec 1(5)] t show ?thesis by auto
    next
      case f: False
      then have rec: "simplify_fields_from fails f (i + 1) cur changed = (cur', changed')"
        using 1(4) True by (auto simp: simplify_fields_from.simps [of fails f i cur] Let_def)
      from 1(2) [OF True refl f 1(3) rec 1(5)] show ?thesis .
    qed
  next
    case False
    then show ?thesis using 1(3,4) by (simp add: simplify_fields_from.simps [of fails f i cur])
  qed
qed

lemma simplify_reduces:
  assumes "fails cur"
  shows "reduces fails (simplify_quantities fails) cur" "reduces fails (simplify_prices fails) cur"
  using simplify_from_reduces [of with_min_qty fails cur 0 False] simplify_from_reduces [of with_min_price fails cur 0 False] assms
  by (cases "simplify_quantities fails cur"; cases "simplify_prices fails cur";
      auto simp: reduces_def simplify_quantities_def simplify_prices_def simplify_fields_def intro: shrink_orderI)+

section \<open>Renumbering is canonical\<close>

lemma remap_command_simps:
  "\<not> is_register c \<Longrightarrow> \<not> is_register (fst (remap_non_register_command c sm m))"
  "with_min_qty (fst (remap_non_register_command c sm m)) = fst (remap_non_register_command c sm m) \<longleftrightarrow> with_min_qty c = c"
  "with_min_price (fst (remap_non_register_command c sm m)) = fst (remap_non_register_command c sm m) \<longleftrightarrow> with_min_price c = c"
  by (cases c; auto simp: case_prod_unfold Let_def)+

lemma renumber_from_Cons_non:
  "\<not> is_register c \<Longrightarrow> renumber_from sm m old (c # cs) =
     fst (remap_non_register_command c sm m) # renumber_from sm (snd (remap_non_register_command c sm m)) old cs"
  by (simp add: case_prod_unfold Let_def)

lemma renumber_from_length: "length (renumber_from sm m old cs) \<le> length cs"
proof (induction cs arbitrary: m old)
  case (Cons c cs)
  then show ?case
    by (cases "is_register c")
      (auto simp: renumber_from_Cons_non append_renumbered_registration_def le_SucI
        simp del: renumber_from.simps(2) split: option.split, simp_all add: append_renumbered_registration_def le_SucI split: option.split)
qed simp

lemma renumber_length: "length (renumber cs) \<le> length cs"
  by (simp add: renumber_def renumber_from_length Let_def)

text \<open>The registrations of a stream, and the ids they own.\<close>

definition register_count :: "Command list \<Rightarrow> nat" where
  "register_count cs = length (filter is_register cs)"

lemma register_count_simps [simp]:
  "register_count [] = 0" "is_register c \<Longrightarrow> register_count (c # cs) = Suc (register_count cs)"
  "\<not> is_register c \<Longrightarrow> register_count (c # cs) = register_count cs"
  by (simp_all add: register_count_def)

text \<open>If no registration was dropped, every registered symbol is mapped.\<close>

lemma renumber_from_full:
  assumes "length (renumber_from sm m old cs) = length cs" "k < register_count cs"
  shows "sm (old + of_nat k) \<noteq> None"
  using assms
proof (induction cs arbitrary: m old k)
  case (Cons c cs)
  show ?case
  proof (cases "is_register c")
    case True
    have le: "length (renumber_from sm m (old + 1) cs) \<le> length cs" by (rule renumber_from_length)
    have s: "sm old \<noteq> None" and l: "length (renumber_from sm m (old + 1) cs) = length cs"
      using Cons.prems(1) True le by (auto simp: append_renumbered_registration_def split: option.splits)
    show ?thesis
    proof (cases k)
      case 0
      then show ?thesis using s by simp
    next
      case (Suc j)
      then have "sm (old + 1 + of_nat j) \<noteq> None" using Cons.IH [OF l, of j] Cons.prems(2) True by simp
      then show ?thesis by (simp add: Suc add.assoc)
    qed
  next
    case False
    then show ?thesis
      using Cons.IH [of "snd (remap_non_register_command c sm m)" old k] Cons.prems
      by (simp add: renumber_from_Cons_non del: renumber_from.simps(2))
  qed
qed simp

text \<open>What the remap holds: the ids below \<open>old\<close> it already had, and the registered ones.\<close>

lemma symbol_remap_dom:
  "unat old + register_count cs < 2 ^ 32 \<Longrightarrow> s \<in> dom (symbol_remap_from R old new sm cs) \<Longrightarrow>
     s \<in> dom sm \<or> s \<in> R \<and> unat old \<le> unat s \<and> unat s < unat old + register_count cs"
proof (induction cs arbitrary: old new sm)
  case (Cons c cs)
  show ?case
  proof (cases "is_register c")
    case True
    then have o: "unat (old + 1) = unat old + 1"
      using Cons.prems(1) by (simp add: unat_word_ariths(1))
    then have b: "unat (old + 1) + register_count cs < 2 ^ 32" using Cons.prems(1) True by simp
    show ?thesis
    proof (cases "old \<in> R")
      case R: True
      then have "s \<in> dom (symbol_remap_from R (old + 1) (new + 1) (sm(old \<mapsto> new)) cs)"
        using Cons.prems(2) True by simp
      from Cons.IH [OF b this] show ?thesis using o R True by (auto split: if_splits)
    next
      case R: False
      then have "s \<in> dom (symbol_remap_from R (old + 1) new sm cs)" using Cons.prems(2) True by simp
      from Cons.IH [OF b this] show ?thesis using o True by auto
    qed
  next
    case False
    then show ?thesis using Cons.IH [of old new sm] Cons.prems by simp
  qed
qed simp

lemma symbol_remap_identity:
  assumes "unat old + register_count cs < 2 ^ 32"
    "\<And>k. k < register_count cs \<Longrightarrow> old + of_nat k \<in> R"
    "\<And>s. s \<in> dom sm \<Longrightarrow> sm s = Some s"
  shows "s \<in> dom (symbol_remap_from R old old sm cs) \<Longrightarrow> symbol_remap_from R old old sm cs s = Some s"
  using assms
proof (induction cs arbitrary: old sm)
  case (Cons c cs)
  show ?case
  proof (cases "is_register c")
    case True
    have o: "unat (old + 1) = unat old + 1"
      using Cons.prems(2) True by (simp add: unat_word_ariths(1))
    have R: "old \<in> R" using Cons.prems(3) [of 0] True by simp
    show ?thesis
    proof -
      have "old + 1 + of_nat k \<in> R" if "k < register_count cs" for k
        using Cons.prems(3) [of "Suc k"] True that by (simp add: add.assoc)
      moreover have "unat (old + 1) + register_count cs < 2 ^ 32" using Cons.prems(2) True o by simp
      moreover have "(sm(old \<mapsto> old)) t = Some t" if "t \<in> dom (sm(old \<mapsto> old))" for t
        using Cons.prems(4) [of t] that by (auto split: if_splits)
      moreover have "s \<in> dom (symbol_remap_from R (old + 1) (old + 1) (sm(old \<mapsto> old)) cs)"
        using Cons.prems(1) True R by simp
      ultimately have "symbol_remap_from R (old + 1) (old + 1) (sm(old \<mapsto> old)) cs s = Some s"
        by (intro Cons.IH)
      then show ?thesis using True R by simp
    qed
  next
    case False
    then show ?thesis using Cons.IH [of old sm] Cons.prems by simp
  qed
qed auto


text \<open>
  The order ids: the remapper has handed out the ids below \<open>k\<close>, injectively. A second remapper
  that maps each of those to itself reproduces the first one's output.
\<close>

definition oir_wf :: "nat \<Rightarrow> OrderIdRemapper \<Rightarrow> bool" where
  "oir_wf k m \<longleftrightarrow> oir_next_id m = of_nat k \<and> ran (oir_remap m) = of_nat ` {..<k} \<and> inj_on (oir_remap m) (dom (oir_remap m))"

definition oir_id :: "nat \<Rightarrow> OrderIdRemapper" where
  "oir_id k = \<lparr>oir_remap = (\<lambda>i. if unat i < k then Some i else None), oir_next_id = of_nat k\<rparr>"

lemma oir_wf_new: "oir_wf 0 oir_new"
  by (simp add: oir_wf_def oir_new_def)

lemma oir_id_0: "oir_id 0 = oir_new"
  by (simp add: oir_id_def oir_new_def)

lemma oir_map_wf:
  assumes "oir_wf k m" "k < 2 ^ 64 - 1"
  shows "\<exists>k'. k \<le> k' \<and> k' \<le> k + 1 \<and> oir_wf k' (snd (oir_map i m)) \<and>
    oir_map (fst (oir_map i m)) (oir_id k) = (fst (oir_map i m), oir_id k')"
proof (cases "oir_remap m i")
  case None
  have u: "unat (of_nat k :: 64 word) = k" using assms(2) by (simp add: unsigned_of_nat take_bit_nat_eq_self)
  have ran: "ran ((oir_remap m)(i \<mapsto> of_nat k)) = of_nat ` {..<Suc k}"
    using assms(1) None by (simp add: oir_wf_def lessThan_Suc)
  have new: "oir_remap m x \<noteq> Some (of_nat k)" for x
  proof
    assume "oir_remap m x = Some (of_nat k)"
    then have "(of_nat k :: 64 word) \<in> ran (oir_remap m)" by (auto simp: ran_def)
    then obtain j where "j < k" "(of_nat k :: 64 word) = of_nat j" using assms(1) by (auto simp: oir_wf_def)
    then have "unat (of_nat k :: 64 word) = unat (of_nat j :: 64 word)" by simp
    then show False using u \<open>j < k\<close> assms(2) by (simp add: unsigned_of_nat take_bit_nat_eq_self)
  qed
  have inj: "inj_on ((oir_remap m)(i \<mapsto> of_nat k)) (dom ((oir_remap m)(i \<mapsto> of_nat k)))"
    using assms(1) new None by (auto simp: oir_wf_def inj_on_def)
  have "oir_wf (Suc k) (snd (oir_map i m))"
    using assms(1) None ran inj by (simp add: oir_map_def oir_wf_def add.commute)
  moreover have "oir_map (of_nat k) (oir_id k) = (of_nat k, oir_id (Suc k))"
    using u assms(2)
    by (auto simp: oir_map_def oir_id_def fun_eq_iff add.commute less_Suc_eq word_unat_eq_iff)
  moreover have "fst (oir_map i m) = of_nat k" using None assms(1) by (simp add: oir_map_def oir_wf_def)
  ultimately show ?thesis by (intro exI [of _ "Suc k"]) simp
next
  case (Some j)
  then have "j \<in> of_nat ` {..<k}" using assms(1) by (auto simp: oir_wf_def ran_def)
  then have "unat j < k" using assms(2) by (auto simp: unsigned_of_nat take_bit_nat_eq_self)
  then show ?thesis using Some assms(1) by (intro exI [of _ k]) (simp add: oir_map_def oir_id_def)
qed


lemma remap_command_id:
  assumes "oir_wf k m" "k < 2 ^ 64 - 1" "\<not> is_register c" "\<And>s. remap_symbol sm s = s" "\<And>s. remap_symbol sm' s = s"
  shows "\<exists>k'. k' \<le> k + 1 \<and> oir_wf k' (snd (remap_non_register_command c sm m)) \<and>
    remap_non_register_command (fst (remap_non_register_command c sm m)) sm' (oir_id k) =
      (fst (remap_non_register_command c sm m), oir_id k')"
  using oir_map_wf [OF assms(1,2)] assms(3)
  by (cases c) (force simp: case_prod_unfold Let_def assms(4,5))+

lemma renumber_from_idem:
  assumes "length (renumber_from sm m old cs) = length cs" "oir_wf k m" "k + length cs < 2 ^ 64 - 1"
    "\<And>s. s \<in> dom sm \<Longrightarrow> sm s = Some s" 
  shows "renumber_from sm (oir_id k) old (renumber_from sm m old cs) = renumber_from sm m old cs"
  using assms(1-3)
proof (induction cs arbitrary: m old k)
  case (Cons c cs)
  have id: "remap_symbol sm s = s" for s
    using assms(4) by (force simp: remap_symbol_def split: option.split)
  show ?case
  proof (cases "is_register c")
    case True
    have le: "length (renumber_from sm m (old + 1) cs) \<le> length cs" by (rule renumber_from_length)
    have s: "sm old \<noteq> None" and l: "length (renumber_from sm m (old + 1) cs) = length cs"
      using Cons.prems(1) True le by (auto simp: append_renumbered_registration_def split: option.splits)
    have a: "append_renumbered_registration old sm = [RegisterSymbol (symbol_name old)]"
      using s assms(4) [OF domI, of old] by (cases "sm old") (auto simp: append_renumbered_registration_def)
    show ?thesis using Cons.IH [OF l Cons.prems(2)] Cons.prems(3) True a by simp
  next
    case False
    let ?r = "remap_non_register_command c sm m"
    obtain k' where k': "k' \<le> k + 1" "oir_wf k' (snd ?r)"
        "remap_non_register_command (fst ?r) sm (oir_id k) = (fst ?r, oir_id k')"
      using remap_command_id [of k m c sm sm] Cons.prems(2,3) False id by auto
    have l: "length (renumber_from sm (snd ?r) old cs) = length cs"
      using Cons.prems(1) False by (simp add: renumber_from_Cons_non del: renumber_from.simps(2))
    have "renumber_from sm (oir_id k') old (renumber_from sm (snd ?r) old cs) = renumber_from sm (snd ?r) old cs"
      using Cons.IH [OF l k'(2)] k'(1) Cons.prems(3) by simp
    then show ?thesis
      using False k'(3) remap_command_simps(1) [OF False]
      by (simp add: renumber_from_Cons_non del: renumber_from.simps(2))
  qed
qed simp

text \<open>What renumbering keeps of each command when no registration is dropped.\<close>

definition shape :: "Command \<Rightarrow> bool \<times> SymbolId option \<times> bool \<times> bool" where
  "shape c = (is_register c, referenced_symbol c, with_min_qty c = c, with_min_price c = c)"

lemma shape_remap:
  "\<not> is_register c \<Longrightarrow> (\<And>s. remap_symbol sm s = s) \<Longrightarrow> shape (fst (remap_non_register_command c sm m)) = shape c"
  using remap_command_simps [of c sm m]
  by (cases c) (simp_all add: shape_def case_prod_unfold Let_def)

lemma shape_register: "is_register c \<Longrightarrow> shape c = (True, None, True, True)"
  by (cases c) (simp_all add: shape_def)

lemma renumber_from_shape:
  assumes "length (renumber_from sm m old cs) = length cs" "\<And>s. remap_symbol sm s = s"
  shows "map shape (renumber_from sm m old cs) = map shape cs"
  using assms(1)
proof (induction cs arbitrary: m old)
  case (Cons c cs)
  show ?case
  proof (cases "is_register c")
    case True
    have le: "length (renumber_from sm m (old + 1) cs) \<le> length cs" by (rule renumber_from_length)
    then show ?thesis
      using Cons.prems Cons.IH [of m "old + 1"] True
      by (auto simp: append_renumbered_registration_def shape_register split: option.splits)
  next
    case False
    then show ?thesis
      using Cons.prems Cons.IH [of "snd (remap_non_register_command c sm m)" old] shape_remap [OF False assms(2)]
      by (simp add: renumber_from_Cons_non del: renumber_from.simps(2))
  qed
qed simp

lemma shape_facts:
  assumes "map shape cs = map shape ds"
  shows "symbol_remap_from R old new sm cs = symbol_remap_from R old new sm ds"
    "map referenced_symbol cs = map referenced_symbol ds" "loose_fields cs = loose_fields ds"
proof -
  have l: "length cs = length ds" using assms by (rule map_eq_imp_length_eq)
  show "symbol_remap_from R old new sm cs = symbol_remap_from R old new sm ds"
    using l assms
    by (induction cs ds arbitrary: old new sm rule: list_induct2) (auto simp: shape_def)
  show "map referenced_symbol cs = map referenced_symbol ds" "loose_fields cs = loose_fields ds"
    using l assms by (induction cs ds rule: list_induct2) (auto simp: shape_def loose_fields_def)
qed

lemma collect_referenced_map: "collect_referenced_symbols cs = {s. Some s \<in> set (map referenced_symbol cs)}"
  unfolding collect_referenced_symbols_def by (induction cs) (auto simp: List.map_filter_simps split: option.splits)

lemma register_count_le: "register_count cs \<le> length cs"
  by (simp add: register_count_def)

lemma renumber_canonical:
  assumes "length (renumber cs) = length cs" "length cs < 2 ^ 32"
  shows "renumber (renumber cs) = renumber cs \<and> loose_fields (renumber cs) = loose_fields cs"
proof (cases "has_duplicate_symbol_registration_names cs")
  case True
  then show ?thesis by (simp add: renumber_def)
next
  case False
  let ?R = "collect_referenced_symbols cs"
  define sm where "sm = build_symbol_remap cs ?R"
  have out: "renumber cs = renumber_from sm oir_new 0 cs" using False by (simp add: renumber_def sm_def Let_def)
  have l: "length (renumber_from sm oir_new 0 cs) = length cs" using assms(1) out by simp
  have b: "unat (0 :: SymbolId) + register_count cs < 2 ^ 32" using assms(2) register_count_le [of cs] by simp
  have R: "0 + of_nat k \<in> ?R" if "k < register_count cs" for k
  proof -
    have "(0 + of_nat k :: SymbolId) \<in> dom sm" using renumber_from_full [OF l that] by auto
    then show ?thesis
      using symbol_remap_dom [OF b, of "0 + of_nat k" ?R 0 Map.empty] by (simp add: sm_def build_symbol_remap_def)
  qed
  have id: "sm s = Some s" if "s \<in> dom sm" for s
    using symbol_remap_identity [OF b R, of Map.empty s] that by (simp add: sm_def build_symbol_remap_def)
  then have rid: "remap_symbol sm s = s" for s by (force simp: remap_symbol_def split: option.split)
  note sh = renumber_from_shape [OF l rid]
  have "collect_referenced_symbols (renumber_from sm oir_new 0 cs) = ?R"
    unfolding collect_referenced_map shape_facts(2) [OF sh] ..
  then have sm': "build_symbol_remap (renumber cs) (collect_referenced_symbols (renumber cs)) = sm"
    by (simp add: out sm_def build_symbol_remap_def shape_facts(1) [OF sh, unfolded sm_def build_symbol_remap_def])
  have "renumber_from sm (oir_id 0) 0 (renumber cs) = renumber cs"
    unfolding out by (rule renumber_from_idem [OF l oir_wf_new _ id]) (use assms(2) in simp_all)
  then have "renumber (renumber cs) = renumber cs"
    by (simp add: renumber_def [of "renumber cs"] sm' Let_def oir_id_0)
  moreover have "loose_fields (renumber cs) = loose_fields cs" unfolding out by (rule shape_facts(3) [OF sh])
  ultimately show ?thesis by simp
qed

lemma renumber_reduces:
  assumes "fails cur" "length cur < 2 ^ 32"
  shows "reduces fails (renumber_symbols_and_orders fails) cur"
proof (cases "renumber cur \<noteq> cur \<and> fails (renumber cur)")
  case True
  have "(renumber cur, cur) \<in> shrink_order"
  proof (cases "length (renumber cur) = length cur")
    case l: True
    then show ?thesis using renumber_canonical [OF l assms(2)] True by (intro shrink_orderI(3)) simp_all
  next
    case False
    then show ?thesis using renumber_length [of cur] by (intro shrink_orderI(1)) simp
  qed
  then show ?thesis
    using True renumber_length [of cur] by (simp add: reduces_def renumber_symbols_and_orders_def Let_def)
next
  case False
  then show ?thesis using assms(1) by (auto simp: reduces_def renumber_symbols_and_orders_def Let_def)
qed

section \<open>The whole shrinker\<close>

lemma reduction_pass_reduces:
  assumes "fails cur" "length cur < 2 ^ 32"
  shows "reduces fails (run_reduction_pass fails) cur"
proof -
  let ?seq = "\<lambda>f g cur. let (cur, changed) = f cur; (cur, c) = g cur in (cur, c \<or> changed)"
  have "run_reduction_pass fails =
      ?seq (?seq (?seq (remove_contiguous_ranges fails) (simplify_quantities fails)) (simplify_prices fails))
        (renumber_symbols_and_orders fails)"
    by (simp add: run_reduction_pass_def [abs_def] fun_eq_iff Let_def case_prod_unfold)
  moreover have "reduces fails \<dots> cur"
    using assms
    by (intro reduces_seq remove_ranges_reduces simplify_reduces renumber_reduces) auto
  ultimately show ?thesis by simp
qed

lemma shrink_loop_result:
  assumes "fails cur" "length cur < 2 ^ 32"
  shows "\<exists>cur' passes'. shrink_loop fails cur passes = Some (cur', passes') \<and> fails cur' \<and> length cur' \<le> length cur \<and>
    passes < passes' \<and> run_reduction_pass fails cur' = (cur', False)"
  using wf_shrink_order assms
proof (induction cur arbitrary: passes rule: wf_induct_rule)
  case (less cur)
  obtain a c where p: "run_reduction_pass fails cur = (a, c)" by (cases "run_reduction_pass fails cur")
  have r: "fails a" "length a \<le> length cur" "if c then (a, cur) \<in> shrink_order else a = cur"
    using reduction_pass_reduces [of fails, OF less.prems] p by (simp_all add: reduces_def)
  show ?case
  proof (cases c)
    case True
    then obtain cur' passes' where "shrink_loop fails a (passes + 1) = Some (cur', passes')" "fails cur'"
        "length cur' \<le> length a" "passes + 1 < passes'" "run_reduction_pass fails cur' = (cur', False)"
      using less.IH [of a "passes + 1"] r less.prems(2) by auto
    then show ?thesis using p True r(2) by (subst shrink_loop.simps) auto
  next
    case False
    then show ?thesis using p r by (subst shrink_loop.simps) auto
  qed
qed

text \<open>A pass that changes nothing has tried every single command, quantity and price.\<close>

lemma remove_chunks_unchanged:
  assumes "remove_chunks_from fails 1 i cur changed = (cur', False)" "fails cur" "i \<le> j" "j < length cur"
  shows "\<not> fails (without cur j 1)"
proof -
  define n where "n = (1 :: nat)"
  have "remove_chunks_from fails n i cur changed = (cur', False)" "n = 1" using assms(1) by (simp_all add: n_def)
  then show ?thesis
    using assms(2-4)
  proof (induction fails n i cur changed rule: remove_chunks_from.induct)
    case (1 fails n i cur changed)
    have g: "0 < n \<and> i + n \<le> length cur" using 1(4,6,7) by simp
    show ?case
    proof (cases "fails (without cur i n)")
      case True
      then have "remove_chunks_from fails n i (without cur i n) True = (cur', False)"
        using 1(3) g by (simp add: remove_chunks_from.simps [of fails n i cur] Let_def)
      from remove_chunks_reduces [OF True this] show ?thesis by auto
    next
      case False
      then have rec: "remove_chunks_from fails n (i + n) cur changed = (cur', False)"
        using 1(3) g by (simp add: remove_chunks_from.simps [of fails n i cur] Let_def)
      show ?thesis
      proof (cases "j = i")
        case True
        then show ?thesis using False 1(4) by simp
      next
        case ne: False
        then show ?thesis using 1(2) [OF g refl False rec 1(4,5)] 1(4,6,7) by simp
      qed
    qed
  qed
qed

lemma simplify_unchanged:
  assumes "simplify_fields_from fails f i cur changed = (cur', False)" "f = with_min_qty \<or> f = with_min_price"
    "fails cur" "i \<le> j" "j < length cur" "f (cur ! j) \<noteq> cur ! j"
  shows "\<not> fails (cur[j := f (cur ! j)])"
  using assms
proof (induction fails f i cur changed rule: simplify_fields_from.induct)
  case (1 fails f i cur changed)
  let ?c = "cur[i := f (cur ! i)]"
  have g: "i < length cur" using 1(6,7) by simp
  show ?case
  proof (cases "?c ! i \<noteq> cur ! i \<and> fails ?c")
    case True
    then have "simplify_fields_from fails f (i + 1) ?c True = (cur', False)"
      using 1(3) g by (simp add: simplify_fields_from.simps [of fails f i cur] Let_def)
    from simplify_from_reduces [OF 1(4) _ this] True show ?thesis by auto
  next
    case False
    then have rec: "simplify_fields_from fails f (i + 1) cur changed = (cur', False)"
      using 1(3) g by (auto simp: simplify_fields_from.simps [of fails f i cur] Let_def)
    show ?thesis
    proof (cases "j = i")
      case True
      then show ?thesis using False 1(8) g by auto
    next
      case ne: False
      then show ?thesis using 1(2) [OF g refl False rec 1(4,5)] 1(6-8) by simp
    qed
  qed
qed

end
