(* ===== verification/Shrink_Properties.thy ===== *)
theory Shrink_Properties
  imports Shrink_Correct Engine_Properties
begin

text \<open>
  Correctness of the shrinker: it ends, its result still fails, and it is minimal.
\<close>

section \<open>Fixed points of a pass\<close>

lemma unchanged_seq:
  assumes "(let (cur, changed) = f cur; (cur, c) = g cur in (cur, c \<or> changed)) = (cur', False)"
    and "reduces fails f cur"
  shows "f cur = (cur, False)" "g cur = (cur', False)"
  using assms by (auto simp: reduces_def Let_def split: prod.splits if_splits)

lemma reduction_pass_fixed:
  assumes "run_reduction_pass fails cur = (cur, False)" "fails cur"
  shows "remove_single_commands fails cur = (cur, False)" "simplify_quantities fails cur = (cur, False)"
    "simplify_prices fails cur = (cur, False)" "renumber_symbols_and_orders fails cur = (cur, False)"
proof -
  let ?seq = "\<lambda>f g cur. let (cur, changed) = f cur; (cur, c) = g cur in (cur, c \<or> changed)"
  let ?a = "remove_contiguous_ranges fails"
  let ?b = "?seq ?a (simplify_quantities fails)"
  let ?c = "?seq ?b (simplify_prices fails)"
  have run: "?seq ?c (renumber_symbols_and_orders fails) cur = (cur, False)"
    using assms(1) by (simp add: run_reduction_pass_def Let_def case_prod_unfold)
  have a: "reduces fails ?a cur" by (rule remove_ranges_reduces [of fails, OF assms(2)])
  have b: "reduces fails ?b cur" by (rule reduces_seq [OF a]) (rule simplify_reduces)
  have c: "reduces fails ?c cur" by (rule reduces_seq [OF b]) (rule simplify_reduces)
  note 1 = unchanged_seq [OF run c]
  note 2 = unchanged_seq [OF 1(1) b]
  note 3 = unchanged_seq [OF 2(1) a]
  have m: "reduces fails (remove_multi_command_chunks fails) cur"
    using halving_reduces [of fails cur _ False] assms(2)
    by (cases "remove_multi_command_chunks fails cur")
      (auto simp: reduces_def remove_multi_command_chunks_def intro: shrink_orderI)
  note 4 = unchanged_seq [OF 3(1) [unfolded remove_contiguous_ranges_def] m]
  show "remove_single_commands fails cur = (cur, False)" by (rule 4(2))
  show "simplify_quantities fails cur = (cur, False)" by (rule 3(2))
  show "simplify_prices fails cur = (cur, False)" by (rule 2(2))
  show "renumber_symbols_and_orders fails cur = (cur, False)" by (rule 1(2))
qed

section \<open>The shrinker\<close>

text \<open>C27: The shrinker ends on every failing flow of fewer than 2^32 commands, whatever the
  predicate, and its result still fails and is no longer than the input; a flow that does not
  fail comes back unchanged.\<close>

theorem shrink_terminates:
  assumes "length cs < 2 ^ 32"
  shows "\<exists>cs' passes. shrink cs fails = Some (cs', passes) \<and> fails cs' = fails cs \<and> length cs' \<le> length cs \<and>
    (\<not> fails cs \<longrightarrow> cs' = cs \<and> passes = 0)"
proof (cases "fails cs")
  case True
  then show ?thesis using shrink_loop_result [of fails, OF True assms, of 0] by (auto simp: shrink_def)
qed (simp add: shrink_def)

theorem shrink_terminates_witness:
  "\<exists>cs' passes. shrink sample_flow (\<lambda>cs. 2 < length cs) = Some (cs', passes) \<and> 2 < length cs' \<and> length cs' \<le> 9"
  using shrink_terminates [of sample_flow "\<lambda>cs. 2 < length cs"] by (auto simp: sample_flow_def)

text \<open>C28: The result of shrinking a failing flow is minimal under the steps the shrinker takes: it
  stops failing when any one command is dropped, when the quantity of any one command is set to
  exactly 1, when the price of any one command is set to exactly 1, and when symbols and orders
  are renumbered, wherever these change it. Nothing is said of other reductions, such as dropping
  two commands at once or setting a quantity or a price to a value other than 1.\<close>

theorem shrink_minimal:
  assumes "shrink cs fails = Some (cs', passes)" "fails cs" "length cs < 2 ^ 32"
  shows "(\<forall>j < length cs'. \<not> fails (without cs' j 1)) \<and>
    (\<forall>j < length cs'. with_min_qty (cs' ! j) \<noteq> cs' ! j \<longrightarrow> \<not> fails (cs'[j := with_min_qty (cs' ! j)])) \<and>
    (\<forall>j < length cs'. with_min_price (cs' ! j) \<noteq> cs' ! j \<longrightarrow> \<not> fails (cs'[j := with_min_price (cs' ! j)])) \<and>
    (renumber cs' \<noteq> cs' \<longrightarrow> \<not> fails (renumber cs'))"
proof -
  have "fails cs'" "run_reduction_pass fails cs' = (cs', False)"
    using shrink_loop_result [of fails, OF assms(2,3), of 0] assms(1,2) by (auto simp: shrink_def)
  note fixed = reduction_pass_fixed [OF this(2,1)] and f = this(1)
  have "\<not> fails (without cs' j 1)" if "j < length cs'" for j
    using fixed(1) that remove_chunks_unchanged [of fails 0 cs' False cs' j] f
    unfolding remove_single_commands_def try_remove_chunks_of_size_def by blast
  moreover have "\<not> fails (cs'[j := with_min_qty (cs' ! j)])"
    if "j < length cs'" "with_min_qty (cs' ! j) \<noteq> cs' ! j" for j
    using fixed(2) that simplify_unchanged [where fails = fails and f = with_min_qty and i = 0 and cur = cs'] f
    by (simp add: simplify_quantities_def simplify_fields_def)
  moreover have "\<not> fails (cs'[j := with_min_price (cs' ! j)])"
    if "j < length cs'" "with_min_price (cs' ! j) \<noteq> cs' ! j" for j
    using fixed(3) that simplify_unchanged [where fails = fails and f = with_min_price and i = 0 and cur = cs'] f
    by (simp add: simplify_prices_def simplify_fields_def)
  moreover have "renumber cs' \<noteq> cs' \<Longrightarrow> \<not> fails (renumber cs')"
    using fixed(4) by (auto simp: renumber_symbols_and_orders_def Let_def split: if_splits)
  ultimately show ?thesis by blast
qed

theorem shrink_minimal_witness:
  "\<exists>cs' passes. shrink sample_flow (\<lambda>cs. 2 < length cs) = Some (cs', passes) \<and>
     list_all (\<lambda>j. length (without cs' j 1) \<le> 2) [0..<length cs']"
proof -
  let ?f = "\<lambda>cs :: Command list. 2 < length cs"
  have l: "?f sample_flow" "length sample_flow < 2 ^ 32" by (simp_all add: sample_flow_def)
  obtain cs' passes where s: "shrink sample_flow ?f = Some (cs', passes)"
    using shrink_loop_result [of ?f, OF l, of 0] l(1) by (auto simp: shrink_def)
  show ?thesis using shrink_minimal [OF s, OF l] s by (auto simp: list_all_iff not_less)
qed

end
