(* ===== verification/Market_Data.thy ===== *)
theory Market_Data
  imports Codec Matching_Engine
begin

text \<open>
  The market-data feed: \<^verbatim>\<open>src/feed/market_data.cpp\<close> (messages over the binary framing),
  \<^verbatim>\<open>src/feed/publisher.cpp\<close> (messages from engine events), \<^verbatim>\<open>include/qsl/feed/sequence_tracker.hpp\<close> and the
  datagram handling of \<^verbatim>\<open>src/feed/udp_feed.cpp\<close>. Socket calls are arguments: what \<^verbatim>\<open>sendto\<close> returned
  and which datagram \<^verbatim>\<open>recvfrom\<close> delivered.
\<close>

section \<open>Messages\<close>

record MdTrade =
  mdt_seq :: SeqNo
  mdt_symbol :: SymbolId
  mdt_price :: Price
  mdt_quantity :: Quantity

record MdTopOfBook =
  tob_seq :: SeqNo
  tob_symbol :: SymbolId
  tob_best_bid :: "Price option"
  tob_best_ask :: "Price option"

datatype MarketDataMessage = MdTradeMsg MdTrade | MdTopOfBookMsg MdTopOfBook

fun md_seq_of :: "MarketDataMessage \<Rightarrow> SeqNo" where
  "md_seq_of (MdTradeMsg m) = mdt_seq m"
| "md_seq_of (MdTopOfBookMsg m) = tob_seq m"

definition kMdTradeBody :: nat where "kMdTradeBody = 16"
definition kMdTopOfBookBody :: nat where "kMdTopOfBookBody = 22"

definition flag :: "bool \<Rightarrow> byte" where
  "flag present = (if present then 1 else 0)"

definition price_value_or_0 :: "Price option \<Rightarrow> 64 word" where
  "price_value_or_0 p = (case p of None \<Rightarrow> 0 | Some v \<Rightarrow> ticks v)"

definition encode_md_trade :: "MdTrade \<Rightarrow> bytes" where
  "encode_md_trade msg =
     (let buf = replicate (kHeaderSize + kMdTradeBody) 0;
          buf = write_header 0 \<lparr>h_type = MT_MdTrade, h_version = kProtocolVersion,
                                h_body_len = of_nat kMdTradeBody, h_seq_no = mdt_seq msg\<rparr> buf;
          b = kHeaderSize;
          buf = store_be 4 (b + 0) (mdt_symbol msg) buf;
          buf = store_be 8 (b + 4) (ticks (mdt_price msg)) buf
      in store_be 4 (b + 12) (mdt_quantity msg) buf)"

definition encode_md_top_of_book :: "MdTopOfBook \<Rightarrow> bytes" where
  "encode_md_top_of_book msg =
     (let buf = replicate (kHeaderSize + kMdTopOfBookBody) 0;
          buf = write_header 0 \<lparr>h_type = MT_MdTopOfBook, h_version = kProtocolVersion,
                                h_body_len = of_nat kMdTopOfBookBody, h_seq_no = tob_seq msg\<rparr> buf;
          b = kHeaderSize;
          buf = store_be 4 (b + 0) (tob_symbol msg) buf;
          buf = store_byte (b + 4) (flag (tob_best_bid msg \<noteq> None)) buf;
          buf = store_be 8 (b + 5) (price_value_or_0 (tob_best_bid msg)) buf;
          buf = store_byte (b + 13) (flag (tob_best_ask msg \<noteq> None)) buf
      in store_be 8 (b + 14) (price_value_or_0 (tob_best_ask msg)) buf)"

definition md_trade_zero :: MdTrade where
  "md_trade_zero = \<lparr>mdt_seq = 0, mdt_symbol = 0, mdt_price = Ticks 0, mdt_quantity = 0\<rparr>"

definition md_top_of_book_zero :: MdTopOfBook where
  "md_top_of_book_zero = \<lparr>tob_seq = 0, tob_symbol = 0, tob_best_bid = None, tob_best_ask = None\<rparr>"

definition decode_md_trade :: "bytes \<Rightarrow> MdTrade DecodeResult" where
  "decode_md_trade frame =
     (let hr = decode_header frame; err = \<lambda>e. \<lparr>dr_error = e, dr_value = md_trade_zero\<rparr>
      in if \<not> dr_ok hr then err (dr_error hr)
         else if h_type (dr_value hr) \<noteq> MT_MdTrade then err UnknownType
         else if unat (h_body_len (dr_value hr)) \<noteq> kMdTradeBody then err BodyLengthMismatch
         else if length frame < kHeaderSize + kMdTradeBody then err Truncated
         else
           let b = kHeaderSize
           in decoded \<lparr>mdt_seq = h_seq_no (dr_value hr), mdt_symbol = load_be 4 (b + 0) frame,
                       mdt_price = Ticks (load_be 8 (b + 4) frame), mdt_quantity = load_be 4 (b + 12) frame\<rparr>)"

definition decode_md_top_of_book :: "bytes \<Rightarrow> MdTopOfBook DecodeResult" where
  "decode_md_top_of_book frame =
     (let hr = decode_header frame; err = \<lambda>e. \<lparr>dr_error = e, dr_value = md_top_of_book_zero\<rparr>
      in if \<not> dr_ok hr then err (dr_error hr)
         else if h_type (dr_value hr) \<noteq> MT_MdTopOfBook then err UnknownType
         else if unat (h_body_len (dr_value hr)) \<noteq> kMdTopOfBookBody then err BodyLengthMismatch
         else if length frame < kHeaderSize + kMdTopOfBookBody then err Truncated
         else
           let b = kHeaderSize
           in decoded \<lparr>tob_seq = h_seq_no (dr_value hr), tob_symbol = load_be 4 (b + 0) frame,
                       tob_best_bid = (if frame ! (b + 4) \<noteq> 0 then Some (Ticks (load_be 8 (b + 5) frame)) else None),
                       tob_best_ask = (if frame ! (b + 13) \<noteq> 0 then Some (Ticks (load_be 8 (b + 14) frame)) else None)\<rparr>)"

definition decode_market_data :: "bytes \<Rightarrow> MarketDataMessage option" where
  "decode_market_data frame =
     (let header = decode_header frame
      in if \<not> dr_ok header then None
         else if h_type (dr_value header) = MT_MdTrade then
           let r = decode_md_trade frame in if dr_ok r then Some (MdTradeMsg (dr_value r)) else None
         else if h_type (dr_value header) = MT_MdTopOfBook then
           let r = decode_md_top_of_book frame in if dr_ok r then Some (MdTopOfBookMsg (dr_value r)) else None
         else None)"

section \<open>The publisher\<close>

record Tob =
  tob_bid :: "Price option"
  tob_ask :: "Price option"

text \<open>Subscribers are numbered; what they receive is the list of deliveries.\<close>

record MarketDataPublisher =
  mdp_subscribers :: "nat list"
  mdp_last_tob :: "SymbolId \<rightharpoonup> Tob"
  mdp_seq :: SeqNo

definition mdp_new :: MarketDataPublisher where
  "mdp_new = \<lparr>mdp_subscribers = [], mdp_last_tob = Map.empty, mdp_seq = 0\<rparr>"

definition subscribe :: "nat \<Rightarrow> MarketDataPublisher \<Rightarrow> MarketDataPublisher" where
  "subscribe subscriber p = p\<lparr>mdp_subscribers := mdp_subscribers p @ [subscriber]\<rparr>"

definition md_emit :: "MarketDataMessage \<Rightarrow> MarketDataPublisher \<Rightarrow> (nat \<times> MarketDataMessage) list" where
  "md_emit msg p = map (\<lambda>s. (s, msg)) (mdp_subscribers p)"

definition md_next_seq :: "MarketDataPublisher \<Rightarrow> MarketDataPublisher \<times> SeqNo" where
  "md_next_seq p = (p\<lparr>mdp_seq := mdp_seq p + 1\<rparr>, mdp_seq p + 1)"

fun publish_trades :: "EngineEvent list \<Rightarrow> SymbolId list \<Rightarrow> MarketDataPublisher
    \<Rightarrow> MarketDataPublisher \<times> SymbolId list \<times> (nat \<times> MarketDataMessage) list" where
  "publish_trades [] touched p = (p, touched, [])"
| "publish_trades (ev # evs) touched p =
     (let symbol = symbol_of ev;
          (p, out) = (case ev of
             TradeEvent _ _ _ _ price quantity \<Rightarrow>
               let (p, s) = md_next_seq p
               in (p, md_emit (MdTradeMsg \<lparr>mdt_seq = s, mdt_symbol = symbol, mdt_price = price, mdt_quantity = quantity\<rparr>) p)
           | _ \<Rightarrow> (p, []));
          touched = (if symbol \<in> set touched then touched else touched @ [symbol]);
          (p, touched, outs) = publish_trades evs touched p
      in (p, touched, out @ outs))"

definition publish_tob :: "MatchingEngine \<Rightarrow> SymbolId \<Rightarrow> MarketDataPublisher
    \<Rightarrow> MarketDataPublisher \<times> (nat \<times> MarketDataMessage) list" where
  "publish_tob e symbol p =
     (let current = \<lparr>tob_bid = me_best_bid symbol e, tob_ask = me_best_ask symbol e\<rparr>;
          msg = \<lambda>s. MdTopOfBookMsg \<lparr>tob_seq = s, tob_symbol = symbol, tob_best_bid = tob_bid current, tob_best_ask = tob_ask current\<rparr>
      in case mdp_last_tob p symbol of
           None \<Rightarrow>
             let p = p\<lparr>mdp_last_tob := (mdp_last_tob p)(symbol \<mapsto> current)\<rparr>
             in if tob_bid current \<noteq> None \<or> tob_ask current \<noteq> None then
                  let (p, s) = md_next_seq p in (p, md_emit (msg s) p)
                else (p, [])
         | Some prev \<Rightarrow>
             if prev \<noteq> current then
               let (p, s) = md_next_seq p in (p\<lparr>mdp_last_tob := (mdp_last_tob p)(symbol \<mapsto> current)\<rparr>, md_emit (msg s) p)
             else (p, []))"

fun publish_tobs :: "MatchingEngine \<Rightarrow> SymbolId list \<Rightarrow> MarketDataPublisher
    \<Rightarrow> MarketDataPublisher \<times> (nat \<times> MarketDataMessage) list" where
  "publish_tobs e [] p = (p, [])"
| "publish_tobs e (symbol # symbols) p =
     (let (p, out) = publish_tob e symbol p; (p, outs) = publish_tobs e symbols p in (p, out @ outs))"

definition publish :: "MatchingEngine \<Rightarrow> EngineEvent list \<Rightarrow> MarketDataPublisher
    \<Rightarrow> MarketDataPublisher \<times> (nat \<times> MarketDataMessage) list" where
  "publish e events p =
     (let (p, touched, trades) = publish_trades events [] p; (p, tobs) = publish_tobs e touched p
      in (p, trades @ tobs))"

section \<open>Gap tracking and datagrams\<close>

record SequenceTracker =
  st_started :: bool
  st_last :: SeqNo

definition st_new :: SequenceTracker where
  "st_new = \<lparr>st_started = False, st_last = 0\<rparr>"

definition observe :: "SeqNo \<Rightarrow> SequenceTracker \<Rightarrow> SequenceTracker \<times> 64 word" where
  "observe seq t =
     (if \<not> st_started t then (\<lparr>st_started = True, st_last = seq\<rparr>, 0)
      else if seq \<le> st_last t then (t, 0)
      else (t\<lparr>st_last := seq\<rparr>, seq - st_last t - 1))"

record UdpPublisher =
  up_good :: bool
  up_send_failures :: "64 word"

fun encode_market_data :: "MarketDataMessage \<Rightarrow> bytes" where
  "encode_market_data (MdTradeMsg m) = encode_md_trade m"
| "encode_market_data (MdTopOfBookMsg m) = encode_md_top_of_book m"

text \<open>\<open>sent\<close> is what \<^verbatim>\<open>sendto\<close> returns for the datagram; the datagram handed to it is returned.\<close>

definition up_on_market_data :: "(bytes \<Rightarrow> int) \<Rightarrow> MarketDataMessage \<Rightarrow> UdpPublisher \<Rightarrow> UdpPublisher \<times> bytes option" where
  "up_on_market_data sent msg u =
     (if \<not> up_good u then (u, None)
      else
        let bs = encode_market_data msg
        in if sent bs < 0 \<or> sent bs \<noteq> int (length bs)
           then (u\<lparr>up_send_failures := up_send_failures u + 1\<rparr>, Some bs)
           else (u, Some bs))"

record UdpFeedClient =
  uc_good :: bool
  uc_tracker :: SequenceTracker
  uc_total_gaps :: "64 word"

definition uc_new :: UdpFeedClient where
  "uc_new = \<lparr>uc_good = True, uc_tracker = st_new, uc_total_gaps = 0\<rparr>"

text \<open>
  \<open>datagram\<close> is what \<^verbatim>\<open>recvfrom\<close> delivers, \<open>None\<close> for a timeout or an error; the buffer takes its first
  1024 bytes. Returns the client, the message if any, and \<^verbatim>\<open>gap\<close>.
\<close>

definition uc_receive :: "bytes option \<Rightarrow> UdpFeedClient \<Rightarrow> UdpFeedClient \<times> MarketDataMessage option \<times> 64 word" where
  "uc_receive datagram c =
     (if \<not> uc_good c then (c, None, 0)
      else
        case datagram of
          None \<Rightarrow> (c, None, 0)
        | Some bs \<Rightarrow>
            let buffer = take 1024 bs
            in if buffer = [] then (c, None, 0)
               else
                 case decode_market_data buffer of
                   None \<Rightarrow> (c, None, 0)
                 | Some message \<Rightarrow>
                     let (t, gap) = observe (md_seq_of message) (uc_tracker c)
                     in (c\<lparr>uc_tracker := t, uc_total_gaps := uc_total_gaps c + gap\<rparr>, Some message, gap))"

section \<open>Round trips\<close>

lemma encode_md_trade_facts:
  "length (encode_md_trade msg) = 32" "header_ok MT_MdTrade 16 (mdt_seq msg) (encode_md_trade msg)"
  "load_be 4 16 (encode_md_trade msg) = mdt_symbol msg" "load_be 8 20 (encode_md_trade msg) = ticks (mdt_price msg)"
  "load_be 4 28 (encode_md_trade msg) = mdt_quantity msg"
  by (simp_all add: encode_md_trade_def Let_def codec_consts kMdTradeBody_def codec_simps load_header header_okI)

lemma encode_md_top_of_book_facts:
  "length (encode_md_top_of_book msg) = 38" "header_ok MT_MdTopOfBook 22 (tob_seq msg) (encode_md_top_of_book msg)"
  "load_be 4 16 (encode_md_top_of_book msg) = tob_symbol msg"
  "encode_md_top_of_book msg ! 20 = flag (tob_best_bid msg \<noteq> None)"
  "load_be 8 21 (encode_md_top_of_book msg) = price_value_or_0 (tob_best_bid msg)"
  "encode_md_top_of_book msg ! 29 = flag (tob_best_ask msg \<noteq> None)"
  "load_be 8 30 (encode_md_top_of_book msg) = price_value_or_0 (tob_best_ask msg)"
  by (simp_all add: encode_md_top_of_book_def Let_def codec_consts kMdTopOfBookBody_def codec_simps load_header header_okI)

interpretation md_trade_codec: frame_codec encode_md_trade decode_md_trade "\<lambda>_. True" MT_MdTrade 16
proof unfold_locales
  fix m more_bytes and bs :: bytes
  note f = encode_md_trade_facts [of m]
  show "length (encode_md_trade m) = kHeaderSize + 16" by (simp add: f kHeaderSize_def)
  show "\<exists>s. header_ok MT_MdTrade 16 s (encode_md_trade m)" using f(2) by blast
  have "decode_header (encode_md_trade m @ more_bytes) = decode_header (encode_md_trade m)"
    by (rule decode_header_append) (simp add: f kHeaderSize_def)
  then show "decode_md_trade (encode_md_trade m @ more_bytes) = decoded m"
    using header_ok_decoded [OF f(2)]
    by (simp add: decode_md_trade_def codec_consts kMdTradeBody_def f load_be_append Let_def)
  show "dr_ok (decode_header bs) \<and> h_type (dr_value (decode_header bs)) = MT_MdTrade" if "dr_ok (decode_md_trade bs)"
    using that by (auto simp: decode_md_trade_def Let_def dr_ok_def split: if_splits)
  show "\<not> dr_ok (decode_md_trade bs)" if "length bs < kHeaderSize + 16"
    using that by (auto simp: decode_md_trade_def Let_def dr_ok_def kMdTradeBody_def)
qed simp

interpretation md_tob_codec: frame_codec encode_md_top_of_book decode_md_top_of_book "\<lambda>_. True" MT_MdTopOfBook 22
proof unfold_locales
  fix m more_bytes and bs :: bytes
  note f = encode_md_top_of_book_facts [of m]
  show "length (encode_md_top_of_book m) = kHeaderSize + 22" by (simp add: f kHeaderSize_def)
  show "\<exists>s. header_ok MT_MdTopOfBook 22 s (encode_md_top_of_book m)" using f(2) by blast
  have "decode_header (encode_md_top_of_book m @ more_bytes) = decode_header (encode_md_top_of_book m)"
    by (rule decode_header_append) (simp add: f kHeaderSize_def)
  then show "decode_md_top_of_book (encode_md_top_of_book m @ more_bytes) = decoded m"
    using header_ok_decoded [OF f(2)]
    by (cases "tob_best_bid m"; cases "tob_best_ask m")
      (simp_all add: decode_md_top_of_book_def codec_consts kMdTopOfBookBody_def f load_be_append nth_append Let_def
        flag_def price_value_or_0_def)
  show "dr_ok (decode_header bs) \<and> h_type (dr_value (decode_header bs)) = MT_MdTopOfBook" if "dr_ok (decode_md_top_of_book bs)"
    using that by (auto simp: decode_md_top_of_book_def Let_def dr_ok_def split: if_splits)
  show "\<not> dr_ok (decode_md_top_of_book bs)" if "length bs < kHeaderSize + 22"
    using that by (auto simp: decode_md_top_of_book_def Let_def dr_ok_def kMdTopOfBookBody_def)
qed simp

lemma market_data_round_trip: "decode_market_data (encode_market_data m) = Some m"
proof (cases m)
  case (MdTradeMsg t)
  then show ?thesis
    using md_trade_codec.decode_encode [of t] header_ok_decoded [OF encode_md_trade_facts(2) [of t]]
    by (simp add: decode_market_data_def Let_def)
next
  case (MdTopOfBookMsg t)
  then show ?thesis
    using md_tob_codec.decode_encode [of t] header_ok_decoded [OF encode_md_top_of_book_facts(2) [of t]]
    by (simp add: decode_market_data_def Let_def)
qed

end
