(* ===== verification/Feed_Correct.thy ===== *)
theory Feed_Correct
  imports Market_Data Engine_Spec
begin

text \<open>
  What a subscriber of the feed can rely on: consecutive numbers, one message per trade, a view of
  the top of book that is the engine's, and gap counts that are exactly the numbers skipped.
\<close>

section \<open>What one subscriber receives\<close>

definition received :: "nat \<Rightarrow> (nat \<times> MarketDataMessage) list \<Rightarrow> MarketDataMessage list" where
  "received s out = map snd (filter (\<lambda>(t, _). t = s) out)"

definition subscribed_once :: "nat \<Rightarrow> MarketDataPublisher \<Rightarrow> bool" where
  "subscribed_once s p \<longleftrightarrow> length (filter (\<lambda>t. t = s) (mdp_subscribers p)) = 1"

lemma received_simps [simp]:
  "received s [] = []" "received s (xs @ ys) = received s xs @ received s ys"
  by (simp_all add: received_def)

lemma received_emit:
  assumes "subscribed_once s p" "mdp_subscribers q = mdp_subscribers p"
  shows "received s (md_emit msg q) = [msg]"
proof -
  have "received s (md_emit msg q) = map (\<lambda>_. msg) (filter (\<lambda>t. t = s) (mdp_subscribers q))"
    by (simp add: received_def md_emit_def filter_map comp_def)
  then show ?thesis using assms by (simp add: subscribed_once_def map_replicate_const)
qed

lemma map_filter_append: "List.map_filter f (xs @ ys) = List.map_filter f xs @ List.map_filter f ys"
  by (simp add: List.map_filter_def)

text \<open>The numbers of the messages run on from the publisher's counter.\<close>

fun numbered :: "SeqNo \<Rightarrow> MarketDataMessage list \<Rightarrow> bool" where
  "numbered s [] \<longleftrightarrow> True"
| "numbered s (m # ms) \<longleftrightarrow> md_seq_of m = s + 1 \<and> numbered (s + 1) ms"

lemma numbered_append: "numbered s (xs @ ys) \<longleftrightarrow> numbered s xs \<and> numbered (s + of_nat (length xs)) ys"
  by (induction xs arbitrary: s) (auto simp: add.assoc)

section \<open>The subscriber's view of the top of book\<close>

type_synonym tob_view = "SymbolId \<Rightarrow> Price option \<times> Price option"

fun tob_update :: "tob_view \<Rightarrow> MarketDataMessage \<Rightarrow> tob_view" where
  "tob_update v (MdTradeMsg _) = v"
| "tob_update v (MdTopOfBookMsg m) = v(tob_symbol m := (tob_best_bid m, tob_best_ask m))"

definition tob_view_of :: "MarketDataMessage list \<Rightarrow> tob_view" where
  "tob_view_of ms = foldl tob_update (\<lambda>_. (None, None)) ms"

definition me_tob :: "MatchingEngine \<Rightarrow> tob_view" where
  "me_tob e y = (me_best_bid y e, me_best_ask y e)"

definition last_view :: "MarketDataPublisher \<Rightarrow> tob_view" where
  "last_view p y = (case mdp_last_tob p y of None \<Rightarrow> (None, None) | Some t \<Rightarrow> (tob_bid t, tob_ask t))"

subsection \<open>Trades\<close>

fun trade_of :: "EngineEvent \<Rightarrow> (SymbolId \<times> Price \<times> Quantity) option" where
  "trade_of (TradeEvent _ symbol _ _ price quantity) = Some (symbol, price, quantity)"
| "trade_of _ = None"

fun md_trade_of :: "MarketDataMessage \<Rightarrow> (SymbolId \<times> Price \<times> Quantity) option" where
  "md_trade_of (MdTradeMsg m) = Some (mdt_symbol m, mdt_price m, mdt_quantity m)"
| "md_trade_of (MdTopOfBookMsg _) = None"

lemma publish_trades_facts:
  assumes "publish_trades evs touched p = (p', touched', out)" "subscribed_once s p"
  shows "mdp_subscribers p' = mdp_subscribers p \<and> mdp_last_tob p' = mdp_last_tob p \<and>
    mdp_seq p' = mdp_seq p + of_nat (length (received s out)) \<and> numbered (mdp_seq p) (received s out) \<and>
    List.map_filter md_trade_of (received s out) = List.map_filter trade_of evs \<and>
    set touched' = set touched \<union> symbol_of ` set evs \<and> (\<forall>v. foldl tob_update v (received s out) = v)"
  using assms
proof (induction evs arbitrary: touched p out)
  case (Cons ev evs)
  obtain p1 out1 where ev: "(case ev of
             TradeEvent _ _ _ _ price quantity \<Rightarrow>
               let (p, n) = md_next_seq p
               in (p, md_emit (MdTradeMsg \<lparr>mdt_seq = n, mdt_symbol = symbol_of ev, mdt_price = price, mdt_quantity = quantity\<rparr>) p)
           | _ \<Rightarrow> (p, [])) = (p1, out1)" by fastforce
  let ?t = "if symbol_of ev \<in> set touched then touched else touched @ [symbol_of ev]"
  obtain outs where rest: "publish_trades evs ?t p1 = (p', touched', outs)" and out: "out = out1 @ outs"
    using Cons.prems(1) ev by (auto simp: Let_def split: prod.splits)
  have em: "received s (md_emit msg q) = [msg]" if "mdp_subscribers q = mdp_subscribers p" for q msg
    using received_emit [OF Cons.prems(2)] that .
  have p1: "mdp_subscribers p1 = mdp_subscribers p" "mdp_last_tob p1 = mdp_last_tob p"
      "mdp_seq p1 = mdp_seq p + of_nat (length (received s out1))" "numbered (mdp_seq p) (received s out1)"
      "List.map_filter md_trade_of (received s out1) = List.map_filter trade_of [ev]"
      "foldl tob_update v (received s out1) = v" for v
    using ev by (cases ev; auto simp: md_next_seq_def List.map_filter_def em)+
  have s1: "subscribed_once s p1" using Cons.prems(2) p1(1) by (simp add: subscribed_once_def)
  have "List.map_filter trade_of (ev # evs) = List.map_filter trade_of [ev] @ List.map_filter trade_of evs"
    by (simp add: List.map_filter_def)
  then have mf: "List.map_filter md_trade_of (received s out) = List.map_filter trade_of (ev # evs)"
    using Cons.IH [OF rest s1] by (simp only: out received_simps map_filter_append p1(5))
  show ?case
    unfolding mf using Cons.IH [OF rest s1] p1(1-4,6) by (auto simp: out numbered_append)
qed (auto simp: List.map_filter_def)

subsection \<open>Tops of book\<close>

lemma publish_tob_facts:
  assumes "publish_tob e y p = (p', out)" "subscribed_once s p"
  shows "mdp_subscribers p' = mdp_subscribers p"
    "mdp_seq p' = mdp_seq p + of_nat (length (received s out))" "numbered (mdp_seq p) (received s out)"
    "foldl tob_update (last_view p) (received s out) = last_view p'"
    "last_view p' = (last_view p)(y := me_tob e y)" "List.map_filter md_trade_of (received s out) = []"
proof -
  let ?b = "me_best_bid y e" and ?a = "me_best_ask y e"
  have em: "received s (md_emit msg q) = [msg]" if "mdp_subscribers q = mdp_subscribers p" for q msg
    using received_emit [OF assms(2)] that .
  note defs = publish_tob_def md_next_seq_def Let_def
  have "mdp_subscribers p' = mdp_subscribers p \<and>
    mdp_seq p' = mdp_seq p + of_nat (length (received s out)) \<and> numbered (mdp_seq p) (received s out) \<and>
    foldl tob_update (last_view p) (received s out) = last_view p' \<and>
    last_view p' = (last_view p)(y := me_tob e y) \<and> List.map_filter md_trade_of (received s out) = []"
  proof (cases "mdp_last_tob p y")
    case None
    then show ?thesis
      using assms(1)
      by (auto simp: defs last_view_def me_tob_def fun_eq_iff em List.map_filter_def split: if_splits)
  next
    case (Some t)
    show ?thesis
    proof (cases "t = \<lparr>tob_bid = ?b, tob_ask = ?a\<rparr>")
      case True
      then show ?thesis
        using assms Some by (auto simp: defs last_view_def me_tob_def fun_eq_iff List.map_filter_def)
    next
      case False
      then show ?thesis
        using assms(1) Some
        by (auto simp: defs last_view_def me_tob_def fun_eq_iff em List.map_filter_def)
    qed
  qed
  then show "mdp_subscribers p' = mdp_subscribers p"
    "mdp_seq p' = mdp_seq p + of_nat (length (received s out))" "numbered (mdp_seq p) (received s out)"
    "foldl tob_update (last_view p) (received s out) = last_view p'"
    "last_view p' = (last_view p)(y := me_tob e y)" "List.map_filter md_trade_of (received s out) = []"
    by blast+
qed


lemma publish_tobs_facts:
  assumes "publish_tobs e ys p = (p', out)" "subscribed_once s p"
  shows "mdp_subscribers p' = mdp_subscribers p \<and>
    mdp_seq p' = mdp_seq p + of_nat (length (received s out)) \<and> numbered (mdp_seq p) (received s out) \<and>
    foldl tob_update (last_view p) (received s out) = last_view p' \<and>
    (\<forall>y. last_view p' y = (if y \<in> set ys then me_tob e y else last_view p y)) \<and>
    List.map_filter md_trade_of (received s out) = []"
  using assms
proof (induction ys arbitrary: p out)
  case (Cons y ys)
  obtain p1 out1 where t: "publish_tob e y p = (p1, out1)" by (cases "publish_tob e y p")
  obtain outs where rest: "publish_tobs e ys p1 = (p', outs)" and out: "out = out1 @ outs"
    using Cons.prems(1) t by (auto split: prod.splits)
  note f = publish_tob_facts [OF t Cons.prems(2)]
  have s1: "subscribed_once s p1" using Cons.prems(2) f(1) by (simp add: subscribed_once_def)
  have "foldl tob_update (last_view p) (received s out) = last_view p'"
    unfolding out received_simps foldl_append f(4) using Cons.IH [OF rest s1] by blast
  moreover have "\<forall>z. last_view p' z = (if z \<in> set (y # ys) then me_tob e z else last_view p z)"
    using Cons.IH [OF rest s1] f(5) by (auto simp: fun_eq_iff)
  ultimately show ?case
    using Cons.IH [OF rest s1] f(1-3,6) by (simp add: out numbered_append map_filter_append)
qed (simp add: List.map_filter_def)

text \<open>One call of \<^verbatim>\<open>publish\<close>, for a subscriber that subscribed once.\<close>

lemma publish_facts:
  assumes "publish e evs p = (p', out)" "subscribed_once s p"
  shows "subscribed_once s p'" "mdp_seq p' = mdp_seq p + of_nat (length (received s out))"
    "numbered (mdp_seq p) (received s out)" "List.map_filter md_trade_of (received s out) = List.map_filter trade_of evs"
    "foldl tob_update (last_view p) (received s out) = last_view p'"
    "last_view p' y = (if y \<in> symbol_of ` set evs then me_tob e y else last_view p y)"
proof -
  obtain p1 touched o1 where t: "publish_trades evs [] p = (p1, touched, o1)" by (cases "publish_trades evs [] p")
  obtain o2 where b: "publish_tobs e touched p1 = (p', o2)" and out: "out = o1 @ o2"
    using assms(1) t by (auto simp: publish_def split: prod.splits)
  note f = publish_trades_facts [OF t assms(2)]
  have s1: "subscribed_once s p1" using assms(2) f by (simp add: subscribed_once_def)
  note g = publish_tobs_facts [OF b s1]
  have v: "last_view p1 = last_view p" using f by (simp add: last_view_def fun_eq_iff)
  show "subscribed_once s p'" using g s1 by (simp add: subscribed_once_def)
  show "mdp_seq p' = mdp_seq p + of_nat (length (received s out))" "numbered (mdp_seq p) (received s out)"
    using f g by (simp_all add: out numbered_append)
  show "List.map_filter md_trade_of (received s out) = List.map_filter trade_of evs"
    using f g by (simp add: out map_filter_append)
  show "foldl tob_update (last_view p) (received s out) = last_view p'" using f g v by (simp add: out)
  show "last_view p' y = (if y \<in> symbol_of ` set evs then me_tob e y else last_view p y)"
    using f g v by auto
qed

section \<open>Runs of commands with a feed\<close>

text \<open>Every command through the gateway, then its events through the publisher.\<close>

fun run_feed :: "RiskConfig \<Rightarrow> Command list \<Rightarrow> MatchingEngine \<Rightarrow> MarketDataPublisher
    \<Rightarrow> MatchingEngine \<times> MarketDataPublisher \<times> GatewayResult list \<times> (nat \<times> MarketDataMessage) list" where
  "run_feed config [] e p = (e, p, [], [])"
| "run_feed config (c # cs) e p =
     (let (e, r) = apply_command config c e; (p, out) = publish e (gr_events r) p;
          (e, p, rs, outs) = run_feed config cs e p
      in (e, p, r # rs, out @ outs))"

definition spec_tob :: "SpecEngine \<Rightarrow> tob_view" where
  "spec_tob s y = (case sp_books s y of None \<Rightarrow> (None, None) | Some b \<Rightarrow> (spec_best (s_bids b), spec_best (s_asks b)))"

lemma me_tob_spec: "me_wf e \<Longrightarrow> me_tob e = spec_tob (me_abs e)"
  by (auto simp: fun_eq_iff me_tob_def spec_tob_def me_best_bid_def me_best_ask_def ob.best_bid_spec ob.best_ask_spec
      dest!: me_wf_find split: option.split)

lemma spec_tob_untouched:
  assumes "spec_command config c s = (s', r)" "y \<notin> symbol_of ` set (gr_events r)"
  shows "spec_tob s' y = spec_tob s y"
  using assms
  by (cases c)
    (auto simp: spec_tob_def sp_emit_def spec_best_def spec_empty_def Let_def split: option.splits if_splits prod.splits)


lemma run_feed_facts:
  assumes "me_wf e" "sp_small n (me_abs e)" "n + length cs < 2 ^ 31" "subscribed_once s p"
    "last_view p = me_tob e" "run_feed config cs e p = (e', p', rs, out)"
  shows "run_commands config cs e = (e', rs) \<and> last_view p' = me_tob e' \<and>
    foldl tob_update (last_view p) (received s out) = last_view p' \<and>
    numbered (mdp_seq p) (received s out) \<and> mdp_seq p' = mdp_seq p + of_nat (length (received s out)) \<and>
    List.map_filter md_trade_of (received s out) = List.map_filter trade_of (concat (map gr_events rs))"
  using assms
proof (induction cs arbitrary: e p n rs out)
  case (Cons c cs)
  obtain e1 r where a: "apply_command config c e = (e1, r)" by (cases "apply_command config c e")
  obtain p1 out1 where pub: "publish e1 (gr_events r) p = (p1, out1)" by (cases "publish e1 (gr_events r) p")
  obtain rs' outs where rest: "run_feed config cs e1 p1 = (e', p', rs', outs)" and o: "rs = r # rs'" "out = out1 @ outs"
    using Cons.prems(6) a pub by (auto split: prod.splits)
  have room: "me_room e" using sp_small_room [OF Cons.prems(1,2)] Cons.prems(3) by simp
  have wf: "me_wf e1" by (rule apply_command_wf [OF Cons.prems(1) room a])
  have small: "sp_small (Suc n) (me_abs e1)" by (rule sp_small_apply [OF Cons.prems(1) room Cons.prems(2) a])
  note f = publish_facts [OF pub Cons.prems(4)]
  have untouched: "me_tob e1 y = me_tob e y" if "y \<notin> symbol_of ` set (gr_events r)" for y
  proof (cases "gr_accepted r")
    case True
    then have "gr_reason r \<noteq> StorageExhausted" using apply_command_accept_reason [OF a] by simp
    then have "spec_command config c (me_abs e) = (me_abs e1, r)"
      using apply_command_spec [OF Cons.prems(1) room a] by simp
    then show ?thesis
      using spec_tob_untouched [of config c] that me_tob_spec [OF wf] me_tob_spec [OF Cons.prems(1)] by simp
  next
    case False
    then show ?thesis using apply_command_reject [OF a] by simp
  qed
  have view: "last_view p1 = me_tob e1"
    using f(6) untouched Cons.prems(5) by (auto simp: fun_eq_iff)
  have IH: "run_commands config cs e1 = (e', rs') \<and> last_view p' = me_tob e' \<and>
      foldl tob_update (last_view p1) (received s outs) = last_view p' \<and>
      numbered (mdp_seq p1) (received s outs) \<and> mdp_seq p' = mdp_seq p1 + of_nat (length (received s outs)) \<and>
      List.map_filter md_trade_of (received s outs) = List.map_filter trade_of (concat (map gr_events rs'))"
    using Cons.IH [OF wf small _ f(1) view rest] Cons.prems(3) by simp
  have "foldl tob_update (last_view p) (received s out) = last_view p'"
    using IH f(5) by (simp add: o)
  moreover have "List.map_filter md_trade_of (received s out) = List.map_filter trade_of (concat (map gr_events rs))"
    using IH f(4) by (simp add: o map_filter_append)
  moreover have "numbered (mdp_seq p) (received s out)" "mdp_seq p' = mdp_seq p + of_nat (length (received s out))"
    using IH f(2,3) by (simp_all add: o numbered_append)
  ultimately show ?case using IH a by (simp add: o)
qed (simp add: List.map_filter_def)

section \<open>Gaps\<close>

fun observe_all :: "SeqNo list \<Rightarrow> SequenceTracker \<Rightarrow> SequenceTracker \<times> 64 word list" where
  "observe_all [] t = (t, [])"
| "observe_all (x # xs) t = (let (t, g) = observe x t; (t, gs) = observe_all xs t in (t, g # gs))"

text \<open>On an increasing stream the gaps are exactly the numbers skipped.\<close>

lemma observe_increasing:
  assumes "sorted_wrt (<) (x # xs)" "t = \<lparr>st_started = True, st_last = x\<rparr>" "observe_all xs t = (t', gs)"
  shows "unat x + length xs + sum_list (map unat gs) = unat (last (x # xs)) \<and> st_last t' = last (x # xs) \<and>
    length gs = length xs"
  using assms
proof (induction xs arbitrary: x t gs)
  case (Cons y xs)
  have less: "x < y" using Cons.prems(1) by simp
  let ?t = "\<lparr>st_started = True, st_last = y\<rparr>"
  have ob: "observe y t = (?t, y - x - 1)" using Cons.prems(2) less by (auto simp: observe_def)
  obtain gs' where gs: "observe_all xs ?t = (t', gs')" "gs = (y - x - 1) # gs'"
    using Cons.prems(3) by (auto simp: ob split: prod.splits)
  have "unat (y - x - 1) = unat y - unat x - 1"
  proof -
    have "unat (y - x) = unat y - unat x" using less by (simp add: unat_sub_if' word_less_nat_alt)
    then show ?thesis using less by (simp add: unat_sub_if' word_less_nat_alt word_le_nat_alt)
  qed
  moreover have "unat x < unat y" using less by (simp add: word_less_nat_alt)
  moreover have "unat y + length xs + sum_list (map unat gs') = unat (last (y # xs)) \<and> st_last t' = last (y # xs) \<and>
      length gs' = length xs"
    by (rule Cons.IH [OF _ refl gs(1)]) (use Cons.prems(1) in simp)
  ultimately show ?case using gs(2) by auto
qed auto

end
