(* ===== verification/Feed_Properties.thy ===== *)
theory Feed_Properties
  imports Feed_Correct Engine_Properties "HOL-Library.Sublist"
begin

text \<open>
  Correctness of the market data feed, from the engine's events to a client on a network that
  drops datagrams.
\<close>

section \<open>The feed of a run\<close>

text \<open>C29: A subscriber's picture is exact: over any run of fewer than 2^31 commands, the feed of a
  new publisher numbers its messages 1, 2, 3 and so on, carries exactly the trades of the run in
  their order, and leaves every subscriber that applies the updates with the engine's own best
  prices for every symbol.\<close>

theorem feed_view_exact:
  assumes "length cs < 2 ^ 31" "run_feed config cs (me_new storage) (subscribe s mdp_new) = (e, p, rs, out)"
  shows "run_commands config cs (me_new storage) = (e, rs) \<and>
    tob_view_of (received s out) = me_tob e \<and> numbered 0 (received s out) \<and>
    List.map_filter md_trade_of (received s out) = List.map_filter trade_of (concat (map gr_events rs))"
proof -
  let ?p = "subscribe s mdp_new"
  have s: "subscribed_once s ?p" "mdp_seq ?p = 0" "last_view ?p = (\<lambda>_. (None, None))"
    by (simp_all add: subscribed_once_def subscribe_def mdp_new_def last_view_def fun_eq_iff)
  have t: "me_tob (me_new storage) = (\<lambda>_. (None, None))"
    by (simp add: fun_eq_iff me_tob_def me_best_bid_def me_best_ask_def find_book_def me_new_def)
  show ?thesis
    using run_feed_facts [of "me_new storage" 0 cs s ?p config e p rs out] assms s t
    by (simp add: tob_view_of_def)
qed

theorem feed_view_exact_witness:
  "tob_view_of (received 4 (snd (snd (snd (run_feed sample_config sample_flow (me_new Baseline) (subscribe 4 mdp_new)))))) 0 =
     (Some (Ticks 98), Some (Ticks 99))"
proof -
  let ?run = "run_feed sample_config sample_flow (me_new Baseline) (subscribe 4 mdp_new)"
  have "me_tob (fst ?run) 0 = (Some (Ticks 98), Some (Ticks 99))" by code_simp
  with feed_view_exact [OF sample_length, of sample_config Baseline 4 "fst ?run" "fst (snd ?run)" "fst (snd (snd ?run))"
      "snd (snd (snd ?run))"]
  show ?thesis by simp
qed

section \<open>A client on a lossy network\<close>

fun uc_receive_all :: "bytes list \<Rightarrow> UdpFeedClient \<Rightarrow> UdpFeedClient \<times> MarketDataMessage list" where
  "uc_receive_all [] c = (c, [])"
| "uc_receive_all (bs # bss) c =
     (let (c, m, gap) = uc_receive (Some bs) c; (c, ms) = uc_receive_all bss c
      in (c, (case m of None \<Rightarrow> ms | Some x \<Rightarrow> x # ms)))"

lemma encode_market_data_length: "encode_market_data m \<noteq> []" "take 1024 (encode_market_data m) = encode_market_data m"
proof -
  have "length (encode_market_data m) = 32 \<or> length (encode_market_data m) = 38"
    by (cases m) (simp_all add: encode_md_trade_facts encode_md_top_of_book_facts)
  then show "encode_market_data m \<noteq> []" "take 1024 (encode_market_data m) = encode_market_data m" by auto
qed

lemma uc_receive_message:
  assumes "uc_good c"
  shows "uc_receive (Some (encode_market_data m)) c =
    (let (t, gap) = observe (md_seq_of m) (uc_tracker c)
     in (c\<lparr>uc_tracker := t, uc_total_gaps := uc_total_gaps c + gap\<rparr>, Some m, gap))"
  using assms by (simp add: uc_receive_def encode_market_data_length market_data_round_trip Let_def)

lemma uc_receive_started:
  assumes "uc_good c" "uc_tracker c = \<lparr>st_started = True, st_last = x\<rparr>" "uc_total_gaps c \<le> x"
    and "sorted_wrt (<) (x # map md_seq_of ms)"
    and "uc_receive_all (map encode_market_data ms) c = (c', rs)"
  shows "rs = ms \<and> unat (uc_total_gaps c') + length ms + unat x =
    unat (uc_total_gaps c) + unat (last (x # map md_seq_of ms))"
  using assms
proof (induction ms arbitrary: x c rs)
  case (Cons m ms)
  let ?y = "md_seq_of m"
  have less: "x < ?y" using Cons.prems(4) by simp
  have ob: "observe ?y (uc_tracker c) = (\<lparr>st_started = True, st_last = ?y\<rparr>, ?y - x - 1)"
    using less by (auto simp: observe_def Cons.prems(2))
  let ?c = "c\<lparr>uc_tracker := \<lparr>st_started = True, st_last = ?y\<rparr>, uc_total_gaps := uc_total_gaps c + (?y - x - 1)\<rparr>"
  obtain rs' where rest: "uc_receive_all (map encode_market_data ms) ?c = (c', rs')" and rs: "rs = m # rs'"
    using Cons.prems(5) by (auto simp: uc_receive_message [OF Cons.prems(1)] ob split: prod.splits)
  have gap: "unat (?y - x - 1) = unat ?y - unat x - 1"
  proof -
    have "unat (?y - x) = unat ?y - unat x" using less by (simp add: unat_sub order_less_imp_le)
    moreover have "1 \<le> ?y - x" using less by (simp add: word_le_nat_alt unat_sub order_less_imp_le word_less_nat_alt)
    ultimately show ?thesis by (simp add: unat_sub)
  qed
  have g: "unat (uc_total_gaps c) \<le> unat x" "unat x < unat ?y" "unat ?y < 2 ^ 64"
    using Cons.prems(3) less unsigned_less [of ?y, where ?'a = nat] by (simp_all add: word_le_nat_alt word_less_nat_alt)
  then have sum: "unat (uc_total_gaps c + (?y - x - 1)) = unat (uc_total_gaps c) + (unat ?y - unat x - 1)"
    using gap by (subst unat_add_lem [THEN iffD1]) simp_all
  have "uc_total_gaps ?c \<le> ?y" using sum g by (simp add: word_le_nat_alt)
  moreover have "sorted_wrt (<) (?y # map md_seq_of ms)" using Cons.prems(4) by simp
  ultimately have "rs' = ms \<and> unat (uc_total_gaps c') + length ms + unat ?y =
      unat (uc_total_gaps ?c) + unat (last (?y # map md_seq_of ms))"
    using Cons.IH [of ?c ?y rs'] Cons.prems(1) rest by simp
  then show ?case using sum g rs by auto
qed simp

definition numbered :: "MarketDataMessage list \<Rightarrow> bool" where
  "numbered sent \<longleftrightarrow> length sent < 2 ^ 64 \<and> map md_seq_of sent = map of_nat [1..<Suc (length sent)]"

lemma numbered_range:
  assumes "numbered sent" "m \<in> set sent"
  shows "1 \<le> unat (md_seq_of m)" "unat (md_seq_of m) \<le> length sent"
proof -
  have "md_seq_of m \<in> set (map md_seq_of sent)" using assms(2) by simp
  then obtain k where k: "md_seq_of m = of_nat k" "1 \<le> k" "k \<le> length sent"
    using assms(1) unfolding numbered_def by (auto simp del: upt_Suc)
  moreover have "k < 2 ^ LENGTH(64)" using k(3) assms(1) by (simp add: numbered_def)
  ultimately show "1 \<le> unat (md_seq_of m)" "unat (md_seq_of m) \<le> length sent" by (simp_all add: unsigned_of_nat take_bit_nat_eq_self)
qed

text \<open>C30: A client that receives messages whose numbers increase decodes exactly those messages,
  and its gap counter is exactly how many numbers are missing between the first and the last one
  received. It does not count what was lost before the first or after the last: of a stream
  numbered 1, 2, 3 and so on of which it received a part in order, the messages lost are those
  counted, those before the first one received and those after the last.\<close>

theorem feed_gaps_exact:
  assumes "sorted_wrt (<) (map md_seq_of ms)" "ms \<noteq> []"
    and "uc_receive_all (map encode_market_data ms) uc_new = (c, rs)"
  shows "rs = ms \<and> unat (uc_total_gaps c) + length ms + unat (md_seq_of (hd ms)) = unat (md_seq_of (last ms)) + 1 \<and>
    (\<forall>sent. numbered sent \<and> subseq ms sent \<longrightarrow>
       length sent - length ms =
         unat (uc_total_gaps c) + (unat (md_seq_of (hd ms)) - 1) + (length sent - unat (md_seq_of (last ms))))"
proof -
  obtain m ms' where ms: "ms = m # ms'" using assms(2) by (cases ms) auto
  let ?c = "uc_new\<lparr>uc_tracker := \<lparr>st_started = True, st_last = md_seq_of m\<rparr>, uc_total_gaps := 0\<rparr>"
  have first: "uc_receive (Some (encode_market_data m)) uc_new = (?c, Some m, 0)"
    by (subst uc_receive_message) (simp_all add: uc_new_def observe_def st_new_def)
  obtain rs' where rest: "uc_receive_all (map encode_market_data ms') ?c = (c, rs')" and rs: "rs = m # rs'"
    using assms(3) by (auto simp: ms first split: prod.splits)
  have "rs' = ms' \<and> unat (uc_total_gaps c) + length ms' + unat (md_seq_of m) = unat (last (md_seq_of m # map md_seq_of ms'))"
    using uc_receive_started [of ?c "md_seq_of m" ms' c rs'] assms(1) rest by (simp add: ms uc_new_def)
  moreover have "last (md_seq_of m # map md_seq_of ms') = md_seq_of (last ms)"
    unfolding ms by (metis last_map list.simps(3) list.simps(9))
  ultimately have count: "rs = ms" "unat (uc_total_gaps c) + length ms + unat (md_seq_of (hd ms)) = unat (md_seq_of (last ms)) + 1"
    by (simp_all add: ms rs)
  have "length sent - length ms =
      unat (uc_total_gaps c) + (unat (md_seq_of (hd ms)) - 1) + (length sent - unat (md_seq_of (last ms)))"
    if "numbered sent" "subseq ms sent" for sent
  proof -
    have "hd ms \<in> set sent" "last ms \<in> set sent"
      using list_emb_set [OF that(2)] assms(2) by (metis hd_in_set, metis last_in_set)
    then show ?thesis using numbered_range [OF that(1)] count(2) by fastforce
  qed
  then show ?thesis using count by blast
qed

definition sample_stream :: "MarketDataMessage list" where
  "sample_stream = map (\<lambda>n. MdTradeMsg \<lparr>mdt_seq = n, mdt_symbol = 0, mdt_price = Ticks 9, mdt_quantity = 1\<rparr>) [1, 2, 3, 4, 5, 6, 7, 8]"

theorem feed_gaps_exact_witness:
  "let c = fst (uc_receive_all (map encode_market_data [sample_stream ! 2, sample_stream ! 6]) uc_new)
   in unat (uc_total_gaps c) = 3 \<and> length sample_stream - 2 = unat (uc_total_gaps c) + 2 + 1"
proof -
  let ?ms = "[sample_stream ! 2, sample_stream ! 6]"
  have "sorted_wrt (<) (map md_seq_of ?ms)" "?ms \<noteq> []" by (simp_all add: sample_stream_def)
  note r = feed_gaps_exact [OF this prod.collapse [symmetric]]
  have "numbered sample_stream" by (simp add: numbered_def sample_stream_def upt_rec)
  moreover have "subseq ?ms sample_stream" by (simp add: sample_stream_def)
  ultimately show ?thesis using r by (simp add: sample_stream_def)
qed

end
