(* ===== verification/Spsc_Ring.thy ===== *)
theory Spsc_Ring
  imports Qsl_Prelude
begin

text \<open>
  \<^verbatim>\<open>include/qsl/concurrency/spsc_ring.hpp\<close>: the bounded single-producer single-consumer ring. First its
  operations run to completion, refined to a bounded queue; then the two threads interleaved at
  every access to shared memory.
\<close>

section \<open>The ring\<close>

text \<open>\<^verbatim>\<open>kSlots\<close> is \<^verbatim>\<open>Capacity + 1\<close>; the buffer starts with default elements.\<close>

record 'a SpscRing =
  sr_buffer :: "'a list"
  sr_head :: nat
  sr_tail :: nat

definition kSlots :: "nat \<Rightarrow> nat" where
  "kSlots capacity = capacity + 1"

definition ring_new :: "nat \<Rightarrow> 'a \<Rightarrow> 'a SpscRing" where
  "ring_new capacity d = \<lparr>sr_buffer = replicate (kSlots capacity) d, sr_head = 0, sr_tail = 0\<rparr>"

definition ring_next :: "'a SpscRing \<Rightarrow> nat \<Rightarrow> nat" where
  "ring_next r i = (i + 1) mod length (sr_buffer r)"

definition try_push :: "'a \<Rightarrow> 'a SpscRing \<Rightarrow> 'a SpscRing \<times> bool" where
  "try_push v r =
     (let tail = sr_tail r; n = ring_next r tail
      in if n = sr_head r then (r, False)
         else (r\<lparr>sr_buffer := (sr_buffer r)[tail := v], sr_tail := n\<rparr>, True))"

definition try_pop :: "'a SpscRing \<Rightarrow> 'a SpscRing \<times> 'a option" where
  "try_pop r =
     (let head = sr_head r
      in if head = sr_tail r then (r, None)
         else (r\<lparr>sr_head := ring_next r head\<rparr>, Some (sr_buffer r ! head)))"

definition ring_empty :: "'a SpscRing \<Rightarrow> bool" where
  "ring_empty r \<longleftrightarrow> sr_head r = sr_tail r"

definition ring_full :: "'a SpscRing \<Rightarrow> bool" where
  "ring_full r \<longleftrightarrow> ring_next r (sr_tail r) = sr_head r"

section \<open>Refinement to a bounded queue\<close>

definition ring_wf :: "nat \<Rightarrow> 'a SpscRing \<Rightarrow> bool" where
  "ring_wf capacity r \<longleftrightarrow> 1 \<le> capacity \<and> length (sr_buffer r) = kSlots capacity \<and>
     sr_head r < kSlots capacity \<and> sr_tail r < kSlots capacity"

text \<open>The number of elements and the elements, read from \<open>head\<close>.\<close>

definition ring_span :: "nat \<Rightarrow> nat \<Rightarrow> nat \<Rightarrow> nat" where
  "ring_span n head tail = (if head \<le> tail then tail - head else n - head + tail)"

definition ring_slots :: "nat \<Rightarrow> nat \<Rightarrow> nat \<Rightarrow> nat list" where
  "ring_slots n head tail = map (\<lambda>k. (head + k) mod n) [0..<ring_span n head tail]"

definition ring_abs :: "'a SpscRing \<Rightarrow> 'a list" where
  "ring_abs r = map ((!) (sr_buffer r)) (ring_slots (length (sr_buffer r)) (sr_head r) (sr_tail r))"

lemma next_cases: "i < n \<Longrightarrow> Suc i mod n = (if Suc i = n then 0 else Suc i)"
  by (simp add: mod_if)

lemma ring_span_next:
  assumes "head < n" "tail < n"
  shows "Suc tail mod n \<noteq> head \<Longrightarrow> ring_span n head (Suc tail mod n) = Suc (ring_span n head tail)"
    "head \<noteq> tail \<Longrightarrow> ring_span n head tail = Suc (ring_span n (Suc head mod n) tail)"
    "ring_span n head tail < n" "ring_span n head tail = 0 \<longleftrightarrow> head = tail"
    "Suc tail mod n = head \<longleftrightarrow> Suc (ring_span n head tail) = n"
  using assms by (auto simp: ring_span_def next_cases split: if_splits)

lemma ring_span_tail: "head < n \<Longrightarrow> tail < n \<Longrightarrow> (head + ring_span n head tail) mod n = tail"
  by (auto simp: ring_span_def mod_if)

lemma ring_slots_push:
  assumes "head < n" "tail < n" "Suc tail mod n \<noteq> head"
  shows "ring_slots n head (Suc tail mod n) = ring_slots n head tail @ [tail]"
  using assms by (simp add: ring_slots_def ring_span_next(1) ring_span_tail)

lemma ring_slots_pop:
  assumes "head < n" "tail < n" "head \<noteq> tail"
  shows "ring_slots n head tail = head # ring_slots n (Suc head mod n) tail"
proof -
  let ?m = "ring_span n (Suc head mod n) tail"
  have "ring_slots n head tail = map (\<lambda>k. (head + k) mod n) (0 # map Suc [0..<?m])"
    using ring_span_next(2) [OF assms] by (simp add: ring_slots_def upt_conv_Cons map_Suc_upt del: upt_Suc)
  also have "\<dots> = head # map (\<lambda>k. (Suc head mod n + k) mod n) [0..<?m]"
    using assms(1) by (simp add: mod_add_left_eq comp_def)
  finally show ?thesis by (simp add: ring_slots_def)
qed

lemma ring_slots_inj:
  assumes "head < n" "tail < n"
  shows "distinct (ring_slots n head tail)" "tail \<notin> set (ring_slots n head tail)" "set (ring_slots n head tail) \<subseteq> {..<n}"
proof -
  have eq: "j = k" if "j \<le> k" "k < n" "(head + j) mod n = (head + k) mod n" for j k
  proof -
    have "(head + k) mod n = (head + j) mod n" using that(3) by simp
    then have "n dvd (head + k) - (head + j)" using that(1) by (subst (asm) mod_eq_dvd_iff_nat) auto
    then have "n dvd k - j" by simp
    then show ?thesis using that(1,2) by (auto dest!: dvd_imp_le)
  qed
  have inj: "inj_on (\<lambda>k. (head + k) mod n) {..<n}"
  proof (rule inj_onI)
    fix j k assume "j \<in> {..<n}" "k \<in> {..<n}" "(head + j) mod n = (head + k) mod n"
    then show "j = k" using eq [of j k] eq [of k j] by (cases "j \<le> k") auto
  qed
  note l = ring_span_next(3) [OF assms]
  have sub: "{0..<ring_span n head tail} \<subseteq> {..<n}" using l by auto
  show "distinct (ring_slots n head tail)"
    unfolding ring_slots_def distinct_map using inj_on_subset [OF inj sub] by simp
  show "tail \<notin> set (ring_slots n head tail)"
  proof
    assume "tail \<in> set (ring_slots n head tail)"
    then obtain k where k: "k < ring_span n head tail" "(head + k) mod n = tail" by (auto simp: ring_slots_def)
    then have "(head + k) mod n = (head + ring_span n head tail) mod n" using ring_span_tail [OF assms] by simp
    then show False using eq [of k "ring_span n head tail"] k(1) l by simp
  qed
  show "set (ring_slots n head tail) \<subseteq> {..<n}" using assms by (auto simp: ring_slots_def)
qed

lemma ring_abs_write:
  assumes "head < length buf" "tail < length buf"
  shows "map ((!) (buf[tail := v])) (ring_slots (length buf) head tail) = map ((!) buf) (ring_slots (length buf) head tail)"
  using ring_slots_inj(2) [OF assms] by (auto intro!: map_cong nth_list_update_neq)


lemma ring_abs_length: "ring_wf capacity r \<Longrightarrow> length (ring_abs r) \<le> capacity"
  using ring_span_next(3) [of "sr_head r" "length (sr_buffer r)" "sr_tail r"]
  by (simp add: ring_wf_def ring_abs_def ring_slots_def kSlots_def)

lemma ring_full_iff: "ring_wf capacity r \<Longrightarrow> ring_next r (sr_tail r) = sr_head r \<longleftrightarrow> length (ring_abs r) = capacity"
  using ring_span_next(5) [of "sr_head r" "length (sr_buffer r)" "sr_tail r"]
  by (simp add: ring_wf_def ring_abs_def ring_slots_def kSlots_def ring_next_def)

lemma ring_publish:
  assumes "ring_wf capacity r" "ring_next r (sr_tail r) \<noteq> sr_head r"
  shows "ring_wf capacity (r\<lparr>sr_tail := ring_next r (sr_tail r)\<rparr>)"
    "ring_abs (r\<lparr>sr_tail := ring_next r (sr_tail r)\<rparr>) = ring_abs r @ [sr_buffer r ! sr_tail r]"
  using assms ring_slots_push [of "sr_head r" "length (sr_buffer r)" "sr_tail r"]
  by (simp_all add: ring_wf_def ring_abs_def ring_next_def kSlots_def)

lemma ring_write:
  assumes "ring_wf capacity r"
  shows "ring_wf capacity (r\<lparr>sr_buffer := (sr_buffer r)[sr_tail r := v]\<rparr>)"
    "ring_abs (r\<lparr>sr_buffer := (sr_buffer r)[sr_tail r := v]\<rparr>) = ring_abs r"
    "(sr_buffer r)[sr_tail r := v] ! sr_tail r = v"
  using assms ring_abs_write [of "sr_head r" "sr_buffer r" "sr_tail r" v]
  by (simp_all add: ring_wf_def ring_abs_def)

lemma ring_consume:
  assumes "ring_wf capacity r" "sr_head r \<noteq> sr_tail r"
  shows "ring_wf capacity (r\<lparr>sr_head := ring_next r (sr_head r)\<rparr>)"
    "ring_abs r = sr_buffer r ! sr_head r # ring_abs (r\<lparr>sr_head := ring_next r (sr_head r)\<rparr>)"
  using assms ring_slots_pop [of "sr_head r" "length (sr_buffer r)" "sr_tail r"]
  by (simp_all add: ring_wf_def ring_abs_def ring_next_def kSlots_def)

lemma ring_abs_Nil: "ring_wf capacity r \<Longrightarrow> ring_abs r = [] \<longleftrightarrow> sr_head r = sr_tail r"
  using ring_span_next(4) [of "sr_head r" "length (sr_buffer r)" "sr_tail r"]
  by (simp add: ring_wf_def ring_abs_def ring_slots_def)

lemma ring_new_wf: "1 \<le> capacity \<Longrightarrow> ring_wf capacity (ring_new capacity d)" "ring_abs (ring_new capacity d) = []"
  by (simp_all add: ring_wf_def ring_new_def kSlots_def ring_abs_def ring_slots_def ring_span_def)

section \<open>The contract of a bounded queue\<close>

datatype 'a queue_op = Push 'a | Pop

text \<open>A sequence of operations: the queue, the values accepted, the values returned.\<close>

fun queue_run :: "('a \<Rightarrow> 'q \<Rightarrow> 'q \<times> bool) \<Rightarrow> ('q \<Rightarrow> 'q \<times> 'a option) \<Rightarrow> 'a queue_op list \<Rightarrow> 'q \<Rightarrow> 'q \<times> 'a list \<times> 'a list" where
  "queue_run push pop [] q = (q, [], [])"
| "queue_run push pop (Push v # ops) q =
     (let (q, ok) = push v q; (q, ins, outs) = queue_run push pop ops q in (q, (if ok then v # ins else ins), outs))"
| "queue_run push pop (Pop # ops) q =
     (let (q, x) = pop q; (q, ins, outs) = queue_run push pop ops q
      in (q, ins, (case x of None \<Rightarrow> outs | Some v \<Rightarrow> v # outs)))"

locale bounded_queue =
  fixes push :: "'a \<Rightarrow> 'q \<Rightarrow> 'q \<times> bool"
    and pop :: "'q \<Rightarrow> 'q \<times> 'a option"
    and items :: "'q \<Rightarrow> 'a list"
    and wf_queue :: "'q \<Rightarrow> bool"
    and bound :: nat
  assumes push_spec: "wf_queue q \<Longrightarrow> push v q = (q', ok) \<Longrightarrow>
      wf_queue q' \<and> ok = (length (items q) < bound) \<and> items q' = (if ok then items q @ [v] else items q)"
    and pop_spec: "wf_queue q \<Longrightarrow> pop q = (q', x) \<Longrightarrow>
      wf_queue q' \<and> (case items q of [] \<Rightarrow> x = None \<and> items q' = [] | v # vs \<Rightarrow> x = Some v \<and> items q' = vs)"
    and bounded: "wf_queue q \<Longrightarrow> length (items q) \<le> bound"
begin

lemma run_fifo:
  "wf_queue q \<Longrightarrow> queue_run push pop ops q = (q', ins, outs) \<Longrightarrow> wf_queue q' \<and> items q @ ins = outs @ items q'"
proof (induction ops arbitrary: q ins outs)
  case (Cons op ops)
  show ?case
  proof (cases op)
    case (Push v)
    obtain q1 ok where p: "push v q = (q1, ok)" by (cases "push v q")
    obtain ins' where run: "queue_run push pop ops q1 = (q', ins', outs)" "ins = (if ok then v # ins' else ins')"
      using Cons.prems(2) p Push by (auto split: prod.splits)
    show ?thesis using push_spec [OF Cons.prems(1) p] Cons.IH [OF _ run(1)] run(2) by (auto split: if_splits)
  next
    case Pop
    obtain q1 x where p: "pop q = (q1, x)" by (cases "pop q")
    obtain outs' where run: "queue_run push pop ops q1 = (q', ins, outs')" "outs = (case x of None \<Rightarrow> outs' | Some v \<Rightarrow> v # outs')"
      using Cons.prems(2) p Pop by (auto split: prod.splits)
    show ?thesis
      using pop_spec [OF Cons.prems(1) p] Cons.IH [OF _ run(1)] run(2) by (auto split: list.splits option.splits)
  qed
qed simp

end

interpretation ring: bounded_queue try_push try_pop ring_abs "ring_wf capacity" capacity for capacity
proof unfold_locales
  fix q q' :: "'a SpscRing" and v ok x
  assume wf: "ring_wf capacity q"
  show "length (ring_abs q) \<le> capacity" by (rule ring_abs_length [OF wf])
  show "ring_wf capacity q' \<and> ok = (length (ring_abs q) < capacity) \<and> ring_abs q' = (if ok then ring_abs q @ [v] else ring_abs q)"
    if "try_push v q = (q', ok)"
  proof (cases "ring_next q (sr_tail q) = sr_head q")
    case True
    then show ?thesis using that wf ring_full_iff [OF wf] by (simp add: try_push_def Let_def)
  next
    case False
    let ?w = "q\<lparr>sr_buffer := (sr_buffer q)[sr_tail q := v]\<rparr>"
    have q': "q' = ?w\<lparr>sr_tail := ring_next ?w (sr_tail ?w)\<rparr>" "ok"
      using that False by (auto simp: try_push_def Let_def ring_next_def)
    have "ring_next ?w (sr_tail ?w) \<noteq> sr_head ?w" using False by (simp add: ring_next_def)
    note pub = ring_publish [OF ring_write(1) [OF wf] this]
    have "length (ring_abs q) < capacity" using False ring_full_iff [OF wf] ring_abs_length [OF wf] by simp
    then show ?thesis using pub ring_write(2,3) [OF wf, of v] q' by simp
  qed
  show "ring_wf capacity q' \<and>
      (case ring_abs q of [] \<Rightarrow> x = None \<and> ring_abs q' = [] | v # vs \<Rightarrow> x = Some v \<and> ring_abs q' = vs)"
    if "try_pop q = (q', x)"
    using that wf ring_consume [OF wf] ring_abs_Nil [OF wf] by (auto simp: try_pop_def Let_def split: if_splits list.split)
qed


section \<open>Two threads\<close>

text \<open>
  The producer inside \<^verbatim>\<open>emplace\<close> and the consumer inside \<^verbatim>\<open>try_pop\<close>, one access to shared memory per
  step: the load of the other side's index, the access to the slot, the store of the own
  index. A loaded index may be out of date when it is used. The lists record the completed
  operations.
\<close>

datatype 'a producer_pc = PIdle | PLoaded 'a nat | PWritten 'a
datatype 'a consumer_pc = CIdle | CLoaded nat | CRead 'a

record 'a ring_threads =
  rt_ring :: "'a SpscRing"
  rt_prod :: "'a producer_pc"
  rt_cons :: "'a consumer_pc"
  rt_pushed :: "'a list"
  rt_popped :: "'a list"

definition rt_init :: "nat \<Rightarrow> 'a \<Rightarrow> 'a ring_threads" where
  "rt_init capacity d = \<lparr>rt_ring = ring_new capacity d, rt_prod = PIdle, rt_cons = CIdle, rt_pushed = [], rt_popped = []\<rparr>"

inductive ring_step :: "'a ring_threads \<Rightarrow> 'a ring_threads \<Rightarrow> bool" where
  p_load: "rt_prod s = PIdle \<Longrightarrow> ring_step s (s\<lparr>rt_prod := PLoaded v (sr_head (rt_ring s))\<rparr>)"
| p_full: "rt_prod s = PLoaded v h \<Longrightarrow> ring_next (rt_ring s) (sr_tail (rt_ring s)) = h \<Longrightarrow>
    ring_step s (s\<lparr>rt_prod := PIdle\<rparr>)"
| p_write: "rt_prod s = PLoaded v h \<Longrightarrow> ring_next (rt_ring s) (sr_tail (rt_ring s)) \<noteq> h \<Longrightarrow>
    ring_step s (s\<lparr>rt_prod := PWritten v,
      rt_ring := (rt_ring s)\<lparr>sr_buffer := (sr_buffer (rt_ring s))[sr_tail (rt_ring s) := v]\<rparr>\<rparr>)"
| p_publish: "rt_prod s = PWritten v \<Longrightarrow>
    ring_step s (s\<lparr>rt_prod := PIdle, rt_pushed := rt_pushed s @ [v],
      rt_ring := (rt_ring s)\<lparr>sr_tail := ring_next (rt_ring s) (sr_tail (rt_ring s))\<rparr>\<rparr>)"
| c_load: "rt_cons s = CIdle \<Longrightarrow> ring_step s (s\<lparr>rt_cons := CLoaded (sr_tail (rt_ring s))\<rparr>)"
| c_empty: "rt_cons s = CLoaded t \<Longrightarrow> sr_head (rt_ring s) = t \<Longrightarrow> ring_step s (s\<lparr>rt_cons := CIdle\<rparr>)"
| c_read: "rt_cons s = CLoaded t \<Longrightarrow> sr_head (rt_ring s) \<noteq> t \<Longrightarrow>
    ring_step s (s\<lparr>rt_cons := CRead (sr_buffer (rt_ring s) ! sr_head (rt_ring s))\<rparr>)"
| c_publish: "rt_cons s = CRead v \<Longrightarrow>
    ring_step s (s\<lparr>rt_cons := CIdle, rt_popped := rt_popped s @ [v],
      rt_ring := (rt_ring s)\<lparr>sr_head := ring_next (rt_ring s) (sr_head (rt_ring s))\<rparr>\<rparr>)"

inductive_cases ring_stepE: "ring_step s s'"

text \<open>Both threads about to touch the same slot, one of them writing.\<close>

definition ring_race :: "'a ring_threads \<Rightarrow> bool" where
  "ring_race s \<longleftrightarrow>
     (case (rt_prod s, rt_cons s) of
        (PLoaded v h, CLoaded t) \<Rightarrow>
          ring_next (rt_ring s) (sr_tail (rt_ring s)) \<noteq> h \<and> sr_head (rt_ring s) \<noteq> t \<and>
          sr_tail (rt_ring s) = sr_head (rt_ring s)
      | _ \<Rightarrow> False)"

text \<open>
  A stale \<open>head\<close> can only make the ring look fuller than it is, a stale \<open>tail\<close> only emptier. A written
  slot is not yet visible; a read one is still occupied.
\<close>

definition ring_inv :: "nat \<Rightarrow> 'a ring_threads \<Rightarrow> bool" where
  "ring_inv capacity s \<longleftrightarrow>
     (let r = rt_ring s; n = length (sr_buffer r)
      in ring_wf capacity r \<and> rt_pushed s = rt_popped s @ ring_abs r \<and>
         (case rt_prod s of
            PIdle \<Rightarrow> True
          | PLoaded v h \<Rightarrow> h < n \<and> ring_span n (sr_head r) (sr_tail r) \<le> ring_span n h (sr_tail r)
          | PWritten v \<Rightarrow> sr_buffer r ! sr_tail r = v \<and> ring_next r (sr_tail r) \<noteq> sr_head r) \<and>
         (case rt_cons s of
            CIdle \<Rightarrow> True
          | CLoaded t \<Rightarrow> t < n \<and> ring_span n (sr_head r) t \<le> ring_span n (sr_head r) (sr_tail r)
          | CRead v \<Rightarrow> sr_head r \<noteq> sr_tail r \<and> sr_buffer r ! sr_head r = v))"

lemma ring_next_buffer [simp]:
  "ring_next (r\<lparr>sr_buffer := xs\<rparr>) i = Suc i mod length xs" "ring_next (r\<lparr>sr_head := j\<rparr>) i = ring_next r i"
  "ring_next (r\<lparr>sr_tail := j\<rparr>) i = ring_next r i"
  by (simp_all add: ring_next_def)

lemma stale_head:
  assumes "ring_wf capacity r" "h < length (sr_buffer r)" "ring_next r (sr_tail r) \<noteq> h"
    "ring_span (length (sr_buffer r)) (sr_head r) (sr_tail r) \<le> ring_span (length (sr_buffer r)) h (sr_tail r)"
  shows "ring_next r (sr_tail r) \<noteq> sr_head r"
  using assms ring_span_next(3,5) [of h "length (sr_buffer r)" "sr_tail r"]
    ring_span_next(3,5) [of "sr_head r" "length (sr_buffer r)" "sr_tail r"]
  by (auto simp: ring_wf_def ring_next_def)

lemma stale_tail:
  assumes "ring_wf capacity r" "t < length (sr_buffer r)" "sr_head r \<noteq> t"
    "ring_span (length (sr_buffer r)) (sr_head r) t \<le> ring_span (length (sr_buffer r)) (sr_head r) (sr_tail r)"
  shows "sr_head r \<noteq> sr_tail r"
  using assms ring_span_next(4) [of "sr_head r" "length (sr_buffer r)" t]
    ring_span_next(4) [of "sr_head r" "length (sr_buffer r)" "sr_tail r"]
  by (auto simp: ring_wf_def)

lemma ring_inv_init: "1 \<le> capacity \<Longrightarrow> ring_inv capacity (rt_init capacity d)"
  by (simp add: ring_inv_def rt_init_def ring_new_wf)

lemma ring_inv_wf: "ring_inv capacity s \<Longrightarrow> ring_wf capacity (rt_ring s)"
  by (simp add: ring_inv_def Let_def)

lemma ring_inv_step:
  assumes "ring_step s s'" "ring_inv capacity s"
  shows "ring_inv capacity s'"
  using assms
proof (induction rule: ring_step.induct)
  case (p_load s v)
  then show ?case by (auto simp: ring_inv_def Let_def ring_wf_def)
next
  case (p_full s v h)
  then show ?case by (auto simp: ring_inv_def Let_def)
next
  case (p_write s v h)
  note wf = ring_inv_wf [OF p_write(3)]
  have "ring_next (rt_ring s) (sr_tail (rt_ring s)) \<noteq> sr_head (rt_ring s)"
    by (rule stale_head [OF wf, of h]) (use p_write in \<open>auto simp: ring_inv_def Let_def\<close>)
  then show ?case
    using p_write ring_write [OF wf, of v]
    by (auto simp: ring_inv_def Let_def ring_next_def split: consumer_pc.splits)
next
  case (p_publish s v)
  let ?r = "rt_ring s"
  note wf = ring_inv_wf [OF p_publish(2)]
  have nf: "ring_next ?r (sr_tail ?r) \<noteq> sr_head ?r" "sr_buffer ?r ! sr_tail ?r = v"
    using p_publish by (auto simp: ring_inv_def Let_def)
  have "ring_span (length (sr_buffer ?r)) (sr_head ?r) (ring_next ?r (sr_tail ?r)) =
      Suc (ring_span (length (sr_buffer ?r)) (sr_head ?r) (sr_tail ?r))"
    using ring_span_next(1) [of "sr_head ?r" "length (sr_buffer ?r)" "sr_tail ?r"] nf wf
    by (simp add: ring_next_def ring_wf_def)
  then show ?case
    using p_publish ring_publish [OF wf nf(1)] nf
    by (auto simp: ring_inv_def Let_def split: consumer_pc.splits)
next
  case (c_load s)
  then show ?case by (auto simp: ring_inv_def Let_def ring_wf_def)
next
  case (c_empty s t)
  then show ?case by (auto simp: ring_inv_def Let_def)
next
  case (c_read s t)
  note wf = ring_inv_wf [OF c_read(3)]
  have "sr_head (rt_ring s) \<noteq> sr_tail (rt_ring s)"
    by (rule stale_tail [OF wf, of t]) (use c_read in \<open>auto simp: ring_inv_def Let_def\<close>)
  then show ?case using c_read by (auto simp: ring_inv_def Let_def)
next
  case (c_publish s v)
  let ?r = "rt_ring s"
  note wf = ring_inv_wf [OF c_publish(2)]
  have ne: "sr_head ?r \<noteq> sr_tail ?r" "sr_buffer ?r ! sr_head ?r = v"
    using c_publish by (auto simp: ring_inv_def Let_def)
  have "ring_span (length (sr_buffer ?r)) (sr_head ?r) (sr_tail ?r) =
      Suc (ring_span (length (sr_buffer ?r)) (ring_next ?r (sr_head ?r)) (sr_tail ?r))"
    using ring_span_next(2) [of "sr_head ?r" "length (sr_buffer ?r)" "sr_tail ?r"] ne wf
    by (simp add: ring_next_def ring_wf_def)
  moreover have "ring_next ?r (sr_tail ?r) \<noteq> ring_next ?r (sr_head ?r)"
    using ne(1) wf by (auto simp: ring_next_def ring_wf_def next_cases split: if_splits)
  ultimately show ?case
    using c_publish ring_consume [OF wf ne(1)] ne
    by (auto simp: ring_inv_def Let_def split: producer_pc.splits)
qed

lemma ring_inv_reachable:
  assumes "ring_step\<^sup>*\<^sup>* (rt_init capacity d) s" "1 \<le> capacity"
  shows "ring_inv capacity s"
  using assms by (induction rule: rtranclp_induct) (auto intro: ring_inv_init ring_inv_step)

lemma ring_inv_no_race: "ring_inv capacity s \<Longrightarrow> \<not> ring_race s"
  using stale_tail [of capacity "rt_ring s"]
  by (auto simp: ring_inv_def ring_race_def Let_def split: producer_pc.splits consumer_pc.splits)

end
