(* ===== verification/Pipeline.thy ===== *)
theory Pipeline
  imports Spsc_Ring Engine_Spec
begin

text \<open>
  \<^verbatim>\<open>include/qsl/concurrency/pipeline.hpp\<close>: the input, engine and output threads between two rings. A
  state holds what the threads share and where each of them is; a step is one ring operation,
  one load or store of a flag, or work private to a thread. Yielding has no effect on the
  state.
\<close>

section \<open>Data\<close>

record ProcessedCommand =
  pc_command :: Command
  pc_accepted :: bool
  pc_reason :: RejectReason
  pc_events :: "EngineEvent list"

record PipelineResult =
  pr_snapshot :: EngineSnapshot
  pr_commands_processed :: "64 word"
  pr_commands_accepted :: "64 word"
  pr_commands_rejected :: "64 word"
  pr_events_emitted :: "64 word"
  pr_last_seq :: SeqNo
  pr_inbound_backpressure_spins :: "64 word"
  pr_outbound_backpressure_spins :: "64 word"

definition result_init :: PipelineResult where
  "result_init = \<lparr>pr_snapshot = \<lparr>es_last_seq = 0, es_symbols = []\<rparr>, pr_commands_processed = 0,
     pr_commands_accepted = 0, pr_commands_rejected = 0, pr_events_emitted = 0, pr_last_seq = 0,
     pr_inbound_backpressure_spins = 0, pr_outbound_backpressure_spins = 0\<rparr>"

text \<open>\<^verbatim>\<open>detail::maybe_yield\<close>: the new counter and how often the thread yields.\<close>

definition maybe_yield :: "64 word \<Rightarrow> 32 word \<Rightarrow> 32 word \<Rightarrow> 64 word \<times> nat" where
  "maybe_yield counter every yields =
     (if every = 0 then (counter, 0)
      else
        let counter = counter + 1
        in if counter mod ucast every \<noteq> 0 then (counter, 0) else (counter, unat yields))"

definition apply_to_engine :: "RiskConfig \<Rightarrow> Command \<Rightarrow> MatchingEngine \<Rightarrow> PipelineResult
    \<Rightarrow> MatchingEngine \<times> PipelineResult \<times> ProcessedCommand" where
  "apply_to_engine config command e res =
     (let (e, gr) = apply_command config command e;
          processed = \<lparr>pc_command = command, pc_accepted = gr_accepted gr, pc_reason = gr_reason gr, pc_events = gr_events gr\<rparr>;
          res = res\<lparr>pr_commands_processed := pr_commands_processed res + 1\<rparr>;
          res = (if pc_accepted processed then res\<lparr>pr_commands_accepted := pr_commands_accepted res + 1\<rparr>
                 else res\<lparr>pr_commands_rejected := pr_commands_rejected res + 1\<rparr>);
          res = res\<lparr>pr_events_emitted := pr_events_emitted res + of_nat (length (pc_events processed))\<rparr>
      in (e, res, processed))"

section \<open>The threads\<close>

text \<open>
  The engine thread is in its main loop, has just found the inbound ring empty, is pushing a
  record (and then returns to the loop or to the final drain), is in the final drain, or has
  taken its snapshot, or is done. The output thread has the same shape without the pushing.
\<close>

datatype engine_pc = E_Loop | E_Check | E_Push ProcessedCommand bool | E_Drain | E_Finish | E_Done
datatype output_pc = O_Loop | O_Check | O_Drain | O_Done

record RunContext =
  rc_todo :: "Command list"
  rc_inbound :: "Command SpscRing"
  rc_input_done :: bool
  rc_engine_pc :: engine_pc
  rc_engine :: MatchingEngine
  rc_result :: PipelineResult
  rc_outbound :: "ProcessedCommand SpscRing"
  rc_engine_done :: bool
  rc_output_pc :: output_pc
  rc_sink :: "ProcessedCommand list"
  rc_inbound_spins :: "64 word"
  rc_outbound_spins :: "64 word"

definition rc_new :: "nat \<Rightarrow> nat \<Rightarrow> 64 word \<Rightarrow> 64 word \<Rightarrow> Command list \<Rightarrow> RunContext" where
  "rc_new in_cap out_cap inbound_base outbound_base commands =
     \<lparr>rc_todo = commands, rc_inbound = ring_new in_cap (RegisterSymbol []), rc_input_done = False,
      rc_engine_pc = E_Loop, rc_engine = me_new Baseline, rc_result = result_init,
      rc_outbound = ring_new out_cap \<lparr>pc_command = RegisterSymbol [], pc_accepted = False, pc_reason = NoReason, pc_events = []\<rparr>,
      rc_engine_done = False, rc_output_pc = O_Loop, rc_sink = [], rc_inbound_spins = inbound_base,
      rc_outbound_spins = outbound_base\<rparr>"

text \<open>\<^verbatim>\<open>run_input_stage\<close> with \<^verbatim>\<open>push_inbound_lossless\<close>.\<close>

definition input_step :: "RunContext \<Rightarrow> RunContext option" where
  "input_step s =
     (case rc_todo s of
        [] \<Rightarrow> if rc_input_done s then None else Some (s\<lparr>rc_input_done := True\<rparr>)
      | command # rest \<Rightarrow>
          let (q, ok) = try_push command (rc_inbound s)
          in if ok then Some (s\<lparr>rc_inbound := q, rc_todo := rest\<rparr>)
             else Some (s\<lparr>rc_inbound_spins := rc_inbound_spins s + 1\<rparr>))"

text \<open>\<^verbatim>\<open>process_engine_command\<close> up to the push of the record; \<open>drain\<close> tells where the thread goes on.\<close>

definition engine_take :: "RiskConfig \<Rightarrow> bool \<Rightarrow> Command \<Rightarrow> RunContext \<Rightarrow> RunContext" where
  "engine_take config drain command s =
     (let (e, res, processed) = apply_to_engine config command (rc_engine s) (rc_result s)
      in s\<lparr>rc_engine := e, rc_result := res, rc_engine_pc := E_Push processed drain\<rparr>)"

text \<open>\<^verbatim>\<open>run_engine_stage\<close>, with \<^verbatim>\<open>push_outbound_lossless\<close> and \<^verbatim>\<open>drain_inbound_after_done\<close>.\<close>

definition engine_step_thread :: "RiskConfig \<Rightarrow> RunContext \<Rightarrow> RunContext option" where
  "engine_step_thread config s =
     (case rc_engine_pc s of
        E_Loop \<Rightarrow>
          let (q, x) = try_pop (rc_inbound s)
          in (case x of
                Some command \<Rightarrow> Some (engine_take config False command (s\<lparr>rc_inbound := q\<rparr>))
              | None \<Rightarrow> Some (s\<lparr>rc_engine_pc := E_Check\<rparr>))
      | E_Check \<Rightarrow> Some (s\<lparr>rc_engine_pc := (if rc_input_done s then E_Drain else E_Loop)\<rparr>)
      | E_Push processed drain \<Rightarrow>
          let (q, ok) = try_push processed (rc_outbound s)
          in if ok then Some (s\<lparr>rc_outbound := q, rc_engine_pc := (if drain then E_Drain else E_Loop)\<rparr>)
             else Some (s\<lparr>rc_outbound_spins := rc_outbound_spins s + 1\<rparr>)
      | E_Drain \<Rightarrow>
          let (q, x) = try_pop (rc_inbound s)
          in (case x of
                Some command \<Rightarrow> Some (engine_take config True command (s\<lparr>rc_inbound := q\<rparr>))
              | None \<Rightarrow>
                  Some (s\<lparr>rc_engine_pc := E_Finish,
                          rc_result := (rc_result s)\<lparr>pr_snapshot := me_snapshot (rc_engine s), pr_last_seq := last_seq (rc_engine s)\<rparr>\<rparr>))
      | E_Finish \<Rightarrow> Some (s\<lparr>rc_engine_done := True, rc_engine_pc := E_Done\<rparr>)
      | E_Done \<Rightarrow> None)"

text \<open>\<^verbatim>\<open>run_output_stage\<close> with \<^verbatim>\<open>publish_processed\<close> and \<^verbatim>\<open>drain_outbound_after_done\<close>.\<close>

definition output_step :: "RunContext \<Rightarrow> RunContext option" where
  "output_step s =
     (case rc_output_pc s of
        O_Loop \<Rightarrow>
          let (q, x) = try_pop (rc_outbound s)
          in (case x of
                Some processed \<Rightarrow> Some (s\<lparr>rc_outbound := q, rc_sink := rc_sink s @ [processed]\<rparr>)
              | None \<Rightarrow> Some (s\<lparr>rc_output_pc := O_Check\<rparr>))
      | O_Check \<Rightarrow> Some (s\<lparr>rc_output_pc := (if rc_engine_done s then O_Drain else O_Loop)\<rparr>)
      | O_Drain \<Rightarrow>
          let (q, x) = try_pop (rc_outbound s)
          in (case x of
                Some processed \<Rightarrow> Some (s\<lparr>rc_outbound := q, rc_sink := rc_sink s @ [processed]\<rparr>)
              | None \<Rightarrow> Some (s\<lparr>rc_output_pc := O_Done\<rparr>))
      | O_Done \<Rightarrow> None)"

inductive pipeline_step :: "RiskConfig \<Rightarrow> RunContext \<Rightarrow> RunContext \<Rightarrow> bool" for config where
  input_thread: "input_step s = Some s' \<Longrightarrow> pipeline_step config s s'"
| engine_thread: "engine_step_thread config s = Some s' \<Longrightarrow> pipeline_step config s s'"
| output_thread: "output_step s = Some s' \<Longrightarrow> pipeline_step config s s'"

text \<open>All three threads have returned and can be joined.\<close>

definition pipeline_done :: "RunContext \<Rightarrow> bool" where
  "pipeline_done s \<longleftrightarrow> rc_todo s = [] \<and> rc_input_done s \<and> rc_engine_pc s = E_Done \<and> rc_output_pc s = O_Done"

definition finish :: "64 word \<Rightarrow> 64 word \<Rightarrow> RunContext \<Rightarrow> PipelineResult" where
  "finish inbound_base outbound_base s =
     (rc_result s)\<lparr>pr_inbound_backpressure_spins := rc_inbound_spins s - inbound_base,
                    pr_outbound_backpressure_spins := rc_outbound_spins s - outbound_base\<rparr>"

section \<open>The single-threaded reference\<close>

fun processed_run :: "RiskConfig \<Rightarrow> Command list \<Rightarrow> MatchingEngine \<Rightarrow> MatchingEngine \<times> ProcessedCommand list" where
  "processed_run config [] e = (e, [])"
| "processed_run config (c # cs) e =
     (let (e, gr) = apply_command config c e; (e, ps) = processed_run config cs e
      in (e, \<lparr>pc_command = c, pc_accepted = gr_accepted gr, pc_reason = gr_reason gr, pc_events = gr_events gr\<rparr> # ps))"

lemma processed_run_append:
  "processed_run config (cs @ ds) e =
     (let (e, ps) = processed_run config cs e; (e, qs) = processed_run config ds e in (e, ps @ qs))"
  by (induction cs arbitrary: e) (auto simp: Let_def case_prod_unfold)

lemma processed_run_commands: "fst (processed_run config cs e) = fst (run_commands config cs e)"
  by (induction cs arbitrary: e) (auto simp: Let_def case_prod_unfold)

definition counts :: "ProcessedCommand list \<Rightarrow> PipelineResult \<Rightarrow> bool" where
  "counts ps res \<longleftrightarrow>
     pr_commands_processed res = of_nat (length ps) \<and>
     pr_commands_accepted res = of_nat (length (filter pc_accepted ps)) \<and>
     pr_commands_rejected res = of_nat (length (filter (\<lambda>p. \<not> pc_accepted p) ps)) \<and>
     pr_events_emitted res = of_nat (length (concat (map pc_events ps)))"

lemma counts_apply:
  assumes "counts ps res" "apply_to_engine config c e res = (e', res', p)"
  shows "counts (ps @ [p]) res' \<and> processed_run config [c] e = (e', [p]) \<and>
    pr_snapshot res' = pr_snapshot res \<and> pr_last_seq res' = pr_last_seq res"
  using assms by (auto simp: counts_def apply_to_engine_def Let_def split: prod.splits if_splits)

section \<open>The invariant\<close>

definition pending :: "engine_pc \<Rightarrow> ProcessedCommand list" where
  "pending p = (case p of E_Push processed _ \<Rightarrow> [processed] | _ \<Rightarrow> [])"

definition engine_draining :: "engine_pc \<Rightarrow> bool" where
  "engine_draining p \<longleftrightarrow> (case p of E_Drain \<Rightarrow> True | E_Push _ drain \<Rightarrow> drain | E_Finish \<Rightarrow> True | E_Done \<Rightarrow> True | _ \<Rightarrow> False)"

text \<open>
  \<open>rest\<close> is what the engine thread has still to take, \<open>outs\<close> what it has produced: together with the
  engine and the counters, a run of the reference on the commands taken so far.
\<close>

definition streams_ok :: "RiskConfig \<Rightarrow> Command list \<Rightarrow> Command list \<Rightarrow> MatchingEngine \<Rightarrow> PipelineResult
    \<Rightarrow> ProcessedCommand list \<Rightarrow> bool" where
  "streams_ok config commands rest e res outs \<longleftrightarrow>
     (\<exists>cs. commands = cs @ rest \<and> processed_run config cs (me_new Baseline) = (e, outs) \<and> counts outs res)"

lemma streams_take:
  assumes "streams_ok config commands (c # rest) e res outs" "apply_to_engine config c e res = (e', res', p)"
  shows "streams_ok config commands rest e' res' (outs @ [p])"
proof -
  obtain cs where cs: "commands = cs @ c # rest" "processed_run config cs (me_new Baseline) = (e, outs)" "counts outs res"
    using assms(1) by (auto simp: streams_ok_def)
  have "commands = (cs @ [c]) @ rest" using cs(1) by simp
  moreover have "processed_run config (cs @ [c]) (me_new Baseline) = (e', outs @ [p])"
    using cs(2) counts_apply [OF cs(3) assms(2)] by (simp add: processed_run_append)
  ultimately show ?thesis using counts_apply [OF cs(3) assms(2)] unfolding streams_ok_def by blast
qed

lemma streams_snapshot [simp]:
  "streams_ok config commands rest e (res\<lparr>pr_snapshot := a, pr_last_seq := b\<rparr>) outs = streams_ok config commands rest e res outs"
  by (simp add: streams_ok_def counts_def)

definition pipeline_inv :: "RiskConfig \<Rightarrow> nat \<Rightarrow> nat \<Rightarrow> Command list \<Rightarrow> RunContext \<Rightarrow> bool" where
  "pipeline_inv config in_cap out_cap commands s \<longleftrightarrow>
     ring_wf in_cap (rc_inbound s) \<and> ring_wf out_cap (rc_outbound s) \<and>
     streams_ok config commands (ring_abs (rc_inbound s) @ rc_todo s) (rc_engine s) (rc_result s)
       (rc_sink s @ ring_abs (rc_outbound s) @ pending (rc_engine_pc s)) \<and>
     (rc_input_done s \<longrightarrow> rc_todo s = []) \<and>
     (engine_draining (rc_engine_pc s) \<longrightarrow> rc_input_done s) \<and>
     (rc_engine_pc s \<in> {E_Finish, E_Done} \<longrightarrow>
        ring_abs (rc_inbound s) = [] \<and> pr_snapshot (rc_result s) = me_snapshot (rc_engine s) \<and>
        pr_last_seq (rc_result s) = me_seq (rc_engine s)) \<and>
     (rc_engine_done s \<longleftrightarrow> rc_engine_pc s = E_Done) \<and>
     (rc_output_pc s \<in> {O_Drain, O_Done} \<longrightarrow> rc_engine_pc s = E_Done) \<and>
     (rc_output_pc s = O_Done \<longrightarrow> ring_abs (rc_outbound s) = [])"


lemma push_cases:
  assumes "ring_wf capacity q" "try_push v q = (q', ok)"
  shows "ring_wf capacity q'" "ring_abs q' = (if ok then ring_abs q @ [v] else ring_abs q)"
  using ring.push_spec [OF assms] by simp_all

lemma pop_cases:
  assumes "ring_wf capacity q" "try_pop q = (q', x)"
  shows "ring_wf capacity q'" "ring_abs q = (case x of None \<Rightarrow> [] | Some v \<Rightarrow> v # ring_abs q')" "x = None \<Longrightarrow> ring_abs q' = []"
  using ring.pop_spec [OF assms] by (auto split: list.splits)

lemma pipeline_inv_init:
  "1 \<le> in_cap \<Longrightarrow> 1 \<le> out_cap \<Longrightarrow> pipeline_inv config in_cap out_cap commands (rc_new in_cap out_cap b1 b2 commands)"
  by (simp add: pipeline_inv_def rc_new_def ring_new_wf streams_ok_def counts_def result_init_def pending_def engine_draining_def)

lemma pipeline_inv_input:
  assumes "pipeline_inv config in_cap out_cap commands s" "input_step s = Some s'"
  shows "pipeline_inv config in_cap out_cap commands s'"
proof (cases "rc_todo s")
  case Nil
  then have s': "s' = s\<lparr>rc_input_done := True\<rparr>" using assms(2) by (simp add: input_step_def split: if_splits)
  show ?thesis using assms(1) Nil unfolding s' by (simp add: pipeline_inv_def)
next
  case (Cons command rest)
  obtain q ok where p: "try_push command (rc_inbound s) = (q, ok)" by (cases "try_push command (rc_inbound s)")
  have wf: "ring_wf in_cap (rc_inbound s)" using assms(1) by (simp add: pipeline_inv_def)
  have s': "s' = (if ok then s\<lparr>rc_inbound := q, rc_todo := rest\<rparr> else s\<lparr>rc_inbound_spins := rc_inbound_spins s + 1\<rparr>)"
    using assms(2) Cons p by (simp add: input_step_def split: if_splits)
  have "\<not> rc_input_done s" "\<not> engine_draining (rc_engine_pc s)"
    using assms(1) Cons by (auto simp: pipeline_inv_def)
  then show ?thesis
    using assms(1) push_cases [OF wf p] Cons unfolding s' pipeline_inv_def
    by (cases ok; cases "rc_engine_pc s") (simp_all add: engine_draining_def)
qed

lemma pipeline_inv_take:
  assumes "pipeline_inv config in_cap out_cap commands s" "try_pop (rc_inbound s) = (q, Some command)"
    "rc_engine_pc s = (if drain then E_Drain else E_Loop)"
  shows "pipeline_inv config in_cap out_cap commands (engine_take config drain command (s\<lparr>rc_inbound := q\<rparr>))"
proof -
  have wf: "ring_wf in_cap (rc_inbound s)" using assms(1) by (simp add: pipeline_inv_def)
  note pop = pop_cases [OF wf assms(2)]
  obtain e res p where a: "apply_to_engine config command (rc_engine s) (rc_result s) = (e, res, p)"
    by (cases "apply_to_engine config command (rc_engine s) (rc_result s)")
  have "streams_ok config commands (command # ring_abs q @ rc_todo s) (rc_engine s) (rc_result s)
      (rc_sink s @ ring_abs (rc_outbound s))"
    using assms(1,3) pop(2) by (simp add: pipeline_inv_def pending_def split: if_splits)
  from streams_take [OF this a] show ?thesis
    using assms(1,3) pop(1) a
    by (auto simp: pipeline_inv_def engine_take_def pending_def engine_draining_def split: if_splits)
qed

lemma pipeline_inv_engine:
  assumes "pipeline_inv config in_cap out_cap commands s" "engine_step_thread config s = Some s'"
  shows "pipeline_inv config in_cap out_cap commands s'"
proof -
  have wf: "ring_wf in_cap (rc_inbound s)" "ring_wf out_cap (rc_outbound s)" using assms(1) by (simp_all add: pipeline_inv_def)
  obtain q x where pop: "try_pop (rc_inbound s) = (q, x)" by (cases "try_pop (rc_inbound s)")
  note pc = pop_cases [OF wf(1) pop]
  have same: "x = None \<Longrightarrow> ring_abs (rc_inbound s) = []" using pc(2) by simp
  note simps = engine_step_thread_def pipeline_inv_def pending_def engine_draining_def
  show ?thesis
  proof (cases "rc_engine_pc s")
    case E_Loop
    then show ?thesis
      using assms pop pipeline_inv_take [OF assms(1), of q _ False] by (cases x) (auto simp: simps)
  next
    case E_Check
    then have s': "s' = s\<lparr>rc_engine_pc := (if rc_input_done s then E_Drain else E_Loop)\<rparr>"
      using assms(2) by (simp add: engine_step_thread_def)
    show ?thesis using assms(1) E_Check unfolding s' by (cases "rc_input_done s") (auto simp: simps)
  next
    case (E_Push p drain)
    obtain q' ok where push: "try_push p (rc_outbound s) = (q', ok)" by (cases "try_push p (rc_outbound s)")
    have s': "s' = (if ok then s\<lparr>rc_outbound := q', rc_engine_pc := (if drain then E_Drain else E_Loop)\<rparr>
        else s\<lparr>rc_outbound_spins := rc_outbound_spins s + 1\<rparr>)"
      using assms(2) E_Push push by (simp add: engine_step_thread_def split: if_splits)
    show ?thesis
      using assms(1) E_Push push_cases [OF wf(2) push] unfolding s'
      by (cases ok; cases drain) (auto simp: simps)
  next
    case E_Drain
    then show ?thesis
      using assms pop same pipeline_inv_take [OF assms(1), of q _ True]
      by (cases x) (auto simp: simps last_seq_def)
  next
    case E_Finish
    then have s': "s' = s\<lparr>rc_engine_done := True, rc_engine_pc := E_Done\<rparr>"
      using assms(2) by (simp add: engine_step_thread_def)
    show ?thesis using assms(1) E_Finish unfolding s' by (auto simp: simps)
  next
    case E_Done
    then show ?thesis using assms by (simp add: engine_step_thread_def)
  qed
qed

lemma pipeline_inv_output:
  assumes "pipeline_inv config in_cap out_cap commands s" "output_step s = Some s'"
  shows "pipeline_inv config in_cap out_cap commands s'"
proof -
  have wf: "ring_wf out_cap (rc_outbound s)" using assms(1) by (simp add: pipeline_inv_def)
  obtain q x where pop: "try_pop (rc_outbound s) = (q, x)" by (cases "try_pop (rc_outbound s)")
  note pc = pop_cases [OF wf pop]
  have take: "pipeline_inv config in_cap out_cap commands (s\<lparr>rc_outbound := q, rc_sink := rc_sink s @ [p]\<rparr>)"
    if "x = Some p" "rc_output_pc s = O_Loop \<or> rc_output_pc s = O_Drain" for p
  proof -
    have r: "ring_abs (rc_outbound s) = p # ring_abs q" "ring_wf out_cap q" using pc(1,2) that(1) by simp_all
    show ?thesis using assms(1) r that(2) unfolding pipeline_inv_def by (elim conjE disjE) simp_all
  qed
  show ?thesis
  proof (cases "rc_output_pc s")
    case O_Loop
    have "pipeline_inv config in_cap out_cap commands (s\<lparr>rc_output_pc := O_Check\<rparr>)"
      using assms(1) O_Loop by (simp add: pipeline_inv_def)
    then show ?thesis using assms(2) pop take O_Loop by (cases x) (simp_all add: output_step_def)
  next
    case O_Check
    then have s': "s' = s\<lparr>rc_output_pc := (if rc_engine_done s then O_Drain else O_Loop)\<rparr>"
      using assms(2) by (simp add: output_step_def)
    show ?thesis using assms(1) O_Check unfolding s' pipeline_inv_def by (elim conjE) simp
  next
    case O_Drain
    show ?thesis
    proof (cases x)
      case None
      then have r: "ring_abs (rc_outbound s) = []" "s' = s\<lparr>rc_output_pc := O_Done\<rparr>"
        using pc(2) assms(2) pop O_Drain by (simp_all add: output_step_def)
      show ?thesis using assms(1) r(1) O_Drain unfolding r(2) pipeline_inv_def by (elim conjE) simp
    next
      case (Some p)
      then show ?thesis using assms(2) pop take O_Drain by (simp add: output_step_def)
    qed
  next
    case O_Done
    then show ?thesis using assms(2) by (simp add: output_step_def)
  qed
qed

lemma pipeline_inv_reachable:
  assumes "1 \<le> in_cap" "1 \<le> out_cap" "(pipeline_step config)\<^sup>*\<^sup>* (rc_new in_cap out_cap b1 b2 commands) s"
  shows "pipeline_inv config in_cap out_cap commands s"
  using assms(3)
proof (induction rule: rtranclp_induct)
  case base
  show ?case by (rule pipeline_inv_init [OF assms(1,2)])
next
  case (step s s')
  from step.hyps(2) step.IH show ?case
    by (cases rule: pipeline_step.cases) (auto intro: pipeline_inv_input pipeline_inv_engine pipeline_inv_output)
qed

lemma pipeline_done_result:
  assumes "pipeline_inv config in_cap out_cap commands s" "pipeline_done s"
  shows "processed_run config commands (me_new Baseline) = (rc_engine s, rc_sink s)"
    "counts (rc_sink s) (rc_result s)" "pr_snapshot (rc_result s) = me_snapshot (rc_engine s)"
    "pr_last_seq (rc_result s) = me_seq (rc_engine s)"
  using assms by (auto simp: pipeline_inv_def pipeline_done_def pending_def streams_ok_def)


section \<open>Progress\<close>

text \<open>What is left to do: the stages each command has still to pass, and the phases of the threads.\<close>

definition engine_rank :: "engine_pc \<Rightarrow> nat" where
  "engine_rank p = (case p of E_Loop \<Rightarrow> 3 | E_Check \<Rightarrow> 3 | E_Push _ drain \<Rightarrow> if drain then 2 else 3 | E_Drain \<Rightarrow> 2
     | E_Finish \<Rightarrow> 1 | E_Done \<Rightarrow> 0)"

definition output_rank :: "output_pc \<Rightarrow> nat" where
  "output_rank p = (case p of O_Loop \<Rightarrow> 2 | O_Check \<Rightarrow> 2 | O_Drain \<Rightarrow> 1 | O_Done \<Rightarrow> 0)"

definition work_left :: "RunContext \<Rightarrow> nat" where
  "work_left s = 4 * length (rc_todo s) + 3 * length (ring_abs (rc_inbound s)) + 2 * length (pending (rc_engine_pc s)) +
     length (ring_abs (rc_outbound s)) + (if rc_input_done s then 0 else 1) + engine_rank (rc_engine_pc s) +
     output_rank (rc_output_pc s)"

abbreviation pipeline_reach :: "RiskConfig \<Rightarrow> RunContext \<Rightarrow> RunContext \<Rightarrow> bool" where
  "pipeline_reach config \<equiv> (pipeline_step config)\<^sup>*\<^sup>*"

lemma progress1:
  "pipeline_step config s t \<Longrightarrow> work_left t < work_left s \<Longrightarrow> \<exists>s'. pipeline_reach config s s' \<and> work_left s' < work_left s"
  by blast

lemma progress2:
  assumes "pipeline_step config s t" "pipeline_step config t u" "work_left u < work_left s"
  shows "\<exists>s'. pipeline_reach config s s' \<and> work_left s' < work_left s"
  using assms by (intro exI [of _ u]) (simp add: converse_rtranclp_into_rtranclp)

lemma output_progress:
  assumes "pipeline_inv config in_cap out_cap commands s" "ring_abs (rc_outbound s) \<noteq> []"
  shows "\<exists>s'. pipeline_reach config s s' \<and> work_left s' < work_left s"
proof -
  have wf: "ring_wf out_cap (rc_outbound s)" using assms(1) by (simp add: pipeline_inv_def)
  obtain q x where pop: "try_pop (rc_outbound s) = (q, x)" by (cases "try_pop (rc_outbound s)")
  obtain p where x: "x = Some p" using pop_cases(2) [OF wf pop] assms(2) by (cases x) auto
  have r: "ring_abs (rc_outbound s) = p # ring_abs q" using pop_cases(2) [OF wf pop] x by simp
  have take: "\<exists>t'. pipeline_step config t t' \<and> work_left t' < work_left t"
    if "rc_output_pc t = O_Loop \<or> rc_output_pc t = O_Drain" "rc_outbound t = rc_outbound s" for t
  proof -
    have "output_step t = Some (t\<lparr>rc_outbound := q, rc_sink := rc_sink t @ [p]\<rparr>)"
      using that pop x by (auto simp: output_step_def)
    moreover have "work_left (t\<lparr>rc_outbound := q, rc_sink := rc_sink t @ [p]\<rparr>) < work_left t"
      using r that(2) by (simp add: work_left_def)
    ultimately show ?thesis using output_thread by blast
  qed
  show ?thesis
  proof (cases "rc_output_pc s")
    case O_Check
    let ?t = "s\<lparr>rc_output_pc := (if rc_engine_done s then O_Drain else O_Loop)\<rparr>"
    have "pipeline_step config s ?t" using O_Check by (intro output_thread) (simp add: output_step_def)
    moreover have "work_left ?t \<le> work_left s" using O_Check by (simp add: work_left_def output_rank_def)
    moreover obtain t' where "pipeline_step config ?t t'" "work_left t' < work_left ?t"
      using take [of ?t] by (cases "rc_engine_done s") auto
    ultimately show ?thesis by (intro progress2 [of config s ?t t']) simp_all
  next
    case O_Done
    then show ?thesis using assms by (simp add: pipeline_inv_def)
  qed (use take [of s] in \<open>auto intro: progress1\<close>)
qed

lemma push_empty: "ring_wf capacity q \<Longrightarrow> ring_abs q = [] \<Longrightarrow> \<exists>q'. try_push v q = (q', True) \<and> length (ring_abs q') = 1"
  using ring.push_spec [of capacity q v] by (cases "try_push v q") (auto simp: ring_wf_def)

lemma push_progress:
  assumes "ring_wf out_cap (rc_outbound s)" "ring_abs (rc_outbound s) = []" "rc_engine_pc s = E_Push p drain"
  shows "\<exists>s'. pipeline_reach config s s' \<and> work_left s' < work_left s"
proof -
  obtain q' where q': "try_push p (rc_outbound s) = (q', True)" "length (ring_abs q') = 1"
    using push_empty [OF assms(1,2)] by blast
  let ?t = "s\<lparr>rc_outbound := q', rc_engine_pc := (if drain then E_Drain else E_Loop)\<rparr>"
  have "pipeline_step config s ?t" using assms(3) q' by (intro engine_thread) (simp add: engine_step_thread_def)
  moreover have "work_left ?t < work_left s"
    using assms(2,3) q'(2) by (simp add: work_left_def engine_rank_def pending_def)
  ultimately show ?thesis by (rule progress1)
qed

lemma engine_take_work:
  "rc_engine_pc s = (if drain then E_Drain else E_Loop) \<Longrightarrow> ring_abs (rc_inbound s) = c # ring_abs q \<Longrightarrow>
     work_left (engine_take config drain c (s\<lparr>rc_inbound := q\<rparr>)) < work_left s"
  by (cases drain) (simp_all add: engine_take_def work_left_def pending_def engine_rank_def Let_def case_prod_unfold)

lemma engine_progress:
  assumes "pipeline_inv config in_cap out_cap commands s" "ring_abs (rc_outbound s) = []" "ring_abs (rc_inbound s) \<noteq> []"
  shows "\<exists>s'. pipeline_reach config s s' \<and> work_left s' < work_left s"
proof -
  have wf: "ring_wf in_cap (rc_inbound s)" "ring_wf out_cap (rc_outbound s)" using assms(1) by (simp_all add: pipeline_inv_def)
  obtain q x where pop: "try_pop (rc_inbound s) = (q, x)" by (cases "try_pop (rc_inbound s)")
  obtain c where x: "x = Some c" using pop_cases(2) [OF wf(1) pop] assms(3) by (cases x) auto
  have r: "ring_abs (rc_inbound s) = c # ring_abs q" using pop_cases(2) [OF wf(1) pop] x by simp
  have take: "\<exists>t'. pipeline_step config t t' \<and> work_left t' < work_left t"
    if "rc_engine_pc t = (if drain then E_Drain else E_Loop)" "rc_inbound t = rc_inbound s" for t drain
  proof -
    have "engine_step_thread config t = Some (engine_take config drain c (t\<lparr>rc_inbound := q\<rparr>))"
      using that pop x by (simp add: engine_step_thread_def)
    then show ?thesis using engine_take_work [OF that(1)] r that(2) engine_thread by metis
  qed
  show ?thesis
  proof (cases "rc_engine_pc s")
    case E_Loop
    then show ?thesis using take [of s False] by (auto intro: progress1)
  next
    case E_Drain
    then show ?thesis using take [of s True] by (auto intro: progress1)
  next
    case E_Check
    let ?t = "s\<lparr>rc_engine_pc := (if rc_input_done s then E_Drain else E_Loop)\<rparr>"
    have "pipeline_step config s ?t" using E_Check by (intro engine_thread) (simp add: engine_step_thread_def)
    moreover have "work_left ?t \<le> work_left s"
      using E_Check by (simp add: work_left_def engine_rank_def pending_def)
    moreover obtain t' where "pipeline_step config ?t t'" "work_left t' < work_left ?t"
      using take [of ?t "rc_input_done s"] by auto
    ultimately show ?thesis by (intro progress2 [of config s ?t t']) simp_all
  next
    case (E_Push p drain)
    show ?thesis by (rule push_progress [OF wf(2) assms(2) E_Push])
  qed (use assms in \<open>simp_all add: pipeline_inv_def\<close>)
qed


lemmas work_defs = work_left_def engine_rank_def pending_def output_rank_def

lemma input_progress:
  assumes "ring_wf in_cap (rc_inbound s)" "ring_abs (rc_inbound s) = []" "rc_todo s \<noteq> [] \<or> \<not> rc_input_done s"
  shows "\<exists>s'. pipeline_reach config s s' \<and> work_left s' < work_left s"
proof (cases "rc_todo s")
  case (Cons c rest)
  obtain q' where q': "try_push c (rc_inbound s) = (q', True)" "length (ring_abs q') = 1"
    using push_empty [OF assms(1,2)] by blast
  let ?t = "s\<lparr>rc_inbound := q', rc_todo := rest\<rparr>"
  have "pipeline_step config s ?t" using Cons q' by (intro input_thread) (simp add: input_step_def)
  moreover have "work_left ?t < work_left s" using Cons q'(2) assms(2) by (simp add: work_left_def)
  ultimately show ?thesis by (rule progress1)
next
  case Nil
  let ?t = "s\<lparr>rc_input_done := True\<rparr>"
  have "pipeline_step config s ?t" using Nil assms(3) by (intro input_thread) (simp add: input_step_def)
  moreover have "work_left ?t < work_left s" using Nil assms(3) by (simp add: work_left_def)
  ultimately show ?thesis by (rule progress1)
qed

lemma engine_stop_progress:
  assumes "try_pop (rc_inbound s) = (rc_inbound s, None)" "ring_wf out_cap (rc_outbound s)" "ring_abs (rc_outbound s) = []"
    "rc_input_done s" "rc_engine_pc s \<noteq> E_Done"
  shows "\<exists>s'. pipeline_reach config s s' \<and> work_left s' < work_left s"
proof (cases "rc_engine_pc s")
  case E_Loop
  let ?t = "s\<lparr>rc_engine_pc := E_Check\<rparr>" and ?u = "s\<lparr>rc_engine_pc := E_Drain\<rparr>"
  have "pipeline_step config s ?t" using E_Loop assms(1) by (intro engine_thread) (simp add: engine_step_thread_def)
  moreover have "pipeline_step config ?t ?u" using assms(4) by (intro engine_thread) (simp add: engine_step_thread_def)
  moreover have "work_left ?u < work_left s" using E_Loop by (simp add: work_defs)
  ultimately show ?thesis by (rule progress2)
next
  case E_Check
  let ?u = "s\<lparr>rc_engine_pc := E_Drain\<rparr>"
  have "pipeline_step config s ?u" using assms(4) E_Check by (intro engine_thread) (simp add: engine_step_thread_def)
  moreover have "work_left ?u < work_left s" using E_Check by (simp add: work_defs)
  ultimately show ?thesis by (rule progress1)
next
  case (E_Push p drain)
  then show ?thesis using push_progress [OF assms(2,3) E_Push] by simp
next
  case E_Drain
  let ?t = "s\<lparr>rc_engine_pc := E_Finish,
      rc_result := (rc_result s)\<lparr>pr_snapshot := me_snapshot (rc_engine s), pr_last_seq := last_seq (rc_engine s)\<rparr>\<rparr>"
  have "pipeline_step config s ?t" using E_Drain assms(1) by (intro engine_thread) (simp add: engine_step_thread_def)
  moreover have "work_left ?t < work_left s" using E_Drain by (simp add: work_defs)
  ultimately show ?thesis by (rule progress1)
next
  case E_Finish
  let ?t = "s\<lparr>rc_engine_done := True, rc_engine_pc := E_Done\<rparr>"
  have "pipeline_step config s ?t" using E_Finish by (intro engine_thread) (simp add: engine_step_thread_def)
  moreover have "work_left ?t < work_left s" using E_Finish by (simp add: work_defs)
  ultimately show ?thesis by (rule progress1)
qed (use assms(5) in simp)

lemma output_stop_progress:
  assumes "try_pop (rc_outbound s) = (rc_outbound s, None)" "rc_engine_done s" "rc_output_pc s \<noteq> O_Done"
  shows "\<exists>s'. pipeline_reach config s s' \<and> work_left s' < work_left s"
proof (cases "rc_output_pc s")
  case O_Loop
  let ?t = "s\<lparr>rc_output_pc := O_Check\<rparr>" and ?u = "s\<lparr>rc_output_pc := O_Drain\<rparr>"
  have "pipeline_step config s ?t" using O_Loop assms(1) by (intro output_thread) (simp add: output_step_def)
  moreover have "pipeline_step config ?t ?u" using assms(2) by (intro output_thread) (simp add: output_step_def)
  moreover have "work_left ?u < work_left s" using O_Loop by (simp add: work_defs)
  ultimately show ?thesis by (rule progress2)
next
  case O_Check
  let ?u = "s\<lparr>rc_output_pc := O_Drain\<rparr>"
  have "pipeline_step config s ?u" using assms(2) O_Check by (intro output_thread) (simp add: output_step_def)
  moreover have "work_left ?u < work_left s" using O_Check by (simp add: work_defs)
  ultimately show ?thesis by (rule progress1)
next
  case O_Drain
  let ?u = "s\<lparr>rc_output_pc := O_Done\<rparr>"
  have "pipeline_step config s ?u" using assms(1) O_Drain by (intro output_thread) (simp add: output_step_def)
  moreover have "work_left ?u < work_left s" using O_Drain by (simp add: work_defs)
  ultimately show ?thesis by (rule progress1)
qed (use assms(3) in simp)

lemma quiet_progress:
  assumes "pipeline_inv config in_cap out_cap commands s" "ring_abs (rc_outbound s) = []" "ring_abs (rc_inbound s) = []"
    "\<not> pipeline_done s"
  shows "\<exists>s'. pipeline_reach config s s' \<and> work_left s' < work_left s"
proof -
  have wf: "ring_wf in_cap (rc_inbound s)" "ring_wf out_cap (rc_outbound s)" using assms(1) by (simp_all add: pipeline_inv_def)
  have pop: "try_pop (rc_inbound s) = (rc_inbound s, None)" "try_pop (rc_outbound s) = (rc_outbound s, None)"
    using assms(2,3) ring_abs_Nil [OF wf(1)] ring_abs_Nil [OF wf(2)] by (simp_all add: try_pop_def)
  have "rc_engine_done s \<longleftrightarrow> rc_engine_pc s = E_Done" using assms(1) by (simp add: pipeline_inv_def)
  then show ?thesis
    using input_progress [OF wf(1) assms(3)] engine_stop_progress [OF pop(1) wf(2) assms(2)]
      output_stop_progress [OF pop(2)] assms(4) by (auto simp: pipeline_done_def)
qed

text \<open>From every state a run can go on to the end.\<close>

lemma pipeline_inv_steps:
  assumes "pipeline_reach config s s'" "pipeline_inv config in_cap out_cap commands s"
  shows "pipeline_inv config in_cap out_cap commands s'"
  using assms
proof (induction rule: rtranclp_induct)
  case (step s' s'')
  from step.hyps(2) step.IH [OF step.prems] show ?case
    by (cases rule: pipeline_step.cases) (auto intro: pipeline_inv_input pipeline_inv_engine pipeline_inv_output)
qed

lemma pipeline_finishes:
  assumes "pipeline_inv config in_cap out_cap commands s"
  shows "\<exists>s'. pipeline_reach config s s' \<and> pipeline_done s'"
  using assms
proof (induction "work_left s" arbitrary: s rule: less_induct)
  case less
  show ?case
  proof (cases "pipeline_done s")
    case True
    then show ?thesis by blast
  next
    case False
    obtain s' where s': "pipeline_reach config s s'" "work_left s' < work_left s"
      using output_progress [OF less.prems] engine_progress [OF less.prems] quiet_progress [OF less.prems _ _ False]
      by blast
    obtain t where "pipeline_reach config s' t" "pipeline_done t"
      using less.hyps [OF s'(2) pipeline_inv_steps [OF s'(1) less.prems]] by blast
    with s'(1) show ?thesis by (meson rtranclp_trans)
  qed
qed

end
