(* ===== verification/Concurrency_Properties.thy ===== *)
theory Concurrency_Properties
  imports Pipeline Engine_Properties
begin

text \<open>
  Correctness of the ring and of the threaded pipeline, under every interleaving.
\<close>

section \<open>The ring\<close>

text \<open>C31: The ring is a bounded queue: after any sequence of pushes and pops on a new ring, the
  accepted values are the returned ones followed by those still in the ring, in order, and the
  ring holds at most its capacity; a push is refused exactly when the ring is full and a pop
  exactly when it is empty.\<close>

theorem ring_is_fifo:
  assumes "1 \<le> capacity" "queue_run try_push try_pop ops (ring_new capacity d) = (r, ins, outs)"
  shows "ins = outs @ ring_abs r \<and> length (ring_abs r) \<le> capacity \<and>
    (snd (try_push v r) \<longleftrightarrow> length (ring_abs r) < capacity) \<and> (snd (try_pop r) = None \<longleftrightarrow> ring_abs r = [])"
proof -
  have "ring_wf capacity r \<and> ring_abs (ring_new capacity d) @ ins = outs @ ring_abs r"
    using ring.run_fifo [OF ring_new_wf(1) [OF assms(1)] assms(2)] .
  then have wf: "ring_wf capacity r" and fifo: "ins = outs @ ring_abs r" by (simp_all add: ring_new_wf)
  have "snd (try_push v r) \<longleftrightarrow> length (ring_abs r) < capacity"
    using ring.push_spec [OF wf prod.collapse [symmetric]] by blast
  moreover have "snd (try_pop r) = None \<longleftrightarrow> ring_abs r = []"
    using ring.pop_spec [OF wf prod.collapse [symmetric]] by (auto split: list.splits)
  ultimately show ?thesis using fifo ring.bounded [OF wf] by blast
qed

theorem ring_is_fifo_witness:
  "snd (snd (queue_run try_push try_pop [Push 1, Push 2, Push 3, Pop, Push 4, Pop] (ring_new 2 (0 :: nat)))) = [1, 2] \<and>
   fst (snd (queue_run try_push try_pop [Push 1, Push 2, Push 3, Pop, Push 4, Pop] (ring_new 2 (0 :: nat)))) = [1, 2] @ [4]"
proof -
  let ?run = "queue_run try_push try_pop [Push 1, Push 2, Push 3, Pop, Push 4, Pop] (ring_new 2 (0 :: nat))"
  have "snd (snd ?run) = [1, 2]" "ring_abs (fst ?run) = [4]" by code_simp+
  with ring_is_fifo [of 2 "[Push 1, Push 2, Push 3, Pop, Push 4, Pop]" 0 "fst ?run" "fst (snd ?run)" "snd (snd ?run)"]
  show ?thesis by simp
qed

text \<open>C32: With one producer and one consumer interleaved at every access to shared memory, each
  using an index of the other that may be out of date, the two threads never touch one slot at
  the same time while one writes it, values come out in the order they went in, none lost,
  repeated or invented, and at most the capacity is in flight.\<close>

theorem ring_threads_safe:
  assumes "1 \<le> capacity" "ring_step\<^sup>*\<^sup>* (rt_init capacity d) s"
  shows "\<not> ring_race s \<and> rt_pushed s = rt_popped s @ ring_abs (rt_ring s) \<and> length (ring_abs (rt_ring s)) \<le> capacity"
proof -
  have inv: "ring_inv capacity s" by (rule ring_inv_reachable [OF assms(2,1)])
  then show ?thesis
    using ring_inv_no_race [OF inv] ring_abs_length [OF ring_inv_wf [OF inv]] by (simp add: ring_inv_def Let_def)
qed

theorem ring_threads_safe_witness:
  "\<exists>s. ring_step\<^sup>*\<^sup>* (rt_init 1 (0 :: nat)) s \<and> rt_pushed s = [5] \<and> rt_popped s @ ring_abs (rt_ring s) = [5]"
proof -
  let ?s0 = "rt_init 1 (0 :: nat)"
  let ?s1 = "?s0\<lparr>rt_prod := PLoaded 5 (sr_head (rt_ring ?s0))\<rparr>"
  let ?s2 = "?s1\<lparr>rt_prod := PWritten 5, rt_ring := (rt_ring ?s1)\<lparr>sr_buffer := (sr_buffer (rt_ring ?s1))[sr_tail (rt_ring ?s1) := 5]\<rparr>\<rparr>"
  let ?s3 = "?s2\<lparr>rt_prod := PIdle, rt_pushed := rt_pushed ?s2 @ [5],
      rt_ring := (rt_ring ?s2)\<lparr>sr_tail := ring_next (rt_ring ?s2) (sr_tail (rt_ring ?s2))\<rparr>\<rparr>"
  have "ring_step ?s0 ?s1" by (rule p_load) (simp add: rt_init_def)
  moreover have "ring_step ?s1 ?s2" by (rule p_write [where v = 5 and h = 0]) (simp_all add: rt_init_def ring_new_def ring_next_def kSlots_def)
  moreover have "ring_step ?s2 ?s3" by (rule p_publish) simp
  ultimately have reach: "ring_step\<^sup>*\<^sup>* ?s0 ?s3" by (meson rtranclp.rtrancl_into_rtrancl rtranclp.rtrancl_refl)
  have "rt_pushed ?s3 = [5]" by (simp add: rt_init_def)
  with ring_threads_safe [OF _ reach] reach show ?thesis by (intro exI [of _ ?s3]) simp
qed

section \<open>The pipeline\<close>

text \<open>C33: The threaded pipeline is deterministic and equals the single-threaded run: under every
  interleaving, when the three threads have returned, the engine, the records delivered to the
  sink in their order, the counters and the snapshot are those of applying the commands one
  after the other.\<close>

theorem pipeline_deterministic:
  assumes "1 \<le> in_cap" "1 \<le> out_cap" "(pipeline_step config)\<^sup>*\<^sup>* (rc_new in_cap out_cap b1 b2 commands) s" "pipeline_done s"
  shows "processed_run config commands (me_new Baseline) = (rc_engine s, rc_sink s) \<and>
    counts (rc_sink s) (finish b1 b2 s) \<and> pr_snapshot (finish b1 b2 s) = me_snapshot (rc_engine s) \<and>
    pr_last_seq (finish b1 b2 s) = last_seq (rc_engine s)"
  using pipeline_done_result [OF pipeline_inv_reachable [OF assms(1-3)] assms(4)]
  by (simp add: finish_def counts_def last_seq_def)

theorem pipeline_deterministic_witness:
  "\<exists>s. pipeline_done s \<and> rc_sink s = snd (processed_run sample_config sample_flow (me_new Baseline)) \<and>
     pr_commands_processed (finish 0 0 s) = 9"
proof -
  have inv: "pipeline_inv sample_config 1 2 sample_flow (rc_new 1 2 0 0 sample_flow)"
    by (rule pipeline_inv_init) simp_all
  obtain s where s: "(pipeline_step sample_config)\<^sup>*\<^sup>* (rc_new 1 2 0 0 sample_flow) s" "pipeline_done s"
    using pipeline_finishes [OF inv] by blast
  have "length (snd (processed_run sample_config sample_flow (me_new Baseline))) = 9" by code_simp
  then have "length (rc_sink s) = 9" using pipeline_deterministic [OF _ _ s] by simp
  with pipeline_deterministic [OF _ _ s] s(2) show ?thesis by (intro exI [of _ s]) (simp add: counts_def)
qed

text \<open>C34: The pipeline never deadlocks: from every state any
  interleaving can reach, with rings of any positive capacity, there is a continuation in which
  all three threads return.\<close>

theorem pipeline_can_finish:
  assumes "1 \<le> in_cap" "1 \<le> out_cap" "(pipeline_step config)\<^sup>*\<^sup>* (rc_new in_cap out_cap b1 b2 commands) s"
  shows "\<exists>s'. (pipeline_step config)\<^sup>*\<^sup>* s s' \<and> pipeline_done s'"
  by (rule pipeline_finishes [OF pipeline_inv_reachable [OF assms]])

theorem pipeline_can_finish_witness:
  "\<exists>s'. (pipeline_step sample_config)\<^sup>*\<^sup>* (rc_new 1 1 0 0 sample_flow) s' \<and> pipeline_done s'"
  by (rule pipeline_can_finish [OF _ _ rtranclp.rtrancl_refl]) simp_all

end
