(* ===== verification/Storage_Properties.thy ===== *)
theory Storage_Properties
  imports Order_Book "HOL-Library.Code_Target_Nat"
begin

text \<open>
  The three storages of the order book compared: that they cannot be told apart by what they
  answer, what each of them refuses, that its pools never hand out a slot twice, and how much
  space a run can take.
\<close>

section \<open>Runs of a book\<close>

text \<open>A client's calls, each asked of the storage first where the storage can refuse, and their answers.\<close>

datatype BookOp = OpAddLimit OrderId Side Price Quantity TimeInForce | OpAddMarket OrderId Side Quantity
  | OpCancel OrderId | OpModify OrderId Price Quantity

datatype BookAnswer = Trades "Trade list" | Cancelled bool

fun book_step :: "BookOp \<Rightarrow> OrderBook \<Rightarrow> OrderBook \<times> BookAnswer" where
  "book_step (OpAddLimit i side p q tif) b = (let (b, ts) = ob_add_limit i side p q tif b in (b, Trades ts))"
| "book_step (OpAddMarket i side q) b = (let (b, ts) = ob_add_market i side q b in (b, Trades ts))"
| "book_step (OpCancel i) b = (let (b, c) = ob_cancel i b in (b, Cancelled c))"
| "book_step (OpModify i p q) b = (let (b, ts) = ob_modify i p q b in (b, Trades ts))"

fun op_accepted :: "BookOp \<Rightarrow> OrderBook \<Rightarrow> bool" where
  "op_accepted (OpAddLimit i side p q tif) b \<longleftrightarrow> is_valid_side side \<and> ob_can_store_limit side p q tif b"
| "op_accepted (OpModify i p q) b = ob_can_apply_modify i p q b"
| "op_accepted _ b = True"

fun book_run :: "BookOp list \<Rightarrow> OrderBook \<Rightarrow> OrderBook \<times> BookAnswer list" where
  "book_run [] b = (b, [])"
| "book_run (op # ops) b =
     (let (b, answer) = book_step op b; (b, answers) = book_run ops b in (b, answer # answers))"

fun run_accepted :: "BookOp list \<Rightarrow> OrderBook \<Rightarrow> bool" where
  "run_accepted [] b = True"
| "run_accepted (op # ops) b \<longleftrightarrow> op_accepted op b \<and> run_accepted ops (fst (book_step op b))"

fun spec_step :: "BookOp \<Rightarrow> SpecBook \<Rightarrow> SpecBook \<times> BookAnswer" where
  "spec_step (OpAddLimit i side p q tif) b = (let (b, ts) = spec_add_limit i side p q tif b in (b, Trades ts))"
| "spec_step (OpAddMarket i side q) b = (let (b, ts) = spec_add_market i side q b in (b, Trades ts))"
| "spec_step (OpCancel i) b = (let (b, c) = spec_cancel i b in (b, Cancelled c))"
| "spec_step (OpModify i p q) b = (let (b, ts) = spec_modify i p q b in (b, Trades ts))"

fun spec_run :: "BookOp list \<Rightarrow> SpecBook \<Rightarrow> SpecBook \<times> BookAnswer list" where
  "spec_run [] b = (b, [])"
| "spec_run (op # ops) b =
     (let (b, answer) = spec_step op b; (b, answers) = spec_run ops b in (b, answer # answers))"

lemma book_step_spec:
  assumes "ob_wf b" "ob_room b" "op_accepted op b"
  shows "ob_wf (fst (book_step op b))" "spec_step op (ob_abs b) = (ob_abs (fst (book_step op b)), snd (book_step op b))"
proof (atomize (full), cases op)
  case (OpAddLimit i side p q tif)
  then show "ob_wf (fst (book_step op b)) \<and> spec_step op (ob_abs b) = (ob_abs (fst (book_step op b)), snd (book_step op b))"
    using ob.add_limit_spec [OF assms(1,2), of side p q tif i] assms(3) by (simp add: case_prod_unfold Let_def prod_eq_iff)
next
  case (OpAddMarket i side q)
  then show "ob_wf (fst (book_step op b)) \<and> spec_step op (ob_abs b) = (ob_abs (fst (book_step op b)), snd (book_step op b))"
    using ob.add_market_spec [OF assms(1), of i side q] by (simp add: case_prod_unfold Let_def prod_eq_iff)
next
  case (OpCancel i)
  then show "ob_wf (fst (book_step op b)) \<and> spec_step op (ob_abs b) = (ob_abs (fst (book_step op b)), snd (book_step op b))"
    using ob.cancel_spec [OF assms(1), of i] by (simp add: case_prod_unfold Let_def prod_eq_iff)
next
  case (OpModify i p q)
  then show "ob_wf (fst (book_step op b)) \<and> spec_step op (ob_abs b) = (ob_abs (fst (book_step op b)), snd (book_step op b))"
    using ob.modify_spec [OF assms(1,2), of i p q] assms(3) by (simp add: case_prod_unfold Let_def prod_eq_iff)
qed

lemma spec_step_length: "length (spec_orders (fst (spec_step op b))) \<le> Suc (length (spec_orders b))"
proof (cases op)
  case (OpCancel i)
  then show ?thesis using spec_remove_length [of i b] by (simp add: spec_cancel_def)
qed (use spec_add_limit_length spec_add_market_length spec_modify_length in
      \<open>auto simp: case_prod_unfold Let_def intro: le_SucI\<close>)

lemma book_run_spec:
  assumes "ob_wf b" "run_accepted ops b" "ob_order_count b + length ops < 2 ^ 31"
  shows "ob_wf (fst (book_run ops b)) \<and> spec_run ops (ob_abs b) = (ob_abs (fst (book_run ops b)), snd (book_run ops b))"
  using assms
proof (induction ops arbitrary: b)
  case (Cons op ops)
  have room: "ob_room b" by (rule ob_room_small) (use Cons.prems in simp_all)
  have acc: "op_accepted op b" "run_accepted ops (fst (book_step op b))" using Cons.prems(2) by simp_all
  note s = book_step_spec [OF Cons.prems(1) room acc(1)]
  have "ob_order_count (fst (book_step op b)) + length ops < 2 ^ 31"
    using spec_step_length [of op "ob_abs b"] Cons.prems s by (simp add: ob.order_count_spec)
  note r = Cons.IH [OF s(1) acc(2) this]
  then show ?case using s(2) by (simp add: case_prod_unfold Let_def)
qed simp

section \<open>Independence of the storage\<close>

definition demo_ops :: "BookOp list" where
  "demo_ops = [OpAddLimit 1 Sell (Ticks 2) 3 GTC, OpAddLimit 2 Buy (Ticks 2) 5 GTC, OpAddLimit 3 Buy (Ticks 1) 4 GTC, OpCancel 2]"

text \<open>C35: The storage a book was built with cannot be told from its answers. On any sequence of fewer
  than 2^31 calls that two storages accept (every limit order has a valid side and passes the
  storage's capacity query, and so does every modify), they return the same trades and cancel
  results and end with the same resting orders in the same priority, the same count, best prices,
  level views and quantities, and the same fill counts for every order to come.\<close>

theorem storage_independence:
  assumes "run_accepted ops (ob_new st)" "run_accepted ops (ob_new st')" "length ops < 2 ^ 31"
    and "book_run ops (ob_new st) = (b, answers)" "book_run ops (ob_new st') = (b', answers')"
  shows "answers = answers' \<and> ob_resting_orders b = ob_resting_orders b' \<and> ob_order_count b = ob_order_count b' \<and>
    ob_best_bid b = ob_best_bid b' \<and> ob_best_ask b = ob_best_ask b' \<and>
    ob_bid_levels b = ob_bid_levels b' \<and> ob_ask_levels b = ob_ask_levels b' \<and>
    (\<forall>side p. ob_quantity_at side p b = ob_quantity_at side p b') \<and>
    (\<forall>side p mkt q. ob_fill_count side p mkt q b = ob_fill_count side p mkt q b')"
proof -
  have small: "ob_order_count (ob_new x) + length ops < 2 ^ 31" for x
    using assms(3) ob.order_count_spec [of "ob_new x"] by (simp add: spec_empty_def spec_orders_def)
  note r = book_run_spec [OF ob_new_spec(1) assms(1) small] book_run_spec [OF ob_new_spec(1) assms(2) small]
  have wf: "ob_wf b" "ob_wf b'" using r assms(4,5) by simp_all
  have eq: "answers = answers'" "ob_abs b = ob_abs b'" using r assms(4,5) by simp_all
  then show ?thesis
    by (simp add: ob.resting_orders_spec [OF wf(1)] ob.resting_orders_spec [OF wf(2)] ob.order_count_spec [OF wf(1)] ob.order_count_spec [OF wf(2)]
        ob.best_bid_spec [OF wf(1)] ob.best_bid_spec [OF wf(2)] ob.best_ask_spec [OF wf(1)] ob.best_ask_spec [OF wf(2)]
        ob.bid_levels_spec [OF wf(1)] ob.bid_levels_spec [OF wf(2)] ob.ask_levels_spec [OF wf(1)] ob.ask_levels_spec [OF wf(2)]
        ob.quantity_at_spec [OF wf(1)] ob.quantity_at_spec [OF wf(2)] ob.fill_count_spec [OF wf(1)] ob.fill_count_spec [OF wf(2)])
qed

lemma demo_accepted:
  "run_accepted demo_ops (ob_new IntrusivePooled)" "run_accepted demo_ops (ob_new Contiguous)" "length demo_ops < 2 ^ 31"
  by code_simp+

theorem storage_independence_witness:
  "snd (book_run demo_ops (ob_new IntrusivePooled)) = snd (book_run demo_ops (ob_new Contiguous)) \<and>
   ob_resting_orders (fst (book_run demo_ops (ob_new IntrusivePooled))) = ob_resting_orders (fst (book_run demo_ops (ob_new Contiguous))) \<and>
   ob_resting_orders (fst (book_run demo_ops (ob_new IntrusivePooled))) =
     [\<lparr>o_id = 3, o_side = Buy, o_price = Ticks 1, o_quantity = 4\<rparr>]"
proof -
  have "ob_resting_orders (fst (book_run demo_ops (ob_new IntrusivePooled))) =
     [\<lparr>o_id = 3, o_side = Buy, o_price = Ticks 1, o_quantity = 4\<rparr>]" by code_simp
  then show ?thesis
    using storage_independence [OF demo_accepted prod.collapse [symmetric] prod.collapse [symmetric]] by blast
qed

section \<open>What a storage refuses\<close>

text \<open>Whether a storage can take one more resting order at a price when \<open>n\<close> orders rest.\<close>

fun holds_remainder :: "OrderBook \<Rightarrow> Price \<Rightarrow> nat \<Rightarrow> bool" where
  "holds_remainder (BaselineStorage b) p n = True"
| "holds_remainder (IntrusiveStorage s) p n \<longleftrightarrow> n < kIntrusivePoolCapacity"
| "holds_remainder (ContiguousStorage s) p n = in_band p"

lemma in_can_store_exact:
  assumes "in_wf s" "spec_take i side p False q (bl_abs (in_bl s)) = (ts, r, b)"
  shows "in_can_store_limit side p q tif s \<longleftrightarrow> tif = IOC \<or> r = 0 \<or> length (spec_orders b) < kIntrusivePoolCapacity"
proof -
  note t = simulate_match_take [OF assms]
  have "in_order_count s = length (spec_orders (bl_abs (in_bl s)))"
    using bl.order_count_spec [OF in_wfD(1) [OF assms(1)]] by (simp add: in_order_count_bl)
  then show ?thesis
    using t in_wfD(3) [OF assms(1)] by (auto simp: in_can_store_limit_def has_capacity_def pool_available_def pools_ok_def Let_def)
qed

text \<open>C36: A storage refuses a limit order exactly when the order would leave a remainder to rest
  that it cannot hold: never the baseline, the pooled storage only when all its slots are still
  taken after the match, the contiguous storage only outside its price band. An immediate-or-cancel
  order is never refused. A refused order changes nothing and trades nothing.\<close>

theorem refusal_exact:
  assumes "ob_wf b" "spec_take i side p False q (ob_abs b) = (ts, r, after)"
  shows "(ob_can_store_limit side p q tif b \<longleftrightarrow> tif = IOC \<or> r = 0 \<or> holds_remainder b p (length (spec_orders after))) \<and>
    (\<not> ob_can_store_limit side p q tif b \<longrightarrow> ob_add_limit i side p q tif b = (b, []))"
proof (cases b)
  case (BaselineStorage s)
  then show ?thesis by (simp add: bl_can_store_limit_def)
next
  case (IntrusiveStorage s)
  then show ?thesis using in_can_store_exact [of s i side p q ts r after tif] assms by (auto simp: in_add_limit_def)
next
  case (ContiguousStorage s)
  then show ?thesis
    using simulate_remainder_take [of s i side p q ts r after] assms by (auto simp: ct_can_store_limit_def ct_add_limit_def)
qed

theorem refusal_exact_witness:
  "ob_can_store_limit Buy (Ticks 5000) 2 GTC (ob_new Contiguous) = False \<and>
   ob_can_store_limit Buy (Ticks 5000) 2 IOC (ob_new Contiguous) = True \<and>
   ob_add_limit 7 Buy (Ticks 5000) 2 GTC (ob_new Contiguous) = (ob_new Contiguous, [])"
proof -
  have t: "spec_take 7 Buy (Ticks 5000) False 2 (ob_abs (ob_new Contiguous)) = ([], 2, spec_empty)" by (simp add: spec_empty_def) code_simp
  have "\<not> in_band (Ticks 5000)" by code_simp
  then show ?thesis
    using refusal_exact [OF ob_new_spec(1) t, of GTC] refusal_exact [OF ob_new_spec(1) t, of IOC] by simp
qed

section \<open>Pools\<close>

text \<open>A client's calls on a pool; a released pointer may be any address, or null.\<close>

datatype 'a PoolOp = Acquire 'a | Release "nat option" | Reset

fun pool_step :: "nat \<Rightarrow> nat \<Rightarrow> nat \<Rightarrow> nat \<Rightarrow> 'a PoolOp \<Rightarrow> 'a Pool \<Rightarrow> 'a Pool" where
  "pool_step base width alignment capacity (Acquire x) p = fst (try_acquire x p)"
| "pool_step base width alignment capacity (Release ptr) p = fst (pool_release base width alignment capacity ptr p)"
| "pool_step base width alignment capacity Reset p = pool_reset capacity p"

lemma pool_release_ok:
  assumes "pool_ok capacity p" "0 < width" "base mod alignment = 0" "width mod alignment = 0"
    and "pool_release base width alignment capacity ptr p = (p', ok)"
  shows "pool_ok capacity p'" "ok \<longleftrightarrow> (\<exists>idx. ptr = Some (slot_storage base width idx) \<and> idx \<in> dom (pl_slots p))"
    "ok \<Longrightarrow> \<exists>idx. ptr = Some (slot_storage base width idx) \<and> pl_slots p' = (pl_slots p)(idx := None)" "\<not> ok \<Longrightarrow> p' = p"
proof -
  have slot: "slot_index base width alignment capacity ptr = Some idx \<longleftrightarrow> idx < capacity \<and> ptr = Some (slot_storage base width idx)" for idx
    using slot_index_SomeD [of base width alignment capacity ptr idx] slot_index_storage [OF _ assms(2-4), of idx capacity] assms(2) by auto
  have dom: "idx < capacity" if "idx \<in> dom (pl_slots p)" for idx using assms(1) that by (auto simp: pool_ok_def)
  have inj: "slot_storage base width i = slot_storage base width j \<longleftrightarrow> i = j" for i j using assms(2) by (simp add: slot_storage_def)
  show "pool_ok capacity p'"
    using assms(1,5) release_slot_ok(1) [OF assms(1)] by (auto simp: pool_release_def split: option.splits)
  show "ok \<longleftrightarrow> (\<exists>idx. ptr = Some (slot_storage base width idx) \<and> idx \<in> dom (pl_slots p))"
  proof (cases "slot_index base width alignment capacity ptr")
    case None
    then show ?thesis using assms(5) slot dom by (fastforce simp: pool_release_def)
  next
    case (Some k)
    then show ?thesis using assms(5) slot [of k] release_slot_ok(2) [OF assms(1)] by (auto simp: pool_release_def inj)
  qed
  show "ok \<Longrightarrow> \<exists>idx. ptr = Some (slot_storage base width idx) \<and> pl_slots p' = (pl_slots p)(idx := None)"
    using assms(5) slot release_slot_ok(3) [OF assms(1)] by (auto simp: pool_release_def split: option.splits)
  show "\<not> ok \<Longrightarrow> p' = p" using assms(5) by (auto simp: pool_release_def release_slot_def split: option.splits if_splits)
qed

lemma pool_run_ok:
  assumes "0 < width" "base mod alignment = 0" "width mod alignment = 0" "pool_ok capacity p"
  shows "pool_ok capacity (fold (pool_step base width alignment capacity) ops p)"
  using assms(4)
proof (induction ops arbitrary: p)
  case (Cons op ops)
  have "pool_ok capacity (pool_step base width alignment capacity op p)"
    using Cons.prems try_acquire_ok(1) [OF Cons.prems] pool_release_ok(1) [OF Cons.prems assms(1-3)]
    by (cases op) (simp_all add: pool_reset_new prod_eq_iff)
  then show ?case using Cons.IH by simp
qed simp

text \<open>C37: After any sequence of acquires, releases of arbitrary pointers and resets, a pool whose
  slots are aligned accounts for every slot: live and free ones add up to its capacity. It refuses an acquire exactly when every slot is live and otherwise hands out one
  that is not; it releases exactly the live slots it owns, so a null, foreign, misaligned or already
  released pointer is refused and changes nothing.\<close>

theorem pool_never_aliases:
  assumes "0 < width" "base mod alignment = 0" "width mod alignment = 0"
    and "p = fold (pool_step base width alignment capacity) ops (pool_new capacity)"
    and "try_acquire x p = (pa, slot)" "pool_release base width alignment capacity ptr p = (pr, ok)"
  shows "pool_in_use capacity p = card (dom (pl_slots p)) \<and> pool_available p + pool_in_use capacity p = capacity \<and>
    (case slot of
       None \<Rightarrow> pa = p \<and> dom (pl_slots p) = {..<capacity}
     | Some idx \<Rightarrow> idx < capacity \<and> pl_slots p idx = None \<and> pl_slots pa = (pl_slots p)(idx \<mapsto> x)) \<and>
    (if \<exists>idx. ptr = Some (slot_storage base width idx) \<and> idx \<in> dom (pl_slots p)
     then ok \<and> (\<exists>idx. ptr = Some (slot_storage base width idx) \<and> pl_slots pr = (pl_slots p)(idx := None))
     else \<not> ok \<and> pr = p)"
proof -
  have pok: "pool_ok capacity p" unfolding assms(4) by (rule pool_run_ok [OF assms(1-3)]) simp
  note cnt = pool_ok_count [OF pok] and acq = try_acquire_ok [OF pok assms(5)] and rel = pool_release_ok [OF pok assms(1-3,6)]
  have sub: "dom (pl_slots p) \<subseteq> {..<capacity}" using pok by (auto simp: pool_ok_def)
  have full: "dom (pl_slots p) = {..<capacity}" if "pl_free_count p = 0"
    using sub that cnt by (intro card_subset_eq) simp_all
  have "case slot of None \<Rightarrow> pa = p \<and> dom (pl_slots p) = {..<capacity}
     | Some idx \<Rightarrow> idx < capacity \<and> pl_slots p idx = None \<and> pl_slots pa = (pl_slots p)(idx \<mapsto> x)"
    using acq(2,3) acq(4) full by (cases slot) auto
  then show ?thesis using cnt rel(2-4) by (auto simp: pool_in_use_def pool_available_def)
qed

theorem pool_never_aliases_witness:
  "(let p = fold (pool_step 1000 24 8 2) [Acquire (7 :: nat), Acquire 8, Release (Some 1024), Release (Some 1024)] (pool_new 2)
    in pool_in_use 2 p = 1 \<and> snd (try_acquire 9 p) = Some 1 \<and> \<not> snd (pool_release 1000 24 8 2 (Some 1024) p))"
proof -
  define p where "p = fold (pool_step 1000 24 8 2) [Acquire (7 :: nat), Acquire 8, Release (Some 1024), Release (Some 1024)] (pool_new 2)"
  have sl: "snd (try_acquire 9 p) = Some 1" "pl_slots p 1 = None" "pool_available p = 1" unfolding p_def by code_simp+
  have w: "(0 :: nat) < 24" "(1000 :: nat) mod 8 = 0" "(24 :: nat) mod 8 = 0" by simp_all
  note t = pool_never_aliases [OF w p_def prod.collapse [symmetric] prod.collapse [symmetric], of 9 "Some 1024"]
  have "slot_storage 1000 24 idx = 1024 \<longleftrightarrow> idx = 1" for idx by (auto simp: slot_storage_def)
  then have "\<not> snd (pool_release 1000 24 8 2 (Some 1024) p)" "pool_in_use 2 p = 1" using t sl(2,3) by (auto split: if_splits)
  then show ?thesis unfolding p_def [symmetric] Let_def using sl(1) by blast
qed

section \<open>Space\<close>

text \<open>The storages neither leak nor bloat. After any accepted run the pooled storage has one order
  slot and one node slot taken per resting order, and no level of the contiguous storage keeps more
  dead entries than live ones, or fifteen while it is small.\<close>

lemma storage_space_bounded:
  assumes "run_accepted ops (ob_new st)" "length ops < 2 ^ 31" "book_run ops (ob_new st) = (b, answers)"
  shows "case b of
      BaselineStorage s \<Rightarrow> bl_order_count s = length (bl_resting_orders s)
    | IntrusiveStorage s \<Rightarrow> pool_available (is_orders s) + in_order_count s = kIntrusivePoolCapacity \<and>
        pool_available (is_nodes s) + in_order_count s = kIntrusivePoolCapacity
    | ContiguousStorage s \<Rightarrow> (\<forall>side. \<forall>slot<kBandWidth. let level = bs_levels (side_ref side s) slot
        in length (fl_orders level) \<le> fl_alive level + max (fl_alive level) 15)"
proof -
  have small: "ob_order_count (ob_new st) + length ops < 2 ^ 31"
    using assms(2) ob.order_count_spec [of "ob_new st"] by (simp add: spec_empty_def spec_orders_def)
  have wf: "ob_wf b" using book_run_spec [OF ob_new_spec(1) assms(1) small] assms(3) by simp
  show ?thesis
  proof (cases b)
    case (BaselineStorage s)
    then show ?thesis using wf by (simp add: bl.order_count_spec bl.resting_orders_spec)
  next
    case (IntrusiveStorage s)
    then show ?thesis using wf in_wfD(3) [of s] by (simp add: pools_ok_def pool_available_def)
  next
    case (ContiguousStorage s)
    then have "ct_wf s" using wf by simp
    then have "flat_ok (bs_levels (side_ref side s) slot)" if "slot < 1024" for side slot
      using that side_okD(2) [OF ct_wfD(2)] side_okD(2) [OF ct_wfD(3)] by (simp add: side_ref_def)
    moreover have "length (fl_orders level) \<le> fl_alive level + max (fl_alive level) 15" if "flat_ok level" for level
      using that unfolding flat_ok_def by linarith
    ultimately show ?thesis by (simp add: ContiguousStorage Let_def)
  qed
qed

end
