(* ===== verification/Fix_Protocol.thy ===== *)
theory Fix_Protocol
  imports Codec Decimal
begin

text \<open>
  The FIX-like text protocol of \<^verbatim>\<open>src/protocol/fix.cpp\<close> and \<^verbatim>\<open>include/qsl/protocol/fix.hpp\<close>: splitting a
  message into fields, the checks of its envelope, the typed readers, the encoders and decoders.
  A message is a string; the conversions between numbers and text are those of \<^verbatim>\<open>Decimal\<close>.
\<close>

section \<open>Constants and errors (fix.hpp)\<close>

definition kSoh :: char where "kSoh = CHR 0x01"
definition kBeginString :: string where "kBeginString = ''FIX.4.2''"
definition kMaxMessageLen :: nat where "kMaxMessageLen = 1024"
definition kMsgNewOrderSingle :: char where "kMsgNewOrderSingle = CHR ''D''"
definition kMsgOrderCancelRequest :: char where "kMsgOrderCancelRequest = CHR ''F''"

datatype FixError =
    FixNone | FixMalformed | FixUnsupportedBeginString | FixUnknownMsgType | FixMissingField | FixInvalidField
  | FixBodyLengthMismatch | FixChecksumMismatch | FixInvalidEnumValue | FixOutOfRange

fun fix_error_to_string :: "FixError \<Rightarrow> string" where
  "fix_error_to_string FixNone = ''None''"
| "fix_error_to_string FixMalformed = ''Malformed''"
| "fix_error_to_string FixUnsupportedBeginString = ''UnsupportedBeginString''"
| "fix_error_to_string FixUnknownMsgType = ''UnknownMsgType''"
| "fix_error_to_string FixMissingField = ''MissingField''"
| "fix_error_to_string FixInvalidField = ''InvalidField''"
| "fix_error_to_string FixBodyLengthMismatch = ''BodyLengthMismatch''"
| "fix_error_to_string FixChecksumMismatch = ''ChecksumMismatch''"
| "fix_error_to_string FixInvalidEnumValue = ''InvalidEnumValue''"
| "fix_error_to_string FixOutOfRange = ''OutOfRange''"

record 'a FixDecodeResult =
  fx_error :: FixError
  fx_value :: 'a

definition fx_ok :: "'a FixDecodeResult \<Rightarrow> bool" where
  "fx_ok r \<longleftrightarrow> fx_error r = FixNone"

section \<open>Fields\<close>

type_synonym FixTag = "32 word"

definition kTagBeginString :: FixTag where "kTagBeginString = 8"
definition kTagBodyLength :: FixTag where "kTagBodyLength = 9"
definition kTagCheckSum :: FixTag where "kTagCheckSum = 10"
definition kTagClOrdID :: FixTag where "kTagClOrdID = 11"
definition kTagMsgSeqNum :: FixTag where "kTagMsgSeqNum = 34"
definition kTagMsgType :: FixTag where "kTagMsgType = 35"
definition kTagOrderQty :: FixTag where "kTagOrderQty = 38"
definition kTagOrdType :: FixTag where "kTagOrdType = 40"
definition kTagOrigClOrdID :: FixTag where "kTagOrigClOrdID = 41"
definition kTagPrice :: FixTag where "kTagPrice = 44"
definition kTagSide :: FixTag where "kTagSide = 54"
definition kTagSymbol :: FixTag where "kTagSymbol = 55"
definition kTagTimeInForce :: FixTag where "kTagTimeInForce = 59"

definition kMaxFields :: nat where "kMaxFields = 32"

record Field =
  fd_tag :: FixTag
  fd_value :: string
  fd_start :: nat

text \<open>\<^verbatim>\<open>Parsed\<close>: the first \<^verbatim>\<open>count\<close> entries of the field table.\<close>

type_synonym Parsed = "Field list"

definition parse_int :: "(string \<Rightarrow> 'a from_chars) \<Rightarrow> string \<Rightarrow> 'a option" where
  "parse_int conv sv =
     (if sv = [] then None
      else case conv sv of Converted v rest \<Rightarrow> if rest = [] then Some v else None | _ \<Rightarrow> None)"

definition find_field :: "Parsed \<Rightarrow> FixTag \<Rightarrow> Field option" where
  "find_field p tag = find (\<lambda>f. fd_tag f = tag) p"

section \<open>Splitting a message\<close>

text \<open>\<^verbatim>\<open>string_view::find(c, pos)\<close> and \<^verbatim>\<open>substr(pos, n)\<close>.\<close>

definition sv_find :: "char \<Rightarrow> nat \<Rightarrow> string \<Rightarrow> nat option" where
  "sv_find c pos msg =
     (let i = pos + length (takeWhile (\<lambda>x. x \<noteq> c) (drop pos msg)) in if i < length msg then Some i else None)"

definition sv_substr :: "nat \<Rightarrow> nat \<Rightarrow> string \<Rightarrow> string" where
  "sv_substr pos n msg = take n (drop pos msg)"

lemma sv_find_SomeD: "sv_find c pos msg = Some i \<Longrightarrow> pos \<le> i \<and> i < length msg"
  by (auto simp: sv_find_def Let_def split: if_splits)

function tokenize :: "string \<Rightarrow> nat \<Rightarrow> Parsed \<Rightarrow> FixError \<times> Parsed" where
  "tokenize msg pos out =
     (if pos < length msg then
        case sv_find kSoh pos msg of
          None \<Rightarrow> (FixMalformed, out)
        | Some soh \<Rightarrow>
            (case sv_find (CHR ''='') pos msg of
               None \<Rightarrow> (FixMalformed, out)
             | Some eq \<Rightarrow>
                 if eq \<ge> soh then (FixMalformed, out)
                 else
                   (case parse_int from_chars_unsigned (sv_substr pos (eq - pos) msg) of
                      None \<Rightarrow> (FixMalformed, out)
                    | Some tag \<Rightarrow>
                        if length out \<ge> kMaxFields then (FixMalformed, out)
                        else if find_field out tag \<noteq> None then (FixMalformed, out)
                        else tokenize msg (soh + 1)
                               (out @ [\<lparr>fd_tag = tag, fd_value = sv_substr (eq + 1) (soh - (eq + 1)) msg, fd_start = pos\<rparr>])))
      else (FixNone, out))"
  by pat_completeness auto
termination
  by (relation "measure (\<lambda>(msg, pos, _). length msg - pos)") (auto dest: sv_find_SomeD)

declare tokenize.simps [simp del]

definition check_envelope_shape :: "Parsed \<Rightarrow> FixError" where
  "check_envelope_shape p =
     (if length p < 3 then FixMalformed
      else
        let begin = p ! 0;
            ordered = (fd_tag begin = kTagBeginString \<and> fd_tag (p ! 1) = kTagBodyLength \<and> fd_tag (p ! 2) = kTagMsgType \<and>
                       fd_tag (p ! (length p - 1)) = kTagCheckSum)
        in if \<not> ordered then FixMalformed
           else if fd_value begin = kBeginString then FixNone else FixUnsupportedBeginString)"

definition byte_sum :: "string \<Rightarrow> 32 word" where
  "byte_sum s = foldl (\<lambda>sum c. sum + of_char c) 0 s"

definition verify_length_and_checksum :: "string \<Rightarrow> Parsed \<Rightarrow> FixError" where
  "verify_length_and_checksum msg p =
     (let f_csum = p ! (length p - 1);
          checksum_start = fd_start f_csum
      in case parse_int (from_chars_unsigned :: string \<Rightarrow> 64 word from_chars) (fd_value (p ! 1)) of
           None \<Rightarrow> FixInvalidField
         | Some body_len \<Rightarrow>
             if unat body_len \<noteq> checksum_start - fd_start (p ! 2) then FixBodyLengthMismatch
             else
               (case (if length (fd_value f_csum) \<noteq> 3 then None
                      else parse_int (from_chars_unsigned :: string \<Rightarrow> 32 word from_chars) (fd_value f_csum)) of
                  None \<Rightarrow> FixInvalidField
                | Some declared \<Rightarrow>
                    if byte_sum (take checksum_start msg) AND 0xFF = declared then FixNone else FixChecksumMismatch))"

definition parse_envelope :: "string \<Rightarrow> FixError \<times> Parsed" where
  "parse_envelope msg =
     (if msg = [] \<or> length msg > kMaxMessageLen then (FixMalformed, [])
      else
        let (e, out) = tokenize msg 0 []
        in if e \<noteq> FixNone then (e, out)
           else let e = check_envelope_shape out
                in if e \<noteq> FixNone then (e, out) else (verify_length_and_checksum msg out, out))"

section \<open>Reading fields\<close>

text \<open>The target keeps its value when a read fails.\<close>

definition require_int :: "(string \<Rightarrow> 'a from_chars) \<Rightarrow> Parsed \<Rightarrow> FixTag \<Rightarrow> 'a \<Rightarrow> FixError \<times> 'a" where
  "require_int conv p tag out =
     (case find_field p tag of
        None \<Rightarrow> (FixMissingField, out)
      | Some f \<Rightarrow>
          if fd_value f = [] then (FixInvalidField, out)
          else
            (case conv (fd_value f) of
               ResultOutOfRange \<Rightarrow> (FixOutOfRange, out)
             | InvalidArgument \<Rightarrow> (FixInvalidField, out)
             | Converted v rest \<Rightarrow> if rest \<noteq> [] then (FixInvalidField, v) else (FixNone, v)))"

definition require_code :: "Parsed \<Rightarrow> FixTag \<Rightarrow> char \<Rightarrow> FixError \<times> char" where
  "require_code p tag out =
     (case find_field p tag of
        None \<Rightarrow> (FixMissingField, out)
      | Some f \<Rightarrow> if length (fd_value f) \<noteq> 1 then (FixInvalidEnumValue, out) else (FixNone, hd (fd_value f)))"

definition expect_msg_type :: "Parsed \<Rightarrow> char \<Rightarrow> FixError" where
  "expect_msg_type p expected =
     (case find_field p kTagMsgType of
        None \<Rightarrow> FixUnknownMsgType
      | Some type \<Rightarrow>
          if length (fd_value type) \<noteq> 1 then FixUnknownMsgType
          else if hd (fd_value type) = expected then FixNone else FixUnknownMsgType)"

record FieldReader =
  fr_p :: Parsed
  fr_err :: FixError

definition fr_integer :: "(string \<Rightarrow> 'a from_chars) \<Rightarrow> FixTag \<Rightarrow> 'a \<Rightarrow> FieldReader \<Rightarrow> FieldReader \<times> 'a" where
  "fr_integer conv tag out r =
     (if fr_err r = FixNone then let (e, out) = require_int conv (fr_p r) tag out in (r\<lparr>fr_err := e\<rparr>, out)
      else (r, out))"

definition fr_coded :: "FixTag \<Rightarrow> 'e \<Rightarrow> (char \<times> 'e) list \<Rightarrow> FieldReader \<Rightarrow> FieldReader \<times> 'e" where
  "fr_coded tag out table r =
     (if fr_err r \<noteq> FixNone then (r, out)
      else
        let (e, code) = require_code (fr_p r) tag (CHR 0x00); r = r\<lparr>fr_err := e\<rparr>
        in if e \<noteq> FixNone then (r, out)
           else (case find (\<lambda>entry. fst entry = code) table of
                   Some entry \<Rightarrow> (r, snd entry)
                 | None \<Rightarrow> (r\<lparr>fr_err := FixInvalidEnumValue\<rparr>, out)))"

section \<open>Encoding\<close>

definition append_field :: "string \<Rightarrow> FixTag \<Rightarrow> string \<Rightarrow> string" where
  "append_field dst tag val = dst @ string_of_word tag @ [CHR ''=''] @ val @ [kSoh]"

definition append_field_u64 :: "string \<Rightarrow> FixTag \<Rightarrow> 64 word \<Rightarrow> string" where
  "append_field_u64 dst tag val = append_field dst tag (string_of_word val)"

definition frame :: "string \<Rightarrow> string" where
  "frame body =
     (let head = ''8='' @ kBeginString @ [kSoh] @ ''9='' @ string_of_nat (length body) @ [kSoh] @ body;
          cs = byte_sum head mod 256;
          csum = [digit_char (unat (cs div 100 mod 10)), digit_char (unat (cs div 10 mod 10)), digit_char (unat (cs mod 10))]
      in head @ ''10='' @ csum @ [kSoh])"

definition fix_encode_new_order :: "NewOrder \<Rightarrow> SeqNo \<Rightarrow> string" where
  "fix_encode_new_order msg seq =
     (let body = append_field [] kTagMsgType [kMsgNewOrderSingle];
          body = append_field_u64 body kTagMsgSeqNum seq;
          body = append_field_u64 body kTagClOrdID (no_order_id msg);
          body = append_field_u64 body kTagSymbol (ucast (no_symbol msg));
          body = append_field body kTagSide (if no_side msg = Buy then ''1'' else ''2'');
          body = append_field_u64 body kTagOrderQty (ucast (no_quantity msg));
          body = append_field body kTagOrdType (if no_type msg = Market then ''1'' else ''2'');
          body = append_field body kTagPrice (string_of_int (sint (ticks (no_price msg))));
          body = append_field body kTagTimeInForce (if no_tif msg = GTC then ''1'' else ''3'')
      in frame body)"

definition fix_encode_cancel_order :: "CancelOrder \<Rightarrow> SeqNo \<Rightarrow> string" where
  "fix_encode_cancel_order msg seq =
     (let body = append_field [] kTagMsgType [kMsgOrderCancelRequest];
          body = append_field_u64 body kTagMsgSeqNum seq;
          body = append_field_u64 body kTagOrigClOrdID (co_order_id msg);
          body = append_field_u64 body kTagClOrdID (co_order_id msg);
          body = append_field_u64 body kTagSymbol (ucast (co_symbol msg))
      in frame body)"

section \<open>Decoding\<close>

definition decode_typed :: "string \<Rightarrow> char \<Rightarrow> 'a \<Rightarrow> (FieldReader \<Rightarrow> 'a \<Rightarrow> FieldReader \<times> 'a) \<Rightarrow> 'a FixDecodeResult" where
  "decode_typed msg expected zero fill =
     (let (e, p) = parse_envelope msg
      in if e \<noteq> FixNone then \<lparr>fx_error = e, fx_value = zero\<rparr>
         else
           let e = expect_msg_type p expected
           in if e \<noteq> FixNone then \<lparr>fx_error = e, fx_value = zero\<rparr>
              else
                let (reader, out) = fill \<lparr>fr_p = p, fr_err = FixNone\<rparr> zero
                in if fr_err reader \<noteq> FixNone then \<lparr>fx_error = fr_err reader, fx_value = zero\<rparr>
                   else \<lparr>fx_error = FixNone, fx_value = out\<rparr>)"

definition from_chars_price :: "string \<Rightarrow> Price from_chars" where
  "from_chars_price s = map_from_chars Ticks (from_chars_signed s)"

definition fill_new_order :: "FieldReader \<Rightarrow> NewOrder \<Rightarrow> FieldReader \<times> NewOrder" where
  "fill_new_order r out =
     (let sides = [(CHR ''1'', Buy), (CHR ''2'', Sell)];
          types = [(CHR ''1'', Market), (CHR ''2'', Limit)];
          tifs = [(CHR ''1'', GTC), (CHR ''3'', IOC)];
          (r, seq) = fr_integer from_chars_unsigned kTagMsgSeqNum (0 :: SeqNo) r;
          (r, order_id) = fr_integer from_chars_unsigned kTagClOrdID (no_order_id out) r;
          (r, symbol) = fr_integer from_chars_unsigned kTagSymbol (no_symbol out) r;
          (r, quantity) = fr_integer from_chars_unsigned kTagOrderQty (no_quantity out) r;
          (r, price) = fr_integer from_chars_price kTagPrice (no_price out) r;
          (r, side) = fr_coded kTagSide (no_side out) sides r;
          (r, type) = fr_coded kTagOrdType (no_type out) types r;
          (r, tif) = fr_coded kTagTimeInForce (no_tif out) tifs r
      in (r, \<lparr>no_order_id = order_id, no_symbol = symbol, no_price = price, no_quantity = quantity, no_side = side,
              no_type = type, no_tif = tif\<rparr>))"

definition fix_decode_new_order :: "string \<Rightarrow> NewOrder FixDecodeResult" where
  "fix_decode_new_order msg = decode_typed msg kMsgNewOrderSingle new_order_zero fill_new_order"

definition fill_cancel_order :: "FieldReader \<Rightarrow> CancelOrder \<Rightarrow> FieldReader \<times> CancelOrder" where
  "fill_cancel_order r out =
     (let (r, seq) = fr_integer from_chars_unsigned kTagMsgSeqNum (0 :: SeqNo) r;
          (r, order_id) = fr_integer from_chars_unsigned kTagOrigClOrdID (co_order_id out) r;
          (r, clord_id) = fr_integer from_chars_unsigned kTagClOrdID (0 :: OrderId) r;
          (r, symbol) = fr_integer from_chars_unsigned kTagSymbol (co_symbol out) r
      in (r, \<lparr>co_order_id = order_id, co_symbol = symbol\<rparr>))"

definition fix_decode_cancel_order :: "string \<Rightarrow> CancelOrder FixDecodeResult" where
  "fix_decode_cancel_order msg = decode_typed msg kMsgOrderCancelRequest cancel_order_zero fill_cancel_order"

definition peek_msg_type :: "string \<Rightarrow> char FixDecodeResult" where
  "peek_msg_type msg =
     (let (e, p) = parse_envelope msg
      in if e \<noteq> FixNone then \<lparr>fx_error = e, fx_value = CHR 0x00\<rparr>
         else
           (case find_field p kTagMsgType of
              None \<Rightarrow> \<lparr>fx_error = FixUnknownMsgType, fx_value = CHR 0x00\<rparr>
            | Some type \<Rightarrow>
                if length (fd_value type) \<noteq> 1 then \<lparr>fx_error = FixUnknownMsgType, fx_value = CHR 0x00\<rparr>
                else \<lparr>fx_error = FixNone, fx_value = hd (fd_value type)\<rparr>))"

definition peek_seq :: "string \<Rightarrow> SeqNo FixDecodeResult" where
  "peek_seq msg =
     (let (e, p) = parse_envelope msg
      in if e \<noteq> FixNone then \<lparr>fx_error = e, fx_value = 0\<rparr>
         else
           let (e, seq) = require_int from_chars_unsigned p kTagMsgSeqNum 0
           in if e \<noteq> FixNone then \<lparr>fx_error = e, fx_value = 0\<rparr> else \<lparr>fx_error = FixNone, fx_value = seq\<rparr>)"

end
