(* ===== verification/Fix_Correct.thy ===== *)
theory Fix_Correct
  imports Fix_Protocol
begin

text \<open>
  Facts on the text protocol: how a rendered list of fields is split again, that an encoded message
  passes the checks of the envelope and reads back field by field, and what a message that passes
  them looks like after one of its bytes has changed.
\<close>

section \<open>Rendered fields\<close>

definition render :: "FixTag \<times> string \<Rightarrow> string" where
  "render fv = string_of_word (fst fv) @ [CHR ''=''] @ snd fv @ [kSoh]"

definition rendered :: "(FixTag \<times> string) list \<Rightarrow> string" where
  "rendered fs = concat (map render fs)"

lemma rendered_simps [simp]: "rendered [] = []" "rendered (f # fs) = render f @ rendered fs" "rendered (fs @ gs) = rendered fs @ rendered gs"
  by (simp_all add: rendered_def)

fun fields_at :: "nat \<Rightarrow> (FixTag \<times> string) list \<Rightarrow> Parsed" where
  "fields_at pos [] = []"
| "fields_at pos (f # fs) = \<lparr>fd_tag = fst f, fd_value = snd f, fd_start = pos\<rparr> # fields_at (pos + length (render f)) fs"

lemma fields_at_append: "fields_at pos (fs @ gs) = fields_at pos fs @ fields_at (pos + length (rendered fs)) gs"
  by (induction fs arbitrary: pos) (simp_all add: add.assoc)

lemma length_fields_at [simp]: "length (fields_at pos fs) = length fs"
  by (induction fs arbitrary: pos) simp_all

lemma tags_fields_at [simp]: "map fd_tag (fields_at pos fs) = map fst fs"
  by (induction fs arbitrary: pos) simp_all

lemma find_field_None: "find_field p tag = None \<longleftrightarrow> tag \<notin> fd_tag ` set p"
  by (auto simp: find_field_def find_None_iff)

lemma find_field_fields_at: "map_option fd_value (find_field (fields_at pos fs) tag) = map_of fs tag"
  by (induction fs arbitrary: pos) (auto simp: find_field_def)

section \<open>Digits and separators\<close>

lemma digit_not_sep: "is_digit c \<Longrightarrow> c \<noteq> kSoh \<and> c \<noteq> CHR ''=''"
  by (auto simp: is_digit_def kSoh_def)

lemma set_string_of_nat: "c \<in> set (string_of_nat n) \<Longrightarrow> is_digit c"
  using string_of_nat_digits [of n] by (simp add: list_all_iff)

lemma nat_no_sep [simp]: "kSoh \<notin> set (string_of_nat n)" "CHR ''='' \<notin> set (string_of_nat n)"
  using set_string_of_nat digit_not_sep by blast+

lemma word_no_sep [simp]: "kSoh \<notin> set (string_of_word w)" "CHR ''='' \<notin> set (string_of_word w)"
  by (simp_all add: string_of_word_def)

lemma int_no_soh [simp]: "kSoh \<notin> set (string_of_int i)"
  by (simp add: string_of_int_def) (simp add: kSoh_def)

lemma sep_neq [simp]: "kSoh \<noteq> CHR ''=''" "CHR ''='' \<noteq> kSoh"
  by (simp_all add: kSoh_def)

lemma string_of_word_Nil [simp]: "string_of_word w \<noteq> []"
  by (simp add: string_of_word_def)

lemma parse_int_word [simp]: "parse_int from_chars_unsigned (string_of_word w) = Some (w :: 'a::len word)"
  using from_chars_unsigned_round_trip [of "[]" w] by (simp add: parse_int_def)

section \<open>Splitting what was rendered\<close>

lemma sv_find_split:
  assumes "c \<notin> set xs"
  shows "sv_find c (length pre) (pre @ xs @ c # ys) = Some (length pre + length xs)"
proof -
  have "takeWhile (\<lambda>x. x \<noteq> c) (xs @ c # ys) = xs" using assms by (subst takeWhile_append2) auto
  then show ?thesis by (simp add: sv_find_def)
qed

lemma tokenize_field:
  assumes "kSoh \<notin> set v" "length out < kMaxFields" "t \<notin> fd_tag ` set out"
  shows "tokenize (pre @ render (t, v) @ rest) (length pre) out =
    tokenize (pre @ render (t, v) @ rest) (length pre + length (render (t, v)))
      (out @ [\<lparr>fd_tag = t, fd_value = v, fd_start = length pre\<rparr>])"
proof -
  let ?t = "string_of_word t"
  define msg where "msg = pre @ render (t, v) @ rest"
  have m1: "msg = pre @ (?t @ CHR ''='' # v) @ kSoh # rest" and m2: "msg = pre @ ?t @ CHR ''='' # v @ kSoh # rest"
    by (simp_all add: msg_def render_def)
  have soh: "sv_find kSoh (length pre) msg = Some (length pre + length (?t @ CHR ''='' # v))"
    unfolding m1 by (rule sv_find_split) (use assms(1) in simp)
  have eq: "sv_find (CHR ''='') (length pre) msg = Some (length pre + length ?t)"
    unfolding m2 by (rule sv_find_split) simp
  have sub: "sv_substr (length pre) (length ?t) msg = ?t" "sv_substr (Suc (length pre + length ?t)) (length v) msg = v" "length pre < length msg"
    by (simp_all add: m2 sv_substr_def)
  have "tokenize msg (length pre) out =
      tokenize msg (length pre + length (render (t, v))) (out @ [\<lparr>fd_tag = t, fd_value = v, fd_start = length pre\<rparr>])"
    using assms(2,3) sub by (subst tokenize.simps) (simp add: soh eq find_field_None render_def)
  then show ?thesis by (simp add: msg_def)
qed

lemma tokenize_rendered:
  assumes "\<forall>f\<in>set fs. kSoh \<notin> set (snd f)" "length out + length fs \<le> kMaxFields" "distinct (map fd_tag out @ map fst fs)"
  shows "tokenize (pre @ rendered fs) (length pre) out = (FixNone, out @ fields_at (length pre) fs)"
  using assms
proof (induction fs arbitrary: pre out)
  case Nil
  then show ?case by (simp add: tokenize.simps)
next
  case (Cons f fs)
  obtain t v where f: "f = (t, v)" by (cases f)
  have c: "kSoh \<notin> set v" "length out < kMaxFields" "t \<notin> fd_tag ` set out" using Cons.prems by (auto simp: f)
  let ?out = "out @ [\<lparr>fd_tag = t, fd_value = v, fd_start = length pre\<rparr>]"
  have "tokenize ((pre @ render f) @ rendered fs) (length (pre @ render f)) ?out = (FixNone, ?out @ fields_at (length (pre @ render f)) fs)"
    by (rule Cons.IH) (use Cons.prems in \<open>auto simp: f\<close>)
  then show ?case using tokenize_field [OF c, of pre "rendered fs"] by (simp add: f)
qed

section \<open>The envelope\<close>

lemma byte_sum_and: "(w :: 32 word) AND 0xFF = w mod 256"
  using take_bit_eq_mod [of 8 w] take_bit_eq_mask [of 8 w] by (simp add: mask_eq_exp_minus_1)

lemma checksum_digits:
  assumes "c < (256 :: 32 word)"
  shows "parse_int from_chars_unsigned [digit_char (unat (c div 100 mod 10)), digit_char (unat (c div 10 mod 10)), digit_char (unat (c mod 10))] = Some c"
proof -
  let ?n = "unat c"
  have d: "unat (c div 100 mod 10) = ?n div 100 mod 10" "unat (c div 10 mod 10) = ?n div 10 mod 10" "unat (c mod 10) = ?n mod 10"
    by (simp_all add: unat_div unat_mod)
  have n: "?n < 256" using assms by (simp add: word_less_nat_alt)
  have "?n div 10 = 10 * (?n div 100) + ?n div 10 mod 10" using div_mult_mod_eq [of "?n div 10" 10] by (simp add: div_mult2_eq [symmetric])
  moreover have "?n = 10 * (?n div 10) + ?n mod 10" by simp
  ultimately have "100 * (?n div 100) + 10 * (?n div 10 mod 10) + ?n mod 10 = ?n" by linarith
  moreover have "?n div 100 mod 10 = ?n div 100" using n by simp
  ultimately have "nat_of_digits [digit_char (?n div 100 mod 10), digit_char (?n div 10 mod 10), digit_char (?n mod 10)] = ?n"
    by (simp add: nat_of_digits_def)
  then show ?thesis unfolding d using n by (simp add: parse_int_def from_chars_unsigned_def)
qed

definition checksum_text :: "string \<Rightarrow> string" where
  "checksum_text head =
     (let cs = byte_sum head mod 256
      in [digit_char (unat (cs div 100 mod 10)), digit_char (unat (cs div 10 mod 10)), digit_char (unat (cs mod 10))])"

lemma frame_rendered:
  "frame (rendered bfs) =
     (let hfs = (kTagBeginString, kBeginString) # (kTagBodyLength, string_of_nat (length (rendered bfs))) # bfs
      in rendered (hfs @ [(kTagCheckSum, checksum_text (rendered hfs))]))"
proof -
  have t: "string_of_word kTagBeginString = ''8''" "string_of_word kTagBodyLength = ''9''" "string_of_word kTagCheckSum = ''10''"
    by code_simp+
  show ?thesis by (simp add: frame_def render_def t Let_def checksum_text_def)
qed

lemma string_of_nat_length: "n < 10 ^ Suc k \<Longrightarrow> length (string_of_nat n) \<le> Suc k"
proof (induction k arbitrary: n)
  case 0
  then show ?case by (subst string_of_nat.simps) simp
next
  case (Suc k)
  then have "n div 10 < 10 ^ Suc k" by (simp add: less_mult_imp_div_less)
  then show ?case using Suc.IH [of "n div 10"] by (cases "n < 10") (simp_all add: string_of_nat.simps [of n])
qed

lemma string_of_word_length: "length (string_of_word (w :: 64 word)) \<le> 20"
  using string_of_nat_length [of "unat w" 19] unsigned_less [of w, where ?'a = nat] by (simp add: string_of_word_def)

lemma string_of_int_length: "length (string_of_int (sint (w :: 64 word))) \<le> 20"
proof -
  have "nat \<bar>sint w\<bar> \<le> 2 ^ 63" using sint_range_size [of w] by (simp add: word_size nat_le_iff abs_le_iff)
  then have "nat \<bar>sint w\<bar> < 10 ^ Suc 18" by (rule le_less_trans) simp
  from string_of_nat_length [OF this] show ?thesis by (auto simp: string_of_int_def)
qed

definition value_of :: "Parsed \<Rightarrow> FixTag \<Rightarrow> string option" where
  "value_of p tag = map_option fd_value (find_field p tag)"

definition body_ok :: "(FixTag \<times> string) list \<Rightarrow> bool" where
  "body_ok bfs \<longleftrightarrow> (\<exists>v rest. bfs = (kTagMsgType, v) # rest \<and> rest \<noteq> []) \<and> (\<forall>f\<in>set bfs. kSoh \<notin> set (snd f)) \<and> length bfs \<le> 29 \<and>
     distinct (map fst bfs) \<and> fst ` set bfs \<inter> {kTagBeginString, kTagBodyLength, kTagCheckSum} = {} \<and> length (rendered bfs) \<le> 900"

lemma parse_envelope_frame:
  assumes "body_ok bfs"
  obtains p where "parse_envelope (frame (rendered bfs)) = (FixNone, p)"
    "\<And>tag. tag \<notin> {kTagBeginString, kTagBodyLength, kTagCheckSum} \<Longrightarrow> value_of p tag = map_of bfs tag"
proof -
  define body where "body = rendered bfs"
  define hfs where "hfs = (kTagBeginString, kBeginString) # (kTagBodyLength, string_of_nat (length body)) # bfs"
  define cs where "cs = checksum_text (rendered hfs)"
  define fs where "fs = hfs @ [(kTagCheckSum, cs)]"
  define p where "p = fields_at 0 fs"
  have msg: "frame body = rendered fs" using frame_rendered [of bfs] by (simp add: body_def hfs_def fs_def cs_def Let_def)
  have body: "length body \<le> 900" using assms by (simp add: body_ok_def body_def)
  have csl: "length cs = 3" "kSoh \<notin> set cs"
  proof -
    have "kSoh \<noteq> digit_char (unat (c mod 10))" for c :: "32 word"
      using digit_not_sep [OF digit_char_simps(1), of "unat (c mod 10)"] by (auto simp: unat_mod)
    then show "length cs = 3" "kSoh \<notin> set cs" by (simp_all add: cs_def checksum_text_def Let_def)
  qed
  have tags: "kTagBeginString \<noteq> kTagBodyLength" "kTagBeginString \<noteq> kTagCheckSum" "kTagBodyLength \<noteq> kTagCheckSum"
    by (simp_all add: kTagBeginString_def kTagBodyLength_def kTagCheckSum_def)
  have dist: "distinct (map fst fs)" using assms tags by (auto simp: fs_def hfs_def body_ok_def)
  have soh: "\<forall>f\<in>set fs. kSoh \<notin> set (snd f)"
    using assms csl(2) by (auto simp: fs_def hfs_def body_ok_def kBeginString_def) (simp_all add: kSoh_def)
  have len: "length fs \<le> 32" using assms by (simp add: fs_def hfs_def body_ok_def)
  have tok: "tokenize (rendered fs) 0 [] = (FixNone, p)"
    using tokenize_rendered [of fs "[]" "[]"] soh len dist by (simp add: kMaxFields_def p_def)
  have l9: "length (string_of_nat (length body)) \<le> 3" using string_of_nat_length [of "length body" 2] body by simp
  have t1: "length (string_of_word kTagBeginString) = 1" "length (string_of_word kTagBodyLength) = 1" "length (string_of_word kTagCheckSum) = 2"
    by code_simp+
  have size: "rendered fs \<noteq> []" "length (rendered fs) \<le> 1024"
    using body l9 csl(1) t1 by (simp_all add: fs_def hfs_def render_def body_def [symmetric] kBeginString_def)
  obtain v rest where bfs: "bfs = (kTagMsgType, v) # rest" using assms by (auto simp: body_ok_def)
  have len': "length p = length bfs + 3" by (simp add: p_def fs_def hfs_def)
  have p: "p ! 0 = \<lparr>fd_tag = kTagBeginString, fd_value = kBeginString, fd_start = 0\<rparr>"
      "fd_tag (p ! Suc 0) = kTagBodyLength" "fd_value (p ! Suc 0) = string_of_nat (length body)" "fd_tag (p ! 2) = kTagMsgType"
      "p ! (length p - Suc 0) = \<lparr>fd_tag = kTagCheckSum, fd_value = cs, fd_start = length (rendered hfs)\<rparr>"
      "length (rendered hfs) = fd_start (p ! 2) + length body"
    by (simp_all add: len' p_def fs_def fields_at_append nth_append) (simp_all add: hfs_def bfs body_def)
  have "\<not> length p < 3" by (simp add: len')
  then have shape: "check_envelope_shape p = FixNone" unfolding check_envelope_shape_def by (simp add: p)
  have "byte_sum (rendered hfs) mod 256 < 256" by (simp add: word_less_nat_alt unat_mod)
  then have csum: "parse_int (from_chars_unsigned :: string \<Rightarrow> 32 word from_chars) cs = Some (byte_sum (rendered hfs) AND 0xFF)"
    unfolding cs_def checksum_text_def Let_def byte_sum_and by (rule checksum_digits)
  have wl: "parse_int (from_chars_unsigned :: string \<Rightarrow> 64 word from_chars) (string_of_nat (length body)) = Some (of_nat (length body))"
    using parse_int_word [of "of_nat (length body) :: 64 word"] body by (simp add: string_of_word_def unat_of_nat)
  have take: "take (fd_start (p ! 2) + length body) (rendered fs) = rendered hfs" by (simp only: p(6) [symmetric]) (simp add: fs_def)
  have "verify_length_and_checksum (rendered fs) p = FixNone"
    using body by (simp add: verify_length_and_checksum_def p wl csum take csl(1) unat_of_nat)
  then have "parse_envelope (frame body) = (FixNone, p)"
    using size tok shape by (simp add: parse_envelope_def msg kMaxMessageLen_def)
  moreover have "value_of p tag = map_of bfs tag" if "tag \<notin> {kTagBeginString, kTagBodyLength, kTagCheckSum}" for tag
    using that unfolding p_def value_of_def find_field_fields_at by (simp add: fs_def hfs_def map_add_def split: option.splits)
  ultimately show thesis using that by (simp add: body_def)
qed

lemma require_int_value:
  "require_int conv p tag out =
     (case value_of p tag of
        None \<Rightarrow> (FixMissingField, out)
      | Some v \<Rightarrow>
          if v = [] then (FixInvalidField, out)
          else (case conv v of
                  ResultOutOfRange \<Rightarrow> (FixOutOfRange, out)
                | InvalidArgument \<Rightarrow> (FixInvalidField, out)
                | Converted x rest \<Rightarrow> if rest \<noteq> [] then (FixInvalidField, x) else (FixNone, x)))"
  by (auto simp: require_int_def value_of_def split: option.splits)

lemma require_code_value:
  "require_code p tag out =
     (case value_of p tag of
        None \<Rightarrow> (FixMissingField, out)
      | Some v \<Rightarrow> if length v \<noteq> 1 then (FixInvalidEnumValue, out) else (FixNone, hd v))"
  by (auto simp: require_code_def value_of_def split: option.splits)

lemma expect_msg_type_value:
  "expect_msg_type p expected =
     (case value_of p kTagMsgType of
        None \<Rightarrow> FixUnknownMsgType
      | Some v \<Rightarrow> if length v \<noteq> 1 then FixUnknownMsgType else if hd v = expected then FixNone else FixUnknownMsgType)"
  by (auto simp: expect_msg_type_def value_of_def split: option.splits)

lemmas kTag_defs = kTagBeginString_def kTagBodyLength_def kTagCheckSum_def kTagClOrdID_def kTagMsgSeqNum_def kTagMsgType_def
  kTagOrderQty_def kTagOrdType_def kTagOrigClOrdID_def kTagPrice_def kTagSide_def kTagSymbol_def kTagTimeInForce_def

lemma from_chars_word [simp]: "from_chars_unsigned (string_of_word w) = Converted (w :: 'a::len word) []"
  using from_chars_unsigned_round_trip [of "[]" w] by simp

lemma from_chars_narrow [simp]: "from_chars_unsigned (string_of_word (ucast (w :: 32 word) :: 64 word)) = Converted w []"
proof -
  have "string_of_word (ucast w :: 64 word) = string_of_word w"
    by (simp add: string_of_word_def unsigned_ucast_eq take_bit_nat_eq_self unsigned_less [of w, THEN less_trans])
  then show ?thesis by simp
qed

lemma from_chars_price_round_trip [simp]: "from_chars_price (string_of_int (sint (ticks p))) = Converted p []"
  using from_chars_signed_round_trip [of "[]" "ticks p"] by (simp add: from_chars_price_def)

lemma string_of_int_Nil [simp]: "string_of_int i \<noteq> []"
  by (simp add: string_of_int_def)

section \<open>Round trips\<close>

definition new_order_fields :: "NewOrder \<Rightarrow> SeqNo \<Rightarrow> (FixTag \<times> string) list" where
  "new_order_fields msg seq =
     [(kTagMsgType, [kMsgNewOrderSingle]), (kTagMsgSeqNum, string_of_word seq), (kTagClOrdID, string_of_word (no_order_id msg)),
      (kTagSymbol, string_of_word (ucast (no_symbol msg) :: 64 word)), (kTagSide, if no_side msg = Buy then ''1'' else ''2''),
      (kTagOrderQty, string_of_word (ucast (no_quantity msg) :: 64 word)), (kTagOrdType, if no_type msg = Market then ''1'' else ''2''),
      (kTagPrice, string_of_int (sint (ticks (no_price msg)))), (kTagTimeInForce, if no_tif msg = GTC then ''1'' else ''3'')]"

definition cancel_order_fields :: "CancelOrder \<Rightarrow> SeqNo \<Rightarrow> (FixTag \<times> string) list" where
  "cancel_order_fields msg seq =
     [(kTagMsgType, [kMsgOrderCancelRequest]), (kTagMsgSeqNum, string_of_word seq), (kTagOrigClOrdID, string_of_word (co_order_id msg)),
      (kTagClOrdID, string_of_word (co_order_id msg)), (kTagSymbol, string_of_word (ucast (co_symbol msg) :: 64 word))]"

lemma fix_encode_rendered:
  "fix_encode_new_order msg seq = frame (rendered (new_order_fields msg seq))"
  "fix_encode_cancel_order cmsg seq = frame (rendered (cancel_order_fields cmsg seq))"
  by (simp_all add: fix_encode_new_order_def new_order_fields_def fix_encode_cancel_order_def cancel_order_fields_def append_field_u64_def
      append_field_def render_def Let_def)

lemma one_char_no_soh: "kSoh \<notin> set ''1''" "kSoh \<notin> set ''2''" "kSoh \<notin> set ''3''" "kMsgNewOrderSingle \<noteq> kSoh" "kMsgOrderCancelRequest \<noteq> kSoh"
  by code_simp+

lemma tag_text_length: "length (string_of_word kTagMsgType) = 2" "length (string_of_word kTagMsgSeqNum) = 2" "length (string_of_word kTagClOrdID) = 2"
  "length (string_of_word kTagSymbol) = 2" "length (string_of_word kTagSide) = 2" "length (string_of_word kTagOrderQty) = 2"
  "length (string_of_word kTagOrdType) = 2" "length (string_of_word kTagPrice) = 2" "length (string_of_word kTagTimeInForce) = 2"
  "length (string_of_word kTagOrigClOrdID) = 2"
  by code_simp+

lemma body_ok_new_order: "body_ok (new_order_fields msg seq)"
proof -
  have "length (rendered (new_order_fields msg seq)) \<le> 900"
    using string_of_word_length [of seq] string_of_word_length [of "no_order_id msg"] string_of_word_length [of "ucast (no_symbol msg)"]
      string_of_word_length [of "ucast (no_quantity msg)"] string_of_int_length [of "ticks (no_price msg)"]
    by (simp add: new_order_fields_def render_def tag_text_length)
  moreover have "\<forall>f\<in>set (new_order_fields msg seq). kSoh \<notin> set (snd f)"
    using one_char_no_soh by (simp add: new_order_fields_def)
  ultimately show ?thesis by (simp add: body_ok_def new_order_fields_def) (simp add: kTag_defs)
qed

lemma body_ok_cancel_order: "body_ok (cancel_order_fields msg seq)"
proof -
  have "length (rendered (cancel_order_fields msg seq)) \<le> 900"
    using string_of_word_length [of seq] string_of_word_length [of "co_order_id msg"] string_of_word_length [of "ucast (co_symbol msg)"]
    by (simp add: cancel_order_fields_def render_def tag_text_length)
  moreover have "\<forall>f\<in>set (cancel_order_fields msg seq). kSoh \<notin> set (snd f)"
    using one_char_no_soh by (simp add: cancel_order_fields_def)
  ultimately show ?thesis by (simp add: body_ok_def cancel_order_fields_def) (simp add: kTag_defs)
qed

lemma fix_new_order_decodes:
  assumes "new_order_good msg"
  shows "fix_decode_new_order (fix_encode_new_order msg seq) = \<lparr>fx_error = FixNone, fx_value = msg\<rparr>"
    "peek_msg_type (fix_encode_new_order msg seq) = \<lparr>fx_error = FixNone, fx_value = kMsgNewOrderSingle\<rparr>"
    "peek_seq (fix_encode_new_order msg seq) = \<lparr>fx_error = FixNone, fx_value = seq\<rparr>"
proof -
  obtain p where p: "parse_envelope (fix_encode_new_order msg seq) = (FixNone, p)"
      "\<And>tag. tag \<notin> {kTagBeginString, kTagBodyLength, kTagCheckSum} \<Longrightarrow> value_of p tag = map_of (new_order_fields msg seq) tag"
    unfolding fix_encode_rendered(1) using parse_envelope_frame [OF body_ok_new_order [of msg seq]] by blast
  have f: "value_of p kTagMsgType = Some [kMsgNewOrderSingle]"
      "value_of p kTagMsgSeqNum = Some (string_of_word seq)"
      "value_of p kTagClOrdID = Some (string_of_word (no_order_id msg))"
      "value_of p kTagSymbol = Some (string_of_word (ucast (no_symbol msg) :: 64 word))"
      "value_of p kTagSide = Some (if no_side msg = Buy then ''1'' else ''2'')"
      "value_of p kTagOrderQty = Some (string_of_word (ucast (no_quantity msg) :: 64 word))"
      "value_of p kTagOrdType = Some (if no_type msg = Market then ''1'' else ''2'')"
      "value_of p kTagPrice = Some (string_of_int (sint (ticks (no_price msg))))"
      "value_of p kTagTimeInForce = Some (if no_tif msg = GTC then ''1'' else ''3'')"
    by (subst p(2); simp add: new_order_fields_def kTag_defs)+
  let ?r = "\<lparr>fr_p = p, fr_err = FixNone\<rparr>"
  have c: "fr_coded kTagSide x [(CHR ''1'', Buy), (CHR ''2'', Sell)] ?r = (?r, no_side msg)"
      "fr_coded kTagOrdType y [(CHR ''1'', Market), (CHR ''2'', Limit)] ?r = (?r, no_type msg)"
      "fr_coded kTagTimeInForce z [(CHR ''1'', GTC), (CHR ''3'', IOC)] ?r = (?r, no_tif msg)" for x y z
    using assms by (auto simp: fr_coded_def require_code_value f new_order_good_def is_valid_side_def is_valid_order_type_def is_valid_tif_def)
  show "fix_decode_new_order (fix_encode_new_order msg seq) = \<lparr>fx_error = FixNone, fx_value = msg\<rparr>"
    by (simp add: fix_decode_new_order_def decode_typed_def p(1) expect_msg_type_value f(1) fill_new_order_def c fr_integer_def
        require_int_value f(2-4,6,8))
  show "peek_msg_type (fix_encode_new_order msg seq) = \<lparr>fx_error = FixNone, fx_value = kMsgNewOrderSingle\<rparr>"
    using f(1) by (auto simp: peek_msg_type_def p(1) value_of_def)
  show "peek_seq (fix_encode_new_order msg seq) = \<lparr>fx_error = FixNone, fx_value = seq\<rparr>"
    by (simp add: peek_seq_def p(1) require_int_value f(2))
qed

lemma fix_cancel_order_decodes:
  "fix_decode_cancel_order (fix_encode_cancel_order msg seq) = \<lparr>fx_error = FixNone, fx_value = msg\<rparr>"
  "peek_msg_type (fix_encode_cancel_order msg seq) = \<lparr>fx_error = FixNone, fx_value = kMsgOrderCancelRequest\<rparr>"
  "peek_seq (fix_encode_cancel_order msg seq) = \<lparr>fx_error = FixNone, fx_value = seq\<rparr>"
proof -
  obtain p where p: "parse_envelope (fix_encode_cancel_order msg seq) = (FixNone, p)"
      "\<And>tag. tag \<notin> {kTagBeginString, kTagBodyLength, kTagCheckSum} \<Longrightarrow> value_of p tag = map_of (cancel_order_fields msg seq) tag"
    unfolding fix_encode_rendered(2) using parse_envelope_frame [OF body_ok_cancel_order [of msg seq]] by blast
  have f: "value_of p kTagMsgType = Some [kMsgOrderCancelRequest]"
      "value_of p kTagMsgSeqNum = Some (string_of_word seq)"
      "value_of p kTagOrigClOrdID = Some (string_of_word (co_order_id msg))"
      "value_of p kTagClOrdID = Some (string_of_word (co_order_id msg))"
      "value_of p kTagSymbol = Some (string_of_word (ucast (co_symbol msg) :: 64 word))"
    by (subst p(2); simp add: cancel_order_fields_def kTag_defs)+
  show "fix_decode_cancel_order (fix_encode_cancel_order msg seq) = \<lparr>fx_error = FixNone, fx_value = msg\<rparr>"
    by (simp add: fix_decode_cancel_order_def decode_typed_def p(1) expect_msg_type_value fill_cancel_order_def fr_integer_def
        require_int_value f Let_def)
  show "peek_msg_type (fix_encode_cancel_order msg seq) = \<lparr>fx_error = FixNone, fx_value = kMsgOrderCancelRequest\<rparr>"
    using f(1) by (auto simp: peek_msg_type_def p(1) value_of_def)
  show "peek_seq (fix_encode_cancel_order msg seq) = \<lparr>fx_error = FixNone, fx_value = seq\<rparr>"
    by (simp add: peek_seq_def p(1) require_int_value f(2))
qed

section \<open>What a message that parses looks like\<close>

lemma sv_find_iff:
  "sv_find c pos msg = Some i \<longleftrightarrow> pos \<le> i \<and> i < length msg \<and> msg ! i = c \<and> (\<forall>j. pos \<le> j \<longrightarrow> j < i \<longrightarrow> msg ! j \<noteq> c)"
proof (cases "pos \<le> length msg")
  case True
  define rest where "rest = drop pos msg"
  define k where "k = length (takeWhile (\<lambda>x. x \<noteq> c) rest)"
  have nth: "rest ! j = msg ! (pos + j)" if "pos + j < length msg" for j using that True by (simp add: rest_def)
  have before: "rest ! j \<noteq> c" if "j < k" for j
  proof -
    have "takeWhile (\<lambda>x. x \<noteq> c) rest ! j \<in> set (takeWhile (\<lambda>x. x \<noteq> c) rest)" using that by (simp add: k_def)
    then show ?thesis using that takeWhile_nth [of j "\<lambda>x. x \<noteq> c" rest] by (auto simp: k_def dest: set_takeWhileD)
  qed
  have at: "rest ! k = c" if "k < length rest" using that nth_length_takeWhile [of "\<lambda>x. x \<noteq> c" rest] by (simp add: k_def)
  have len: "length rest = length msg - pos" by (simp add: rest_def)
  have def: "sv_find c pos msg = (if pos + k < length msg then Some (pos + k) else None)" by (simp add: sv_find_def Let_def k_def rest_def)
  have "k = i - pos" if "pos \<le> i" "i < length msg" "msg ! i = c" "\<forall>j. pos \<le> j \<longrightarrow> j < i \<longrightarrow> msg ! j \<noteq> c"
  proof (rule linorder_cases [of k "i - pos"])
    assume less: "k < i - pos"
    then have "rest ! k = c" using at that by (simp add: len)
    moreover have "rest ! k = msg ! (pos + k)" using less that by (intro nth) simp
    ultimately show ?thesis using that(4) less by auto
  next
    assume "i - pos < k"
    then have "rest ! (i - pos) \<noteq> c" by (rule before)
    then show ?thesis using that nth [of "i - pos"] by simp
  qed
  moreover have "msg ! (pos + k) = c" if "pos + k < length msg" using that at nth [of k] by (simp add: len)
  moreover have "msg ! j \<noteq> c" if "pos + k < length msg" "pos \<le> j" "j < pos + k" for j
    using before [of "j - pos"] nth [of "j - pos"] that by simp
  ultimately show ?thesis unfolding def
  proof (intro iffI conjI, goal_cases)
    case 5
    then show ?case by (metis le_add_diff_inverse)
  qed (auto split: if_splits)
next
  case False
  then show ?thesis by (auto simp: sv_find_def Let_def)
qed

text \<open>
  The last field starts behind the last separator but one, and the field before it has an equals
  sign of its own.
\<close>

definition last_field_at :: "string \<Rightarrow> nat \<Rightarrow> nat \<Rightarrow> Field \<Rightarrow> bool" where
  "last_field_at msg k eq f \<longleftrightarrow> sv_find kSoh k msg = Some (length msg - 1) \<and> sv_find (CHR ''='') k msg = Some eq \<and> eq < length msg - 1 \<and>
     fd_start f = k \<and> fd_value f = sv_substr (eq + 1) (length msg - 1 - (eq + 1)) msg"

definition prev_field_at :: "string \<Rightarrow> nat \<Rightarrow> bool" where
  "prev_field_at msg k \<longleftrightarrow> 0 < k \<and> (\<exists>j e. sv_find kSoh j msg = Some (k - 1) \<and> sv_find (CHR ''='') j msg = Some e \<and> e < k - 1)"

lemma tokenize_last:
  "tokenize msg pos out = (FixNone, p) \<Longrightarrow> pos < length msg \<Longrightarrow>
     length out < length p \<and>
     (\<exists>k eq. last_field_at msg k eq (last p) \<and> (if length p = Suc (length out) then k = pos else prev_field_at msg k))"
proof (induction msg pos out rule: tokenize.induct)
  case (1 msg pos out)
  obtain soh where soh: "sv_find kSoh pos msg = Some soh"
    using 1(2,3) by (cases "sv_find kSoh pos msg") (simp_all add: tokenize.simps [of msg pos])
  obtain eq where eq: "sv_find (CHR ''='') pos msg = Some eq" "\<not> eq \<ge> soh"
    using 1(2,3) soh by (cases "sv_find (CHR ''='') pos msg") (simp_all add: tokenize.simps [of msg pos] split: if_splits)
  obtain tag :: FixTag where tag: "parse_int from_chars_unsigned (sv_substr pos (eq - pos) msg) = Some tag"
    using 1(2,3) soh eq by (cases "parse_int from_chars_unsigned (sv_substr pos (eq - pos) msg) :: FixTag option") (simp_all add: tokenize.simps [of msg pos])
  have ok: "\<not> length out \<ge> kMaxFields" "\<not> find_field out tag \<noteq> None"
    using 1(2,3) soh eq tag by (simp_all add: tokenize.simps [of msg pos] split: if_splits)
  let ?f = "\<lparr>fd_tag = tag, fd_value = sv_substr (eq + 1) (soh - (eq + 1)) msg, fd_start = pos\<rparr>"
  have rec: "tokenize msg (soh + 1) (out @ [?f]) = (FixNone, p)"
    using 1(2,3) soh eq tag ok by (simp add: tokenize.simps [of msg pos] split: if_splits)
  have less: "soh < length msg" using sv_find_SomeD [OF soh] by simp
  show ?case
  proof (cases "soh + 1 < length msg")
    case True
    obtain k e where k: "length (out @ [?f]) < length p" "last_field_at msg k e (last p)"
        "if length p = Suc (length (out @ [?f])) then k = soh + 1 else prev_field_at msg k"
      using 1(1) [OF 1(3) soh eq(1) eq(2) tag ok rec True] by blast
    have "prev_field_at msg k"
    proof (cases "length p = Suc (length (out @ [?f]))")
      case True
      then have "k = soh + 1" using k(3) by simp
      then show ?thesis using soh eq by (auto simp: prev_field_at_def)
    qed (use k(3) in simp)
    then show ?thesis using k(1,2) by auto
  next
    case False
    then have n: "soh = length msg - 1" using less by simp
    have "p = out @ [?f]" using rec False by (simp add: tokenize.simps [of msg "soh + 1"] tokenize.simps [of msg "Suc soh"])
    moreover have "last_field_at msg pos eq ?f" using soh eq n by (simp add: last_field_at_def)
    ultimately show ?thesis by auto
  qed
qed

lemma parse_envelope_last:
  assumes "parse_envelope msg = (FixNone, p)"
  obtains eq and declared :: "32 word" where "last_field_at msg (fd_start (last p)) eq (last p)" "prev_field_at msg (fd_start (last p))"
    "length (fd_value (last p)) = 3" "parse_int from_chars_unsigned (fd_value (last p)) = Some declared"
    "byte_sum (take (fd_start (last p)) msg) AND 0xFF = declared"
proof -
  have ne: "msg \<noteq> []" using assms by (auto simp: parse_envelope_def split: if_splits)
  then have t: "tokenize msg 0 [] = (FixNone, p)" "check_envelope_shape p = FixNone" "verify_length_and_checksum msg p = FixNone"
    using assms by (auto simp: parse_envelope_def Let_def split: if_splits prod.splits)
  have len: "3 \<le> length p" using t(2) by (auto simp: check_envelope_shape_def split: if_splits)
  then have last: "p ! (length p - 1) = last p" by (subst last_conv_nth) auto
  obtain k eq where k: "last_field_at msg k eq (last p)" "prev_field_at msg k"
    using tokenize_last [OF t(1)] ne len by (auto split: if_splits)
  have "fd_start (last p) = k" using k(1) by (simp add: last_field_at_def)
  moreover obtain declared :: "32 word" where "length (fd_value (last p)) = 3" "parse_int from_chars_unsigned (fd_value (last p)) = Some declared"
      "byte_sum (take (fd_start (last p)) msg) AND 0xFF = declared"
    using t(3) unfolding verify_length_and_checksum_def Let_def last by (auto split: if_splits option.splits)
  ultimately show thesis using that k by blast
qed

section \<open>Corruption\<close>

lemma byte_sum_acc: "foldl (\<lambda>sum c. sum + of_char c) a s = a + byte_sum s"
proof (induction s arbitrary: a)
  case (Cons c s)
  show ?case using Cons [of "a + of_char c"] Cons [of "of_char c"] by (simp add: byte_sum_def add.assoc)
qed (simp add: byte_sum_def)

lemma byte_sum_simps [simp]: "byte_sum [] = 0" "byte_sum (c # s) = of_char c + byte_sum s" "byte_sum (s @ s') = byte_sum s + byte_sum s'"
proof -
  show "byte_sum [] = 0" by (simp add: byte_sum_def)
  show cons: "byte_sum (c # s) = of_char c + byte_sum s" for c s using byte_sum_acc [of "of_char c" s] by (simp add: byte_sum_def)
  show "byte_sum (s @ s') = byte_sum s + byte_sum s'" by (induction s) (simp_all add: cons byte_sum_def [of "[]"] add.assoc)
qed

lemma byte_sum_changed:
  assumes "i < length s" "c \<noteq> s ! i"
  shows "byte_sum (s[i := c]) AND 0xFF \<noteq> byte_sum s AND 0xFF"
proof
  assume eq: "byte_sum (s[i := c]) AND 0xFF = byte_sum s AND 0xFF"
  define r where "r = byte_sum (take i s) + byte_sum (drop (Suc i) s)"
  have s: "byte_sum s = r + of_char (s ! i)" "byte_sum (s[i := c]) = r + of_char c"
    using arg_cong [OF id_take_nth_drop [OF assms(1)], of byte_sum] by (simp_all add: r_def upd_conv_take_nth_drop [OF assms(1)])
  have u: "unat ((r + of_char x) mod 256) = (unat r + of_char x) mod 256" for x
  proof -
    have "(of_char x :: nat) < 4294967296" by (rule less_trans [OF nat_of_char_less_256]) simp
    then have "unat (of_nat (of_char x) :: 32 word) = of_char x" by (simp add: unat_of_nat)
    moreover have "(of_char x :: 32 word) = of_nat (of_char x)" by (simp add: of_nat_of_char)
    ultimately have "unat (of_char x :: 32 word) = of_char x" by metis
    then have "unat (r + of_char x) = (unat r + of_char x) mod 2 ^ 32" by (simp add: unat_word_ariths(1))
    then show ?thesis by (simp add: unat_mod mod_mod_cancel)
  qed
  have "(unat r + of_char c) mod 256 = (unat r + of_char (s ! i)) mod (256 :: nat)"
    using eq unfolding byte_sum_and s u [symmetric] by simp
  moreover have "y = x" if "(a + x) mod 256 = (a + y) mod 256" "x \<le> y" "y < 256" for a x y :: nat
    using that mod_eq_dvd_iff_nat [of "a + x" "a + y" 256] dvd_imp_le [of 256 "y - x"] by (cases "y - x = 0") auto
  ultimately have "(of_char c :: nat) = of_char (s ! i)"
    by (metis nat_le_linear nat_of_char_less_256)
  then show False using assms(2) by simp
qed

lemma last_field_unique:
  assumes "sv_find kSoh k msg = Some (length msg - 1)" "sv_find kSoh k' msg = Some (length msg - 1)"
    and "0 < k" "0 < k'" "msg ! (k - 1) = kSoh" "msg ! (k' - 1) = kSoh"
  shows "k = k'"
proof (rule ccontr)
  assume "k \<noteq> k'"
  then consider "k < k'" | "k' < k" by linarith
  then show False
  proof cases
    case 1
    then have "k \<le> k' - 1" "k' - 1 < length msg - 1" using assms(2,4) by (auto simp: sv_find_iff)
    then show False using assms(1,6) by (auto simp: sv_find_iff)
  next
    case 2
    then have "k' \<le> k - 1" "k - 1 < length msg - 1" using assms(1,3) by (auto simp: sv_find_iff)
    then show False using assms(2,5) by (auto simp: sv_find_iff)
  qed
qed

lemma prev_field_soh: "prev_field_at msg k \<Longrightarrow> 0 < k \<and> msg ! (k - 1) = kSoh"
  by (auto simp: prev_field_at_def sv_find_iff)

text \<open>
  A change in front of the separator of the checksum field leaves that field where it was, so the
  sum no longer agrees. A change of the separator itself joins the checksum field to the one before
  it, whose value is then too long.
\<close>

lemma envelope_corruption:
  assumes "parse_envelope msg = (FixNone, p)" "i < fd_start (last p)" "c \<noteq> msg ! i"
  shows "fst (parse_envelope (msg[i := c])) \<noteq> FixNone"
proof
  assume "fst (parse_envelope (msg[i := c])) = FixNone"
  then obtain p' where p': "parse_envelope (msg[i := c]) = (FixNone, p')" by (cases "parse_envelope (msg[i := c])") auto
  define msg' where "msg' = msg[i := c]"
  define k where "k = fd_start (last p)"
  define k' where "k' = fd_start (last p')"
  obtain eq and declared :: "32 word" where a: "last_field_at msg k eq (last p)" "prev_field_at msg k" "length (fd_value (last p)) = 3"
      "parse_int from_chars_unsigned (fd_value (last p)) = Some declared" "byte_sum (take k msg) AND 0xFF = declared"
    unfolding k_def by (rule parse_envelope_last [OF assms(1)])
  obtain eq' and declared' :: "32 word" where b: "last_field_at msg' k' eq' (last p')" "prev_field_at msg' k'" "length (fd_value (last p')) = 3"
      "parse_int from_chars_unsigned (fd_value (last p')) = Some declared'" "byte_sum (take k' msg') AND 0xFF = declared'"
    unfolding k'_def msg'_def by (rule parse_envelope_last [OF p'])
  have len: "length msg' = length msg" by (simp add: msg'_def)
  have i: "i < k" using assms(2) by (simp add: k_def)
  have same: "msg' ! j = msg ! j" if "j \<noteq> i" for j using that by (simp add: msg'_def)
  note pa = prev_field_soh [OF a(2)] and pb = prev_field_soh [OF b(2)]
  have fa: "sv_find kSoh k msg = Some (length msg - 1)" "sv_find (CHR ''='') k msg = Some eq" "eq < length msg - 1"
    and fb: "sv_find kSoh k' msg' = Some (length msg - 1)" "sv_find (CHR ''='') k' msg' = Some eq'" "eq' < length msg - 1"
    using a(1) b(1) by (simp_all add: last_field_at_def len)
  have val: "length msg - 1 - (eq + 1) = 3" "length msg - 1 - (eq' + 1) = 3"
    using a(1,3) b(1,3) fa(3) fb(3) by (auto simp: last_field_at_def sv_substr_def len)
  show False
  proof (cases "i = k - 1")
    case False
    have "sv_find kSoh k msg' = Some (length msg' - 1)" using fa(1) i same by (auto simp: sv_find_iff len)
    moreover have "msg' ! (k - 1) = kSoh" using pa same [of "k - 1"] False by simp
    ultimately have k: "k' = k" using last_field_unique [of k msg' k'] fb(1) pa pb by (simp add: len)
    have "sv_find (CHR ''='') k msg' = Some eq" using fa(2) i same by (auto simp: sv_find_iff len)
    then have "eq' = eq" using fb(2) by (simp add: k)
    moreover have "drop (eq + 1) msg' = drop (eq + 1) msg"
      unfolding msg'_def using i fa(2) by (intro drop_update_cancel) (auto simp: sv_find_iff)
    ultimately have "fd_value (last p') = fd_value (last p)" using a(1) b(1) by (simp add: last_field_at_def sv_substr_def len)
    then have "declared' = declared" using a(4) b(4) by simp
    moreover have "take k msg' = (take k msg)[i := c]" by (simp add: msg'_def take_update_swap)
    ultimately show False
      using byte_sum_changed [of i "take k msg" c] a(5) b(5) i assms(3) fa(1) by (auto simp: k sv_find_iff)
  next
    case True
    obtain j e where j: "sv_find kSoh j msg = Some (k - 1)" "sv_find (CHR ''='') j msg = Some e" "e < k - 1"
      using a(2) by (auto simp: prev_field_at_def)
    have "msg' ! i \<noteq> kSoh" using assms(3) pa True fa(1) by (auto simp: msg'_def sv_find_iff)
    then have ne: "k' \<noteq> k" using pb True by auto
    have "k' \<le> e"
    proof (rule ccontr)
      assume "\<not> k' \<le> e"
      then have "j \<le> k' - 1" using j(2) by (auto simp: sv_find_iff)
      moreover have "k' - 1 \<noteq> i" using ne True pb pa by auto
      then have soh: "msg ! (k' - 1) = kSoh" using pb same by metis
      ultimately have "k - 1 < k' - 1" using j(1) True \<open>k' - 1 \<noteq> i\<close> by (metis linorder_neqE_nat sv_find_iff)
      moreover have "k' - 1 < length msg - 1" using fb(1) pb by (auto simp: sv_find_iff)
      ultimately show False using fa(1) soh by (auto simp: sv_find_iff)
    qed
    moreover have "msg' ! e = CHR ''=''" using j(2,3) True same [of e] by (auto simp: sv_find_iff)
    ultimately have "eq' \<le> e" using fb(2) by (metis linorder_not_le sv_find_iff)
    moreover have "k \<le> eq" using fa(2) by (auto simp: sv_find_iff)
    ultimately show False using val j(3) by linarith
  qed
qed

text \<open>Every entry point goes through the envelope.\<close>

lemma envelope_refused:
  assumes "fst (parse_envelope msg) \<noteq> FixNone"
  shows "\<not> fx_ok (fix_decode_new_order msg)" "\<not> fx_ok (fix_decode_cancel_order msg)" "\<not> fx_ok (peek_msg_type msg)" "\<not> fx_ok (peek_seq msg)"
  using assms by (simp_all add: fix_decode_new_order_def fix_decode_cancel_order_def peek_msg_type_def peek_seq_def decode_typed_def fx_ok_def
      case_prod_unfold Let_def)

section \<open>Well-typed values\<close>

lemma fr_coded_table:
  assumes "fr_coded tag out table r = (r', v)" "fr_err r' = FixNone"
  shows "fr_err r = FixNone \<and> v \<in> snd ` set table"
  using assms by (auto simp: fr_coded_def Let_def dest!: find_SomeD split: if_splits prod.splits option.splits)

lemma fr_integer_err: "fr_integer conv tag out r = (r', v) \<Longrightarrow> fr_err r' = FixNone \<Longrightarrow> fr_err r = FixNone"
  by (auto simp: fr_integer_def split: if_splits)

lemma fill_new_order_valid:
  assumes "fill_new_order r out = (r', v)" "fr_err r' = FixNone"
  shows "new_order_good v"
proof -
  let ?sides = "[(CHR ''1'', Buy), (CHR ''2'', Sell)]" and ?types = "[(CHR ''1'', Market), (CHR ''2'', Limit)]"
    and ?tifs = "[(CHR ''1'', GTC), (CHR ''3'', IOC)]"
  obtain r5 r6 r7 where c: "fr_coded kTagSide (no_side out) ?sides r5 = (r6, no_side v)"
      "fr_coded kTagOrdType (no_type out) ?types r6 = (r7, no_type v)" "fr_coded kTagTimeInForce (no_tif out) ?tifs r7 = (r', no_tif v)"
    using assms(1) by (force simp: fill_new_order_def Let_def split: prod.splits)
  have "fr_err r7 = FixNone \<and> no_tif v \<in> snd ` set ?tifs" by (rule fr_coded_table [OF c(3) assms(2)])
  moreover from this have "fr_err r6 = FixNone \<and> no_type v \<in> snd ` set ?types" by (intro fr_coded_table [OF c(2)]) simp
  moreover from this have "no_side v \<in> snd ` set ?sides" using fr_coded_table [OF c(1)] by simp
  ultimately show ?thesis by (auto simp: new_order_good_def is_valid_side_def is_valid_order_type_def is_valid_tif_def)
qed

lemma fill_new_order_seq:
  assumes "fill_new_order r out = (r', v)" "fr_err r' = FixNone"
  shows "fst (require_int from_chars_unsigned (fr_p r) kTagMsgSeqNum (0 :: SeqNo)) = FixNone"
proof -
  have err: "fr_err r1 = FixNone" if "fr_coded tag x table r1 = (r2, y)" "fr_err r2 = FixNone" for tag table r1 r2 and x y :: 'e
    using fr_coded_table [OF that] by simp
  obtain r1 and seq :: SeqNo where "fr_integer from_chars_unsigned kTagMsgSeqNum 0 r = (r1, seq)" "fr_err r1 = FixNone"
    using assms by (auto simp: fill_new_order_def Let_def split: prod.splits dest!: err fr_integer_err)
  then show ?thesis by (auto simp: fr_integer_def split: if_splits prod.splits)
qed

lemma decode_typed_ok:
  assumes "decode_typed msg expected zero fill = \<lparr>fx_error = FixNone, fx_value = v\<rparr>"
  obtains p r where "parse_envelope msg = (FixNone, p)" "expect_msg_type p expected = FixNone"
    "fill \<lparr>fr_p = p, fr_err = FixNone\<rparr> zero = (r, v)" "fr_err r = FixNone"
  using assms by (auto simp: decode_typed_def Let_def split: if_splits prod.splits)

lemma decode_typed_error:
  assumes "decode_typed msg expected zero fill = \<lparr>fx_error = e, fx_value = v\<rparr>" "e \<noteq> FixNone"
  shows "v = zero"
  using assms by (auto simp: decode_typed_def Let_def split: if_splits prod.splits)

lemma expect_peek:
  assumes "parse_envelope msg = (FixNone, p)" "expect_msg_type p c = FixNone"
  shows "peek_msg_type msg = \<lparr>fx_error = FixNone, fx_value = c\<rparr>"
  using assms by (auto simp: peek_msg_type_def expect_msg_type_def split: option.splits if_splits)

lemma parse_envelope_length: "parse_envelope msg = (FixNone, p) \<Longrightarrow> length msg \<le> kMaxMessageLen"
  by (auto simp: parse_envelope_def split: if_splits)

end
