(* ===== verification/Fix_Properties.thy ===== *)
theory Fix_Properties
  imports Fix_Correct "HOL-Library.Code_Target_Nat"
begin

text \<open>
  Correctness of the text protocol: round trips, detection of corruption, and the typing of what
  the decoder lets through.
\<close>

section \<open>A message\<close>

definition demo_order :: NewOrder where
  "demo_order = \<lparr>no_order_id = 1, no_symbol = 2, no_price = Ticks 12345, no_quantity = 10, no_side = Buy, no_type = Limit, no_tif = GTC\<rparr>"

definition demo_text :: string where
  "demo_text = map (\<lambda>c. if c = CHR ''|'' then kSoh else c)
     ''8=FIX.4.2|9=50|35=D|34=7|11=1|55=2|54=1|38=10|40=2|44=12345|59=1|10=164|''"

text \<open>The bytes that the repository's own test pins.\<close>

lemma demo_text_encoded: "fix_encode_new_order demo_order 7 = demo_text"
  by code_simp

section \<open>Round trip\<close>

text \<open>C38: An order or a cancel survives the text protocol. For an order whose side, type and time in
  force are valid, and for every cancel, decoding the encoded message gives the same message back
  whatever its id, symbol, price and quantity, the sequence number and the message type can be read
  from it, and the binary codec's decoding of its own encoding gives the same message.\<close>

theorem fix_round_trip:
  assumes "new_order_good msg"
  shows "fix_decode_new_order (fix_encode_new_order msg seq) = \<lparr>fx_error = FixNone, fx_value = msg\<rparr> \<and>
    peek_msg_type (fix_encode_new_order msg seq) = \<lparr>fx_error = FixNone, fx_value = kMsgNewOrderSingle\<rparr> \<and>
    peek_seq (fix_encode_new_order msg seq) = \<lparr>fx_error = FixNone, fx_value = seq\<rparr> \<and>
    fix_decode_cancel_order (fix_encode_cancel_order cmsg seq) = \<lparr>fx_error = FixNone, fx_value = cmsg\<rparr> \<and>
    peek_msg_type (fix_encode_cancel_order cmsg seq) = \<lparr>fx_error = FixNone, fx_value = kMsgOrderCancelRequest\<rparr> \<and>
    peek_seq (fix_encode_cancel_order cmsg seq) = \<lparr>fx_error = FixNone, fx_value = seq\<rparr> \<and>
    decode_new_order (encode_new_order msg seq) = decoded (fx_value (fix_decode_new_order (fix_encode_new_order msg seq))) \<and>
    decode_cancel_order (encode_cancel_order cmsg seq) = decoded (fx_value (fix_decode_cancel_order (fix_encode_cancel_order cmsg seq)))"
  using fix_new_order_decodes [OF assms] fix_cancel_order_decodes new_order_codec.round_trip [OF assms, of seq "[]"]
    cancel_order_codec.round_trip [of cmsg seq "[]"] by simp

lemma demo_order_good: "new_order_good demo_order"
  by code_simp

lemma demo_decoded: "fix_decode_new_order demo_text = \<lparr>fx_error = FixNone, fx_value = demo_order\<rparr>"
  using fix_new_order_decodes(1) [OF demo_order_good, of 7] by (simp add: demo_text_encoded)

theorem fix_round_trip_witness:
  "fix_decode_new_order demo_text = \<lparr>fx_error = FixNone, fx_value = demo_order\<rparr> \<and>
   peek_seq demo_text = \<lparr>fx_error = FixNone, fx_value = 7\<rparr>"
  using fix_round_trip [OF demo_order_good, of 7] by (simp add: demo_text_encoded)

section \<open>Corruption\<close>

text \<open>Where the checksum field of a message starts.\<close>

definition checksum_field :: "string \<Rightarrow> nat" where
  "checksum_field msg = fd_start (last (snd (parse_envelope msg)))"

text \<open>C39: A single changed byte in front of the checksum field is always noticed: take any message
  whose envelope is accepted; whichever byte in front of its checksum field is replaced by a
  different one, a separator or an equals sign included, no entry point accepts the result.\<close>

theorem fix_corruption_detected:
  assumes "fst (parse_envelope msg) = FixNone" "i < checksum_field msg" "c \<noteq> msg ! i"
  shows "\<not> fx_ok (fix_decode_new_order (msg[i := c])) \<and> \<not> fx_ok (fix_decode_cancel_order (msg[i := c])) \<and>
    \<not> fx_ok (peek_msg_type (msg[i := c])) \<and> \<not> fx_ok (peek_seq (msg[i := c]))"
proof -
  have "parse_envelope msg = (FixNone, snd (parse_envelope msg))" using assms(1) by (simp add: prod_eq_iff)
  from envelope_corruption [OF this _ assms(3)] assms(2) have "fst (parse_envelope (msg[i := c])) \<noteq> FixNone"
    by (simp add: checksum_field_def)
  then show ?thesis using envelope_refused by blast
qed

theorem fix_corruption_detected_witness:
  "\<not> fx_ok (fix_decode_new_order (demo_text[14 := CHR ''3'']))"
proof -
  have "fst (parse_envelope demo_text) = FixNone" using envelope_refused(1) [of demo_text] demo_decoded by (auto simp: fx_ok_def)
  moreover have "14 < checksum_field demo_text" by code_simp
  moreover have "CHR ''3'' \<noteq> demo_text ! 14" by code_simp
  ultimately show ?thesis using fix_corruption_detected by blast
qed

section \<open>Typing\<close>

text \<open>C40: Only well-typed orders leave the decoder. A message that decodes as a new order has at most
  1024 bytes, carries its message type and a sequence number, is not a cancel as well, and its order
  has a valid side, type and time in force and, encoded again with that sequence number, decodes to
  the same order. When decoding fails the value is the default order.\<close>

theorem fix_decoded_well_typed:
  assumes "fix_decode_new_order msg = \<lparr>fx_error = e, fx_value = v\<rparr>"
  shows "if e = FixNone
    then new_order_good v \<and> length msg \<le> kMaxMessageLen \<and> fx_ok (peek_seq msg) \<and>
      peek_msg_type msg = \<lparr>fx_error = FixNone, fx_value = kMsgNewOrderSingle\<rparr> \<and> \<not> fx_ok (fix_decode_cancel_order msg) \<and>
      fix_decode_new_order (fix_encode_new_order v (fx_value (peek_seq msg))) = fix_decode_new_order msg
    else v = new_order_zero"
proof (cases "e = FixNone")
  case True
  obtain p r where d: "parse_envelope msg = (FixNone, p)" "expect_msg_type p kMsgNewOrderSingle = FixNone"
      "fill_new_order \<lparr>fr_p = p, fr_err = FixNone\<rparr> new_order_zero = (r, v)" "fr_err r = FixNone"
    using assms True by (auto simp: fix_decode_new_order_def elim: decode_typed_ok)
  have good: "new_order_good v" by (rule fill_new_order_valid [OF d(3,4)])
  note peek = expect_peek [OF d(1,2)]
  have "fx_ok (peek_seq msg)" using fill_new_order_seq [OF d(3,4)] d(1) by (auto simp: peek_seq_def fx_ok_def split: prod.splits)
  moreover have "\<not> fx_ok (fix_decode_cancel_order msg)"
  proof -
    have "expect_msg_type p kMsgOrderCancelRequest \<noteq> FixNone"
      using peek expect_peek [OF d(1), of kMsgOrderCancelRequest] by (auto simp: kMsgNewOrderSingle_def kMsgOrderCancelRequest_def)
    then show ?thesis using d(1) by (simp add: fix_decode_cancel_order_def decode_typed_def fx_ok_def)
  qed
  ultimately show ?thesis
    using True good peek parse_envelope_length [OF d(1)] fix_new_order_decodes(1) [OF good] assms by simp
next
  case False
  then show ?thesis using decode_typed_error assms by (auto simp: fix_decode_new_order_def)
qed

theorem fix_decoded_well_typed_witness:
  "new_order_good (fx_value (fix_decode_new_order demo_text)) \<and> fx_ok (peek_seq demo_text) \<and> \<not> fx_ok (fix_decode_cancel_order demo_text)"
  using fix_decoded_well_typed [OF demo_decoded] by (simp add: demo_decoded)

end
