(* ===== verification/Spec2Isabelle.thy ===== *)
theory Spec2Isabelle
  imports Book_Properties Engine_Properties Wire_Properties Log_Properties Shrink_Properties Feed_Properties
    Concurrency_Properties Storage_Properties Fix_Properties
begin

text \<open>
  A verification of the exchange core in this repository: an order book and matching engine, the
  gateway and the binary and text protocols in front of it, the event log and recovery behind it,
  the market data feed, and the threaded pipeline that connects them.

  \<^bold>\<open>The program and its model.\<close> Files are named relative to the C++ tree; a header and its source file
  belong together.

  \<^item> \<open>Qsl_Prelude\<close>, \<open>Core_Types\<close>, \<open>Order_Types\<close>: shared lemmas; \<^verbatim>\<open>core/types.hpp\<close>, \<^verbatim>\<open>core/result.hpp\<close>,
    \<^verbatim>\<open>core/invariants.hpp\<close>, \<^verbatim>\<open>core/clock.hpp\<close>; \<^verbatim>\<open>engine/order.hpp\<close>, \<^verbatim>\<open>engine/events.hpp\<close>. Integers keep their
    width; an enumeration read from a byte has a constructor for the values that have no name.
  \<^item> \<open>Book_Spec\<close> is the abstract price-time book: two priority-sorted lists of orders.
    \<open>Book_Matching\<close>, \<open>Std_Map\<close>, \<open>Baseline_Book\<close> model \<^verbatim>\<open>engine/order_book.cpp\<close>: the shared matching loop,
    \<^verbatim>\<open>std::map\<close> as a sorted association list, and the baseline storage, function by function.
    \<open>Baseline_Refine\<close> proves that the storage refines the specification. \<open>Book_Store\<close> states the contract
    of a storage as a locale and proves from it what clients rely on.
  \<^item> \<open>Storage_Simulation\<close> is the contract by which another storage simulates the baseline, from which
    the contract of a storage follows. \<open>Contiguous_Book\<close>, \<open>Contiguous_Levels\<close>, \<open>Contiguous_Refine\<close> model
    \<^verbatim>\<open>engine/contiguous_store.hpp\<close> and interpret it. \<open>Memory_Pool\<close> models \<^verbatim>\<open>memory/order_pool.hpp\<close> and the node
    pool of \<^verbatim>\<open>engine/order_book.cpp\<close>, \<open>Intrusive_List\<close> and \<open>Intrusive_Book\<close> the pooled storage with its doubly
    linked levels; \<open>Intrusive_Cells\<close> and \<open>Intrusive_Refine\<close> interpret the simulation for it. Pointers are
    slots of their pools. \<open>Order_Book\<close> is the class \<^verbatim>\<open>OrderBook\<close> with its dispatch on the storage and
    interprets the contract; \<open>Book_Properties\<close> and \<open>Storage_Properties\<close> state the results.
  \<^item> \<open>Matching_Engine\<close>, \<open>Risk\<close>, \<open>Order_Gateway\<close>, \<open>Command_Model\<close>: \<^verbatim>\<open>engine/matching_engine.cpp\<close>,
    \<^verbatim>\<open>engine/risk.cpp\<close>, \<^verbatim>\<open>gateway/order_gateway.cpp\<close>, \<^verbatim>\<open>replay/dispatch.hpp\<close>. \<open>Engine_Spec\<close> is the specification
    over abstract books and the simulation; \<open>Engine_Properties\<close> states the results over runs.
  \<^item> \<open>Endian\<close>, \<open>Codec\<close>, \<open>Session\<close>, \<open>Session_Correct\<close>, \<open>Command_Codec\<close>: \<^verbatim>\<open>protocol/endian.hpp\<close>,
    \<^verbatim>\<open>protocol/codec.cpp\<close>, \<^verbatim>\<open>gateway/session.cpp\<close>, \<^verbatim>\<open>replay/command.cpp\<close>. The contract of a message codec is
    the locale \<open>frame_codec\<close>, interpreted for every message; \<open>Wire_Properties\<close> states the results.
  \<^item> \<open>Fix_Protocol\<close>, \<open>Fix_Correct\<close>, \<open>Fix_Properties\<close>: \<^verbatim>\<open>protocol/fix.cpp\<close>, the text protocol.
  \<^item> \<open>Event_Log\<close>, \<open>Log_Writer\<close>: \<^verbatim>\<open>replay/event_log.cpp\<close>. A file has bytes in the stdio buffer, in the
    kernel and on stable storage, and the answers of the C library are arguments. A crash keeps the
    stable bytes and leaves any bytes in place of at most the others.
    \<open>Mersenne_Twister\<close>, \<open>Decimal\<close>, \<open>Recovery\<close>: \<^verbatim>\<open>replay/recovery.cpp\<close> with \<^verbatim>\<open>std::mt19937_64\<close> and decimal
    printing. \<open>Log_Properties\<close> states the results.
  \<^item> \<open>Shrink\<close>, \<open>Shrink_Correct\<close>, \<open>Shrink_Properties\<close>: \<^verbatim>\<open>replay/shrink.cpp\<close>.
  \<^item> \<open>Market_Data\<close>, \<open>Feed_Correct\<close>, \<open>Feed_Properties\<close>: \<^verbatim>\<open>feed/market_data.cpp\<close>, \<^verbatim>\<open>feed/publisher.cpp\<close>,
    \<^verbatim>\<open>feed/sequence_tracker.hpp\<close>, \<^verbatim>\<open>feed/udp_feed.cpp\<close>.
  \<^item> \<open>Spsc_Ring\<close>, \<open>Pipeline\<close>, \<open>Concurrency_Properties\<close>: \<^verbatim>\<open>concurrency/spsc_ring.hpp\<close> and
    \<^verbatim>\<open>concurrency/pipeline.hpp\<close>, as operations run to completion and as step relations.

  \<^bold>\<open>What is shown.\<close> The book refines the abstract book operation by operation (C1 to C9). Runs of
  commands refine the specified engine; books are never crossed, events are numbered without
  gaps, symbols are isolated, refused commands change nothing, and the notional check does not
  overflow (C10 to C15). Frames and commands round-trip; a session answers exactly what the
  gateway decides, its answers do not depend on how the stream is cut, and it respects its output
  limit (C16 to C21). The log round-trips, a corrupted byte outside the length field is noticed,
  the records acknowledged in the synchronous mode before the first refused append survive
  crashes, repair yields a valid log, and replay rebuilds the engine (C22 to C26); a record
  acknowledged after a refused append can be lost (\<open>acknowledged_after_refusal_lost\<close>). The shrinker
  ends with a failing flow that none of its own single steps reduces further (C27, C28). A feed
  subscriber sees the engine's prices and trades, and its gap counter is exact between the first
  and the last message received (C29, C30). The ring is a queue free of races and the pipeline
  equals the single-threaded run and cannot deadlock (C31 to C34). The three storages give the
  same answers where they accept an order, refuse exactly what they cannot hold, and the pools
  never hand out a live slot (C35 to C37). Text messages round-trip, a changed byte in front of
  the checksum is noticed, and only valid orders are decoded (C38 to C40).

  \<^bold>\<open>Bounds.\<close> Container sizes are natural numbers. Statements about runs assume fewer than 2^31
  commands, the shrinker's fewer than 2^32: the positions and identifiers kept in 32 bits then do
  not wrap. \<open>shrink_loop\<close> is a partial function with no bound on its passes; that it ends is C27.
  The loops over linked nodes and over the levels of the pooled storage carry a bound, the number
  of nodes of the level and of levels of the side; the simulation shows that they end by their own
  condition within it. Every other loop is a total function with its termination proof. Addresses
  and positions of the ring are natural numbers.

  \<^bold>\<open>Not modelled.\<close> The TCP and epoll servers, which move bytes between sockets and sessions; the
  fixture export, which formats what the engine returns; the OCaml verifier, an independent
  program; command-line programs and benchmarks. Memory is not modelled where the code only uses
  it through containers. Steps of the ring and the pipeline are interleaved in program order: the
  ring's acquire and release orders appear as the order of its steps, and weaker executions are
  not considered. In the pipeline a push or a pop of a ring is one step.
\<close>

end
